(* ===== verification/Prelude.thy ===== *)
theory Prelude
  imports Main "HOL-Library.AList"
begin

text \<open>
  Shared vocabulary of the development: Python exceptions as values, the result type of code
  that may raise, insertion-ordered dictionaries, and the generic lemmas and collections of
  facts the component theories rely on.
\<close>

section \<open>Exceptions and results\<close>

text \<open>
  The exception classes the modelled code raises or lets escape. Only the class decides which
  \<open>except\<close> clause catches it, so the texts are kept where the code reads them
  (\<open>GatewayError\<close>, \<open>MotionError\<close>) and nowhere else.
\<close>

datatype pyexc =
    ValueError
  | TypeError
  | KeyError
  | IndexError
  | AttributeError
  | OverflowError
  | ZeroDivisionError
  | RuntimeError
  | NotImplementedError
  | FileNotFoundError
  | UnicodeDecodeError
  | UnicodeEncodeError
  | JSONDecodeError
  | DatabaseError
  | ConnectionError
  | OSError
  | IncompleteReadError
  | StructError

text \<open>A computation that may raise: \<open>Inl\<close> the exception, \<open>Inr\<close> the returned value.\<close>

type_synonym 'a res = "pyexc + 'a"

fun rbind :: "'e + 'a \<Rightarrow> ('a \<Rightarrow> 'e + 'b) \<Rightarrow> 'e + 'b" where
  "rbind (Inl e) f = Inl e"
| "rbind (Inr x) f = f x"

definition guard :: "bool \<Rightarrow> 'e \<Rightarrow> 'e + unit" where
  "guard b e = (if b then Inr () else Inl e)"

text \<open>Python's \<open>for x in xs: body(x)\<close> where the body may raise.\<close>

fun rmap :: "('a \<Rightarrow> 'e + 'b) \<Rightarrow> 'a list \<Rightarrow> 'e + 'b list" where
  "rmap f [] = Inr []"
| "rmap f (x # xs) = rbind (f x) (\<lambda>y. rbind (rmap f xs) (\<lambda>ys. Inr (y # ys)))"

text \<open>A result of which only the second component is kept.\<close>

definition rmap_snd :: "'e + 'a \<times> 'b \<Rightarrow> 'e + 'b" where
  "rmap_snd r = rbind r (\<lambda>p. Inr (snd p))"

named_theorems res_simps \<open>results: how bind, guard and the loops evaluate\<close>

lemma rbind_Inr_iff [res_simps]:
  "rbind r f = Inr y \<longleftrightarrow> (\<exists>x. r = Inr x \<and> f x = Inr y)"
  by (cases r) auto

lemma rbind_Inl_iff [res_simps]:
  "rbind r f = Inl e \<longleftrightarrow> r = Inl e \<or> (\<exists>x. r = Inr x \<and> f x = Inl e)"
  by (cases r) auto

lemma guard_Inr_iff [res_simps]: "guard b e = Inr u \<longleftrightarrow> b"
  by (simp add: guard_def)

lemma guard_Inl_iff [res_simps]: "guard b e = Inl e' \<longleftrightarrow> \<not> b \<and> e' = e"
  by (auto simp: guard_def)

lemma rmap_snd_Inr_iff [res_simps]: "rmap_snd r = Inr y \<longleftrightarrow> (\<exists>x. r = Inr (x, y))"
  by (auto simp: rmap_snd_def res_simps)

lemma rmap_Inr_iff:
  "rmap f xs = Inr ys \<longleftrightarrow> list_all2 (\<lambda>x y. f x = Inr y) xs ys"
  by (induction xs arbitrary: ys) (auto simp: res_simps list_all2_Cons1)

lemma rmap_length: "rmap f xs = Inr ys \<Longrightarrow> length ys = length xs"
  by (auto simp: rmap_Inr_iff dest: list_all2_lengthD)

lemma rmap_map_Inr: "(\<And>x. x \<in> set xs \<Longrightarrow> f x = Inr (g x)) \<Longrightarrow> rmap f xs = Inr (map g xs)"
  by (induction xs) auto

section \<open>Dictionaries in insertion order\<close>

text \<open>
  A Python \<open>dict\<close> keeps its keys in insertion order; assigning to a present key keeps its
  place, assigning to an absent key appends. This is \<open>AList.update\<close> on an association list
  whose keys are distinct; \<open>d.get(k)\<close> is \<open>map_of d k\<close>.
\<close>

type_synonym ('k, 'v) dict = "('k \<times> 'v) list"

abbreviation dget :: "('k, 'v) dict \<Rightarrow> 'k \<Rightarrow> 'v option" where
  "dget \<equiv> map_of"

abbreviation dset :: "'k \<Rightarrow> 'v \<Rightarrow> ('k, 'v) dict \<Rightarrow> ('k, 'v) dict" where
  "dset \<equiv> AList.update"

definition ddel :: "'k \<Rightarrow> ('k, 'v) dict \<Rightarrow> ('k, 'v) dict" where
  "ddel k d = filter (\<lambda>p. fst p \<noteq> k) d"

abbreviation dkeys :: "('k, 'v) dict \<Rightarrow> 'k list" where
  "dkeys d \<equiv> map fst d"

definition dict_ok :: "('k, 'v) dict \<Rightarrow> bool" where
  "dict_ok d \<longleftrightarrow> distinct (dkeys d)"

text \<open>\<open>d.setdefault(k, v)\<close> for its effect on the dictionary.\<close>

definition dsetdefault :: "'k \<Rightarrow> 'v \<Rightarrow> ('k, 'v) dict \<Rightarrow> ('k, 'v) dict" where
  "dsetdefault k v d = (case dget d k of None \<Rightarrow> dset k v d | Some _ \<Rightarrow> d)"

text \<open>\<open>for v in d.values(): v.update()\<close>: every value changed in place.\<close>

definition dmap :: "('v \<Rightarrow> 'v) \<Rightarrow> ('k, 'v) dict \<Rightarrow> ('k, 'v) dict" where
  "dmap f d = map (\<lambda>(k, v). (k, f v)) d"

named_theorems dict_simps \<open>dictionaries: lookups after every operation\<close>

lemma dget_dset [dict_simps]: "dget (dset k v d) = (dget d)(k \<mapsto> v)"
  by (rule update_conv')

lemma dget_ddel [dict_simps]: "dget (ddel k d) = (dget d)(k := None)"
  by (induction d) (auto simp: ddel_def fun_eq_iff)

lemma dget_dmap [dict_simps]: "dget (dmap f d) k = map_option f (dget d k)"
  by (induction d) (auto simp: dmap_def)

lemma dget_dsetdefault [dict_simps]:
  "dget (dsetdefault k v d) = (if dget d k = None then (dget d)(k \<mapsto> v) else dget d)"
  by (auto simp: dsetdefault_def dict_simps split: option.splits)

lemma dict_ok_Nil [simp, intro]: "dict_ok []"
  by (simp add: dict_ok_def)

lemma dict_ok_dset [simp, intro]: "dict_ok d \<Longrightarrow> dict_ok (dset k v d)"
  by (simp add: dict_ok_def distinct_update)

lemma dict_ok_ddel [simp, intro]: "dict_ok d \<Longrightarrow> dict_ok (ddel k d)"
  by (auto simp: dict_ok_def ddel_def distinct_map intro: inj_on_subset)

lemma dkeys_dmap [simp]: "dkeys (dmap f d) = dkeys d"
  by (induction d) (auto simp: dmap_def)

lemma dict_ok_dmap [simp, intro]: "dict_ok d \<Longrightarrow> dict_ok (dmap f d)"
  by (simp add: dict_ok_def)

lemma dict_ok_dsetdefault [simp, intro]: "dict_ok d \<Longrightarrow> dict_ok (dsetdefault k v d)"
  by (auto simp: dsetdefault_def split: option.splits)

lemma set_dkeys_dset [simp]: "set (dkeys (dset k v d)) = insert k (set (dkeys d))"
  by (simp add: dom_update)

lemma set_dkeys_ddel [simp]: "set (dkeys (ddel k d)) = set (dkeys d) - {k}"
  by (auto simp: ddel_def)

lemma dget_None_iff: "dget d k = None \<longleftrightarrow> k \<notin> set (dkeys d)"
  by (simp add: map_of_eq_None_iff)

lemma dget_Some_key: "dget d k = Some v \<Longrightarrow> k \<in> set (dkeys d)"
  by (force dest: map_of_SomeD)

lemma dict_ok_entry: "dict_ok d \<Longrightarrow> (k, v) \<in> set d \<longleftrightarrow> dget d k = Some v"
  by (auto simp: dict_ok_def map_of_eq_Some_iff)

section \<open>Lists\<close>

text \<open>\<open>any(p(x, y) for x, y in zip(xs, ys))\<close>: \<open>zip\<close> stops at the shorter list.\<close>

definition any_zip :: "('a \<Rightarrow> 'b \<Rightarrow> bool) \<Rightarrow> 'a list \<Rightarrow> 'b list \<Rightarrow> bool" where
  "any_zip p xs ys \<longleftrightarrow> list_ex (\<lambda>(x, y). p x y) (zip xs ys)"

lemma any_zip_iff:
  "any_zip p xs ys \<longleftrightarrow> (\<exists>i. i < length xs \<and> i < length ys \<and> p (xs ! i) (ys ! i))"
  by (auto simp: any_zip_def list_ex_iff set_zip)

lemma not_any_zipD:
  "\<not> any_zip p xs ys \<Longrightarrow> i < length xs \<Longrightarrow> i < length ys \<Longrightarrow> \<not> p (xs ! i) (ys ! i)"
  by (auto simp: any_zip_iff)

end
