(* ===== verification/PyFloat.thy ===== *)
theory PyFloat
  imports Complex_Main Prelude
begin

text \<open>
  Python's \<open>float\<close>: an IEEE-754 double. A finite double is the rational it denotes; every
  arithmetic result is the exact rational rounded by \<open>f64\<close> to the nearest double, ties to
  even, overflowing to infinity. \<open>Fin 0\<close> is the positive zero, \<open>NZero\<close> the negative one: they
  compare equal, and only arithmetic and printing tell them apart.
\<close>

section \<open>Integer logarithm and rounding\<close>

text \<open>\<open>flog b n\<close>: the largest \<open>e\<close> with \<open>b ^ e \<le> n\<close>, for positive \<open>n\<close>.\<close>

function flog :: "int \<Rightarrow> int \<Rightarrow> nat" where
  "flog b n = (if n < b \<or> b < 2 then 0 else Suc (flog b (n div b)))"
  by pat_completeness auto
termination
  by (relation "measure (\<lambda>(b, n). nat n)") (auto simp: int_div_less_self)

declare flog.simps [simp del]

lemma flog_bounds:
  assumes "2 \<le> b" "0 < n"
  shows "b ^ flog b n \<le> n \<and> n < b ^ Suc (flog b n)"
  using assms
proof (induction b n rule: flog.induct)
  case (1 b n)
  show ?case
  proof (cases "n < b")
    case True
    with 1 show ?thesis by (simp add: flog.simps [of b n])
  next
    case False
    with "1.prems" have d: "0 < n div b"
      by (simp add: pos_imp_zdiv_pos_iff)
    with 1 False have "b ^ flog b (n div b) \<le> n div b \<and> n div b < b ^ Suc (flog b (n div b))"
      by simp
    then have "b ^ flog b (n div b) * b \<le> (n div b) * b"
        and "(n div b + 1) * b \<le> b ^ Suc (flog b (n div b)) * b"
      using "1.prems" by (simp_all only: mult_right_mono zless_imp_add1_zle)
    moreover have "(n div b) * b \<le> n" "n < (n div b + 1) * b"
    proof -
      have "0 \<le> n mod b" "n mod b < b" using "1.prems" by auto
      then show "(n div b) * b \<le> n" "n < (n div b + 1) * b"
        using div_mult_mod_eq [of n b] unfolding distrib_right by linarith+
    qed
    ultimately have "b ^ flog b (n div b) * b \<le> n" "n < b ^ Suc (flog b (n div b)) * b"
      by linarith+
    then show ?thesis
      using False "1.prems" by (simp add: flog.simps [of b n] mult_ac)
  qed
qed

text \<open>\<open>ilog b q\<close>: the largest \<open>e\<close> with \<open>b powi e \<le> q\<close>, for positive \<open>q\<close>.\<close>

lemma powi_less_iff: "1 < (x :: rat) \<Longrightarrow> x powi m < x powi n \<longleftrightarrow> m < n"
  by (metis linorder_not_less power_int_increasing order_less_imp_le power_int_strict_increasing)

definition ilog :: "int \<Rightarrow> rat \<Rightarrow> int" where
  "ilog b q =
     (let (n, d) = quotient_of q; e = int (flog b n) - int (flog b d)
      in if of_int b powi e \<le> q then e else e - 1)"

lemma ilog_bounds:
  assumes b: "2 \<le> b" and q: "0 < q"
  shows "of_int b powi ilog b q \<le> q \<and> q < of_int b powi (ilog b q + 1)"
proof -
  obtain n d where nd: "quotient_of q = (n, d)" by fastforce
  have d: "0 < d" using nd by (rule quotient_of_denom_pos)
  have qn: "q = of_int n / of_int d" using nd by (rule quotient_of_div)
  have n: "0 < n" using q d by (simp add: qn zero_less_divide_iff)
  let ?b = "of_int b :: rat" and ?k = "flog b n" and ?l = "flog b d"
  have b0: "0 < ?b" using b by simp
  have 1: "?b ^ ?k \<le> of_int n" "of_int n < ?b ^ Suc ?k"
    using flog_bounds [OF b n] by (metis of_int_le_iff of_int_power, metis of_int_less_iff of_int_power)
  have 2: "?b ^ ?l \<le> of_int d" "of_int d < ?b ^ Suc ?l"
    using flog_bounds [OF b d] by (metis of_int_le_iff of_int_power, metis of_int_less_iff of_int_power)
  have e: "?b powi (int x - int y) = ?b ^ x / ?b ^ y" for x y
    using b0 by (simp add: power_int_diff)
  have up: "q < ?b powi (int ?k - int ?l + 1)"
  proof -
    have "q < ?b ^ Suc ?k / ?b ^ ?l"
      unfolding qn using 1 2 n d b0 by (intro frac_less) auto
    then show ?thesis using e [of "Suc ?k" ?l] by (simp add: algebra_simps)
  qed
  have lo: "?b powi (int ?k - int ?l - 1) \<le> q"
  proof -
    have "?b ^ ?k / ?b ^ Suc ?l \<le> q"
      unfolding qn using 1 2 n d b0 by (intro frac_le) auto
    then show ?thesis using e [of ?k "Suc ?l"] by (simp add: algebra_simps)
  qed
  show ?thesis
    using up lo by (simp add: ilog_def nd Let_def)
qed

lemma ilog_eqI:
  assumes b: "2 \<le> b" and le: "of_int b powi e \<le> q" and less: "q < of_int b powi (e + 1)"
  shows "ilog b q = e"
proof -
  let ?b = "of_int b :: rat"
  have b1: "1 < ?b" using b by simp
  then have q: "0 < q" using le by (meson less_le_trans zero_less_power_int zero_less_one less_trans)
  have B: "?b powi ilog b q \<le> q" "q < ?b powi (ilog b q + 1)"
    using ilog_bounds [OF b q] by auto
  have "?b powi e < ?b powi (ilog b q + 1)" "?b powi ilog b q < ?b powi (e + 1)"
    using B le less by linarith+
  then have "e < ilog b q + 1" "ilog b q < e + 1"
    using b1 by (auto simp: powi_less_iff)
  then show ?thesis by simp
qed

lemma ilog_mono:
  assumes b: "2 \<le> b" and "0 < p" "p \<le> q"
  shows "ilog b p \<le> ilog b q"
proof -
  let ?b = "of_int b :: rat"
  have "?b powi ilog b p < ?b powi (ilog b q + 1)"
    using ilog_bounds [OF b, of p] ilog_bounds [OF b, of q] assms by force
  then show ?thesis
    using b by (auto simp: powi_less_iff)
qed

text \<open>Round to the nearest integer, ties to the even one.\<close>

definition rhe :: "rat \<Rightarrow> int" where
  "rhe q =
     (let n = \<lfloor>q\<rfloor>; r = q - of_int n
      in if r < 1/2 then n else if r > 1/2 then n + 1 else if even n then n else n + 1)"

lemma rhe_error: "\<bar>of_int (rhe q) - q\<bar> \<le> 1/2"
proof -
  have "of_int \<lfloor>q\<rfloor> \<le> q" "q < of_int \<lfloor>q\<rfloor> + 1" by linarith+
  then show ?thesis
    unfolding rhe_def Let_def by (auto simp: abs_le_iff)
qed

lemma rhe_of_int [simp]: "rhe (of_int n) = n"
  by (simp add: rhe_def)

lemma rhe_mono: "p \<le> q \<Longrightarrow> rhe p \<le> rhe q"
proof -
  assume pq: "p \<le> q"
  then have "\<lfloor>p\<rfloor> \<le> \<lfloor>q\<rfloor>" by (rule floor_mono)
  then consider "\<lfloor>p\<rfloor> = \<lfloor>q\<rfloor>" | "\<lfloor>p\<rfloor> + 1 \<le> \<lfloor>q\<rfloor>" by linarith
  then show ?thesis
  proof cases
    case 1
    then show ?thesis using pq unfolding rhe_def Let_def by auto
  next
    case 2
    have "rhe p \<le> \<lfloor>p\<rfloor> + 1" "\<lfloor>q\<rfloor> \<le> rhe q"
      unfolding rhe_def Let_def by auto
    with 2 show ?thesis by linarith
  qed
qed

lemma rhe_le_of_int: "q \<le> of_int n \<Longrightarrow> rhe q \<le> n"
  using rhe_mono [of q "of_int n"] by simp

lemma rhe_ge_of_int: "of_int n \<le> q \<Longrightarrow> n \<le> rhe q"
  using rhe_mono [of "of_int n" q] by simp

lemma rhe_uminus: "rhe (- q) = - rhe q"
proof (cases "q = of_int \<lfloor>q\<rfloor>")
  case True
  then show ?thesis by (metis rhe_of_int of_int_minus)
next
  case False
  then have lt: "of_int \<lfloor>q\<rfloor> < q" "q < of_int \<lfloor>q\<rfloor> + 1" by linarith+
  then have "\<lfloor>- q\<rfloor> = - \<lfloor>q\<rfloor> - 1"
    by (intro floor_unique) auto
  then show ?thesis
    unfolding rhe_def Let_def using lt by auto
qed

section \<open>Doubles\<close>

datatype pyfloat = Fin rat | NZero | PInf | NInf | NaN

text \<open>The rational a finite double denotes.\<close>

fun fval :: "pyfloat \<Rightarrow> rat option" where
  "fval (Fin q) = Some q"
| "fval NZero = Some 0"
| "fval _ = None"

text \<open>The exponent of the last place of a double near \<open>q\<close>: 53 bits, subnormals at \<open>2 powi -1074\<close>.\<close>

definition ulp_exp :: "rat \<Rightarrow> int" where
  "ulp_exp q = max (ilog 2 \<bar>q\<bar> - 52) (-1074)"

text \<open>The rounding before the overflow test.\<close>

definition round53 :: "rat \<Rightarrow> rat" where
  "round53 q = (let u = 2 powi ulp_exp q in of_int (rhe (q / u)) * u)"

definition f64 :: "rat \<Rightarrow> pyfloat" where
  "f64 q =
     (if q = 0 then Fin 0
      else let v = round53 q
           in if \<bar>v\<bar> < 2 ^ 1024 then Fin v else if v > 0 then PInf else NInf)"

lemma round53_error: "\<bar>round53 q - q\<bar> \<le> 2 powi ulp_exp q / 2"
proof -
  let ?u = "2 powi ulp_exp q :: rat"
  have u: "0 < ?u" by simp
  have "round53 q - q = (of_int (rhe (q / ?u)) - q / ?u) * ?u"
    using u by (simp add: round53_def Let_def field_simps)
  then have "\<bar>round53 q - q\<bar> = \<bar>of_int (rhe (q / ?u)) - q / ?u\<bar> * ?u"
    using u by (simp add: abs_mult)
  also have "\<dots> \<le> 1/2 * ?u"
    using rhe_error u by (intro mult_right_mono) auto
  finally show ?thesis by simp
qed

lemma ulp_exp_le: "q \<noteq> 0 \<Longrightarrow> 2 powi ulp_exp q \<le> max (\<bar>q\<bar> / 2 ^ 52) (2 powi -1074 :: rat)"
proof -
  assume "q \<noteq> 0"
  then have "2 powi ilog 2 \<bar>q\<bar> \<le> \<bar>q\<bar>"
    using ilog_bounds [of 2 "\<bar>q\<bar>"] by simp
  then have "2 powi (ilog 2 \<bar>q\<bar> - 52) \<le> \<bar>q\<bar> / 2 ^ 52"
    by (simp add: power_int_diff divide_right_mono)
  then show ?thesis by (auto simp: ulp_exp_def max_def)
qed

lemma f64_Fin_round: "f64 q = Fin v \<Longrightarrow> q \<noteq> 0 \<Longrightarrow> v = round53 q"
  by (auto simp: f64_def Let_def split: if_splits)

text \<open>The rounding error: half a unit in the last place.\<close>

lemma f64_error:
  assumes "f64 q = Fin v"
  shows "\<bar>v - q\<bar> \<le> max (\<bar>q\<bar> / 2 ^ 53) (2 powi -1075)"
proof (cases "q = 0")
  case True
  with assms show ?thesis by (simp add: f64_def)
next
  case False
  have *: "(2 powi -1074 :: rat) / 2 = 2 powi -1075"
    using power_int_diff [of "2 :: rat" "-1074" 1] by simp
  have "\<bar>v - q\<bar> \<le> 2 powi ulp_exp q / 2"
    using f64_Fin_round [OF assms False] round53_error by simp
  also have "\<dots> \<le> max (\<bar>q\<bar> / 2 ^ 52) (2 powi -1074) / 2"
    using ulp_exp_le [OF False] by (rule divide_right_mono) simp
  also have "\<dots> = max (\<bar>q\<bar> / 2 ^ 53) (2 powi -1075)"
    using * by (auto simp: max_def field_simps)
  finally show ?thesis .
qed

text \<open>Multiples of the last place below \<open>2 ^ 53\<close> of them are doubles, and stay what they are.\<close>

lemma round53_exact:
  assumes "q = of_int m * 2 powi e" "ulp_exp q \<le> e"
  shows "round53 q = q"
proof -
  have "q / 2 powi ulp_exp q = of_int m * 2 powi (e - ulp_exp q)"
    using assms(1) by (simp add: power_int_diff)
  also have "\<dots> = of_int (m * 2 ^ nat (e - ulp_exp q))"
    using assms(2) by (simp add: power_int_nonneg_exp)
  finally have "q / 2 powi ulp_exp q = of_int (m * 2 ^ nat (e - ulp_exp q))" .
  then have "round53 q = q / 2 powi ulp_exp q * 2 powi ulp_exp q"
    unfolding round53_def Let_def by (simp only: rhe_of_int)
  then show ?thesis by simp
qed

lemma ilog_less:
  assumes "q \<noteq> 0" "\<bar>q\<bar> < 2 powi e"
  shows "ilog 2 \<bar>q\<bar> < e"
proof -
  have "2 powi ilog 2 \<bar>q\<bar> < (2 powi e :: rat)"
    using ilog_bounds [of 2 "\<bar>q\<bar>"] assms by (simp add: le_less_trans)
  then show ?thesis by (simp add: powi_less_iff)
qed

lemma f64_exact:
  assumes "q = of_int m * 2 powi e" "\<bar>m\<bar> \<le> 2 ^ 53" "-1074 \<le> e" "e \<le> 900"
  shows "f64 q = Fin q"
proof (cases "q = 0")
  case True
  then show ?thesis by (simp add: f64_def)
next
  case False
  have abs: "\<bar>q\<bar> = of_int \<bar>m\<bar> * 2 powi e"
    using assms(1) by (simp add: abs_mult)
  have le: "\<bar>q\<bar> \<le> 2 powi (e + 53)"
  proof -
    have "(of_int \<bar>m\<bar> :: rat) \<le> of_int (2 ^ 53)"
      using assms(2) by (simp only: of_int_le_iff)
    then have "\<bar>q\<bar> \<le> 2 ^ 53 * 2 powi e"
      unfolding abs by (intro mult_right_mono) auto
    then show ?thesis by (simp add: power_int_add mult.commute)
  qed
  have big: "\<bar>q\<bar> < 2 ^ 1024"
  proof -
    have "2 powi (e + 53) \<le> (2 powi 1023 :: rat)"
      using assms(4) by (intro power_int_increasing) auto
    also have "(2 :: rat) powi 1023 < 2 ^ 1024" by (simp add: power_int_nonneg_exp)
    finally show ?thesis using le by linarith
  qed
  have "round53 q = q"
  proof (cases "\<bar>q\<bar> = 2 powi (e + 53)")
    case True
    have "q = of_int (sgn m * \<bar>m\<bar>) * 2 powi e"
      using assms(1) by (simp add: sgn_mult_abs)
    then have q: "q = of_int (sgn m) * 2 powi (e + 53)"
      using True abs by simp
    have "ilog 2 \<bar>q\<bar> = e + 53"
      using True by (intro ilog_eqI) (auto simp: power_int_strict_increasing)
    then have "ulp_exp q \<le> e + 53" using assms(3) by (simp add: ulp_exp_def)
    with q show ?thesis by (rule round53_exact)
  next
    case ne: False
    with le have "\<bar>q\<bar> < 2 powi (e + 53)" by simp
    then have "ulp_exp q \<le> e"
      using ilog_less [OF False] assms(3) by (fastforce simp: ulp_exp_def)
    with assms(1) show ?thesis by (rule round53_exact)
  qed
  with False big show ?thesis by (simp add: f64_def)
qed

lemma f64_of_int: "\<bar>m\<bar> \<le> 2 ^ 53 \<Longrightarrow> f64 (of_int m) = Fin (of_int m)"
  using f64_exact [of "of_int m" m 0] by simp

lemma f64_numeral [simp]: "numeral k \<le> (2 ^ 53 :: int) \<Longrightarrow> f64 (numeral k) = Fin (numeral k)"
  using f64_of_int [of "numeral k"] by simp

lemma f64_neg_numeral [simp]:
  "numeral k \<le> (2 ^ 53 :: int) \<Longrightarrow> f64 (- numeral k) = Fin (- numeral k)"
  using f64_of_int [of "- numeral k"] by simp

lemma f64_0 [simp]: "f64 0 = Fin 0"
  by (simp add: f64_def)

lemma f64_1 [simp]: "f64 1 = Fin 1"
  using f64_of_int [of 1] by simp

lemma f64_m1 [simp]: "f64 (- 1) = Fin (- 1)"
  using f64_of_int [of "- 1"] by simp

text \<open>Evaluating \<open>f64\<close> at a concrete rational: name the exponent and the rounded mantissa.\<close>

lemma f64_eqI:
  assumes "0 < q" "2 powi e \<le> q" "q < 2 powi (e + 1)" "-1022 \<le> e" "e \<le> 1000"
    and "rhe (q / 2 powi (e - 52)) = m" and v: "v = of_int m * 2 powi (e - 52)"
  shows "f64 q = Fin v"
proof -
  have "ilog 2 \<bar>q\<bar> = e" using assms by (intro ilog_eqI) auto
  then have u: "ulp_exp q = e - 52" using assms by (simp add: ulp_exp_def)
  have r: "round53 q = v"
    using assms u by (simp add: round53_def)
  have "\<bar>v - q\<bar> \<le> 2 powi (e - 52) / 2"
    using round53_error [of q] u r by simp
  also have "(2 powi (e - 52) :: rat) \<le> 2 powi 948"
    using assms by (intro power_int_increasing) auto
  finally have "\<bar>v - q\<bar> \<le> 2 powi 948 / 2" by (simp add: divide_right_mono)
  moreover have "2 powi (e + 1) \<le> (2 powi 1001 :: rat)"
    using assms by (intro power_int_increasing) auto
  moreover have "(2 powi 948 :: rat) / 2 + 2 powi 1001 < 2 ^ 1024"
    by (simp add: power_int_nonneg_exp)
  ultimately have "\<bar>v\<bar> < 2 ^ 1024" using assms(1,3) by linarith
  then show ?thesis using assms(1) r by (simp add: f64_def)
qed

subsection \<open>Rounding is monotone\<close>

lemma round53_uminus: "round53 (- q) = - round53 q"
  by (simp add: round53_def ulp_exp_def Let_def rhe_uminus)

lemma round53_sign: "0 \<le> q \<Longrightarrow> 0 \<le> round53 q"
  unfolding round53_def Let_def by (intro mult_nonneg_nonneg) (auto intro: rhe_ge_of_int)

lemma round53_le_powi:
  assumes "0 < q" "q \<le> 2 powi e" "ulp_exp q \<le> e"
  shows "round53 q \<le> 2 powi e"
proof -
  let ?u = "2 powi ulp_exp q :: rat"
  have n: "2 powi (e - ulp_exp q) = (of_int (2 ^ nat (e - ulp_exp q)) :: rat)"
    using assms by (simp add: power_int_nonneg_exp)
  have "q / ?u \<le> 2 powi (e - ulp_exp q)"
    using assms by (simp add: power_int_diff divide_right_mono)
  then have "rhe (q / ?u) \<le> 2 ^ nat (e - ulp_exp q)"
    unfolding n by (rule rhe_le_of_int)
  then have "of_int (rhe (q / ?u)) \<le> (2 powi (e - ulp_exp q) :: rat)"
    unfolding n by (simp only: of_int_le_iff)
  then have "round53 q \<le> 2 powi (e - ulp_exp q) * ?u"
    unfolding round53_def Let_def by (intro mult_right_mono) auto
  then show ?thesis by (simp add: power_int_diff)
qed

lemma round53_ge_powi:
  assumes "2 powi e \<le> q" "ulp_exp q \<le> e"
  shows "2 powi e \<le> round53 q"
proof -
  let ?u = "2 powi ulp_exp q :: rat"
  have n: "2 powi (e - ulp_exp q) = (of_int (2 ^ nat (e - ulp_exp q)) :: rat)"
    using assms by (simp add: power_int_nonneg_exp)
  have "2 powi (e - ulp_exp q) \<le> q / ?u"
    using assms by (simp add: power_int_diff divide_right_mono)
  then have "2 ^ nat (e - ulp_exp q) \<le> rhe (q / ?u)"
    unfolding n by (rule rhe_ge_of_int)
  then have "2 powi (e - ulp_exp q) \<le> (of_int (rhe (q / ?u)) :: rat)"
    unfolding n by (simp only: of_int_le_iff)
  then have "2 powi (e - ulp_exp q) * ?u \<le> round53 q"
    unfolding round53_def Let_def by (intro mult_right_mono) auto
  then show ?thesis by (simp add: power_int_diff)
qed

lemma round53_mono_pos:
  assumes "0 < p" "p \<le> q"
  shows "round53 p \<le> round53 q"
proof (cases "ulp_exp p = ulp_exp q")
  case True
  then show ?thesis
    using assms unfolding round53_def Let_def
    by (auto intro!: mult_right_mono rhe_mono divide_right_mono)
next
  case False
  have "ilog 2 p \<le> ilog 2 q" using assms by (intro ilog_mono) auto
  with False assms have lt: "ilog 2 p < ilog 2 q" "ulp_exp q = ilog 2 q - 52" "ulp_exp p \<le> ilog 2 q"
    by (auto simp: ulp_exp_def max_def split: if_splits)
  have "p \<le> 2 powi (ilog 2 p + 1)" using ilog_bounds [of 2 p] assms by simp
  also have "\<dots> \<le> 2 powi ilog 2 q" using lt by (intro power_int_increasing) auto
  finally have "round53 p \<le> 2 powi ilog 2 q"
    using assms lt by (intro round53_le_powi) auto
  also have "\<dots> \<le> round53 q"
    using ilog_bounds [of 2 q] assms lt by (intro round53_ge_powi) auto
  finally show ?thesis .
qed

lemma round53_mono:
  assumes "p \<le> q"
  shows "round53 p \<le> round53 q"
proof -
  have [simp]: "round53 0 = 0" using rhe_of_int [of 0] by (simp add: round53_def)
  consider "0 < p" | "p \<le> 0" "0 \<le> q" | "q < 0" by linarith
  then show ?thesis
  proof cases
    case 1
    then show ?thesis using assms by (rule round53_mono_pos)
  next
    case 2
    then show ?thesis
      using round53_sign [of "- p"] round53_sign [of q] by (simp add: round53_uminus)
  next
    case 3
    then show ?thesis
      using round53_mono_pos [of "- q" "- p"] assms by (simp add: round53_uminus)
  qed
qed

section \<open>Comparison and arithmetic\<close>

text \<open>
  The comparisons are those of IEEE-754: every one with a NaN is false. An \<open>int\<close> compared
  with a \<open>float\<close> compares exactly in Python, so the same functions serve on the rationals.
\<close>

instantiation pyfloat :: ord
begin

fun less_eq_pyfloat :: "pyfloat \<Rightarrow> pyfloat \<Rightarrow> bool" where
  "less_eq_pyfloat (Fin p) (Fin q) = (p \<le> q)"
| "less_eq_pyfloat (Fin p) NZero = (p \<le> 0)"
| "less_eq_pyfloat NZero (Fin q) = (0 \<le> q)"
| "less_eq_pyfloat NZero NZero = True"
| "less_eq_pyfloat NaN _ = False"
| "less_eq_pyfloat _ NaN = False"
| "less_eq_pyfloat NInf _ = True"
| "less_eq_pyfloat _ PInf = True"
| "less_eq_pyfloat _ _ = False"

fun less_pyfloat :: "pyfloat \<Rightarrow> pyfloat \<Rightarrow> bool" where
  "less_pyfloat (Fin p) (Fin q) = (p < q)"
| "less_pyfloat (Fin p) NZero = (p < 0)"
| "less_pyfloat NZero (Fin q) = (0 < q)"
| "less_pyfloat NZero NZero = False"
| "less_pyfloat NaN _ = False"
| "less_pyfloat _ NaN = False"
| "less_pyfloat PInf _ = False"
| "less_pyfloat _ NInf = False"
| "less_pyfloat _ _ = True"

instance ..

end

text \<open>A result that is zero, by underflow or because it is, has the sign the operation gives it.\<close>

definition with_sign :: "bool \<Rightarrow> pyfloat \<Rightarrow> pyfloat" where
  "with_sign neg x = (if neg \<and> x = Fin 0 then NZero else x)"

lemma with_sign_simps [simp]:
  "with_sign False x = x" "p \<noteq> 0 \<Longrightarrow> with_sign b (Fin p) = Fin p" "with_sign True (Fin 0) = NZero"
  "with_sign b NZero = NZero" "with_sign b PInf = PInf" "with_sign b NInf = NInf" "with_sign b NaN = NaN"
  by (simp_all add: with_sign_def)

instantiation pyfloat :: "{zero, plus, minus, uminus, times, abs}"
begin

definition zero_pyfloat :: pyfloat where
  "zero_pyfloat = Fin 0"

fun uminus_pyfloat :: "pyfloat \<Rightarrow> pyfloat" where
  "uminus_pyfloat (Fin q) = (if q = 0 then NZero else Fin (- q))"
| "uminus_pyfloat NZero = Fin 0"
| "uminus_pyfloat PInf = NInf"
| "uminus_pyfloat NInf = PInf"
| "uminus_pyfloat NaN = NaN"

fun plus_pyfloat :: "pyfloat \<Rightarrow> pyfloat \<Rightarrow> pyfloat" where
  "plus_pyfloat (Fin p) (Fin q) = f64 (p + q)"
| "plus_pyfloat (Fin p) NZero = f64 p"
| "plus_pyfloat NZero (Fin q) = f64 q"
| "plus_pyfloat NZero NZero = NZero"
| "plus_pyfloat NaN _ = NaN"
| "plus_pyfloat _ NaN = NaN"
| "plus_pyfloat PInf NInf = NaN"
| "plus_pyfloat NInf PInf = NaN"
| "plus_pyfloat PInf _ = PInf"
| "plus_pyfloat _ PInf = PInf"
| "plus_pyfloat NInf _ = NInf"
| "plus_pyfloat _ NInf = NInf"

definition minus_pyfloat :: "pyfloat \<Rightarrow> pyfloat \<Rightarrow> pyfloat" where
  "minus_pyfloat x y = x + (- y)"

fun times_pyfloat :: "pyfloat \<Rightarrow> pyfloat \<Rightarrow> pyfloat" where
  "times_pyfloat (Fin p) (Fin q) = with_sign ((p < 0) \<noteq> (q < 0)) (f64 (p * q))"
| "times_pyfloat (Fin p) NZero = (if p < 0 then Fin 0 else NZero)"
| "times_pyfloat NZero (Fin q) = (if q < 0 then Fin 0 else NZero)"
| "times_pyfloat NZero NZero = Fin 0"
| "times_pyfloat NaN _ = NaN"
| "times_pyfloat _ NaN = NaN"
| "times_pyfloat NZero _ = NaN"
| "times_pyfloat _ NZero = NaN"
| "times_pyfloat (Fin p) y = (if p = 0 then NaN else if p > 0 then y else - y)"
| "times_pyfloat x (Fin q) = (if q = 0 then NaN else if q > 0 then x else - x)"
| "times_pyfloat x y = (if x = y then PInf else NInf)"

fun abs_pyfloat :: "pyfloat \<Rightarrow> pyfloat" where
  "abs_pyfloat (Fin q) = Fin \<bar>q\<bar>"
| "abs_pyfloat NZero = Fin 0"
| "abs_pyfloat NaN = NaN"
| "abs_pyfloat _ = PInf"

instance ..

end

fun isfinite :: "pyfloat \<Rightarrow> bool" where
  "isfinite (Fin _) = True"
| "isfinite NZero = True"
| "isfinite _ = False"

fun isinf :: "pyfloat \<Rightarrow> bool" where
  "isinf (Fin _) = False"
| "isinf NZero = False"
| "isinf NaN = False"
| "isinf _ = True"

text \<open>\<open>x == y\<close> on floats: NaN equals nothing, the zeros equal each other.\<close>

definition feq :: "pyfloat \<Rightarrow> pyfloat \<Rightarrow> bool" where
  "feq x y \<longleftrightarrow> x \<le> y \<and> y \<le> x"

text \<open>\<open>x / y\<close>: Python raises on a zero divisor.\<close>

fun fdiv :: "pyfloat \<Rightarrow> pyfloat \<Rightarrow> pyfloat res" where
  "fdiv x (Fin q) =
     (if q = 0 then Inl ZeroDivisionError
      else Inr (case x of Fin p \<Rightarrow> with_sign ((p < 0) \<noteq> (q < 0)) (f64 (p / q)) | NaN \<Rightarrow> NaN
                | y \<Rightarrow> if q > 0 then y else - y))"
| "fdiv x NZero = Inl ZeroDivisionError"
| "fdiv x NaN = Inr NaN"
| "fdiv x PInf = Inr (case x of Fin p \<Rightarrow> if p < 0 then NZero else Fin 0 | NZero \<Rightarrow> NZero | _ \<Rightarrow> NaN)"
| "fdiv x NInf = Inr (case x of Fin p \<Rightarrow> if p < 0 then Fin 0 else NZero | NZero \<Rightarrow> Fin 0 | _ \<Rightarrow> NaN)"

text \<open>\<open>math.isclose(a, b, rel_tol, abs_tol)\<close>.\<close>

definition isclose :: "pyfloat \<Rightarrow> pyfloat \<Rightarrow> pyfloat \<Rightarrow> pyfloat \<Rightarrow> bool" where
  "isclose a b rel_tol abs_tol \<longleftrightarrow>
     (if feq a b then True
      else if isinf a \<or> isinf b then False
      else let diff = \<bar>b - a\<bar>
           in diff \<le> \<bar>rel_tol * b\<bar> \<or> diff \<le> \<bar>rel_tol * a\<bar> \<or> diff \<le> abs_tol)"

lemma isfinite_iff: "isfinite x \<longleftrightarrow> (\<exists>q. fval x = Some q)"
  by (cases x) auto

lemma fval_Some_iff: "fval x = Some q \<longleftrightarrow> x = Fin q \<or> x = NZero \<and> q = 0"
  by (cases x) auto

lemma less_fval [simp]: "fval x = Some p \<Longrightarrow> x < Fin q \<longleftrightarrow> p < q" "fval x = Some p \<Longrightarrow> Fin q < x \<longleftrightarrow> q < p"
  by (cases x; simp)+

lemma less_eq_fval [simp]: "fval x = Some p \<Longrightarrow> x \<le> Fin q \<longleftrightarrow> p \<le> q" "fval x = Some p \<Longrightarrow> Fin q \<le> x \<longleftrightarrow> q \<le> p"
  by (cases x; simp)+

lemma fval_with_sign [simp]: "fval (with_sign b x) = fval x" "isfinite (with_sign b x) = isfinite x" "isfinite (- x) = isfinite x"
proof -
  show "fval (with_sign b x) = fval x" "isfinite (with_sign b x) = isfinite x" by (auto simp: with_sign_def)
  show "isfinite (- x) = isfinite x" by (cases x) simp_all
qed

lemma not_le_finite: "isfinite x \<Longrightarrow> isfinite y \<Longrightarrow> \<not> y \<le> x \<longleftrightarrow> x < y"
  by (cases x; cases y) auto

lemma plus_fval: "fval x = Some p \<Longrightarrow> fval y = Some q \<Longrightarrow> x + y = f64 (p + q) \<or> x + y = NZero \<and> p = 0 \<and> q = 0"
  by (cases x; cases y) auto

lemma minus_fval: "fval x = Some p \<Longrightarrow> fval y = Some q \<Longrightarrow> x - y = f64 (p - q) \<or> x - y = NZero \<and> p = 0 \<and> q = 0"
  by (cases x; cases y) (auto simp: minus_pyfloat_def)

lemma minus_Fin [simp]: "Fin p - Fin q = f64 (p - q)"
  by (simp add: minus_pyfloat_def)

text \<open>
  What a failed comparison with a rounded bound says of the exact one: with
  \<open>\<not> v < f64 q\<close>, \<open>v\<close> is at least \<open>q\<close> less the rounding error.
\<close>

lemma f64_bounded:
  assumes "\<bar>q\<bar> \<le> 2 powi e" "-1000 \<le> e" "e \<le> 1000"
  obtains v where "f64 q = Fin v" "\<bar>v\<bar> \<le> 2 powi e"
proof (cases "q = 0")
  case True
  then show ?thesis by (intro that [of 0]) auto
next
  case False
  have "2 powi ilog 2 \<bar>q\<bar> \<le> \<bar>q\<bar>"
    using ilog_bounds [of 2 "\<bar>q\<bar>"] False by simp
  also note assms(1)
  finally have "ilog 2 \<bar>q\<bar> \<le> e" by (metis linorder_not_less powi_less_iff one_less_numeral_iff semiring_norm(76))
  then have "ulp_exp \<bar>q\<bar> \<le> e" using assms by (simp add: ulp_exp_def)
  then have "round53 \<bar>q\<bar> \<le> 2 powi e"
    using False assms by (intro round53_le_powi) auto
  moreover have "\<bar>round53 q\<bar> = round53 \<bar>q\<bar>"
    using round53_sign [of q] round53_sign [of "- q"]
    by (cases "0 \<le> q") (auto simp: round53_uminus)
  moreover have "2 powi e < (2 powi 1024 :: rat)"
    using assms by (intro power_int_strict_increasing) auto
  ultimately have "\<bar>round53 q\<bar> \<le> 2 powi e" "\<bar>round53 q\<bar> < 2 ^ 1024"
    by (simp_all add: power_int_nonneg_exp)
  then show ?thesis
    using False by (intro that [of "round53 q"]) (simp_all add: f64_def)
qed

lemma not_less_f64D:
  assumes "\<not> Fin v < f64 q" "\<bar>q\<bar> \<le> 2 powi 100"
  shows "q - max (\<bar>q\<bar> / 2 ^ 53) (2 powi -1075) \<le> v"
proof -
  obtain w where w: "f64 q = Fin w"
    using assms(2) by (rule f64_bounded) auto
  then have "\<bar>w - q\<bar> \<le> max (\<bar>q\<bar> / 2 ^ 53) (2 powi -1075)" by (rule f64_error)
  with assms(1) w show ?thesis by (simp add: abs_le_iff)
qed

lemma not_greater_f64D:
  assumes "\<not> f64 q < Fin v" "\<bar>q\<bar> \<le> 2 powi 100"
  shows "v \<le> q + max (\<bar>q\<bar> / 2 ^ 53) (2 powi -1075)"
proof -
  obtain w where w: "f64 q = Fin w"
    using assms(2) by (rule f64_bounded) auto
  then have "\<bar>w - q\<bar> \<le> max (\<bar>q\<bar> / 2 ^ 53) (2 powi -1075)" by (rule f64_error)
  with assms(1) w show ?thesis by (simp add: abs_le_iff)
qed

lemma f64_no_NaN [simp]: "f64 q \<noteq> NaN" "f64 q \<noteq> NZero"
  by (simp_all add: f64_def Let_def)

lemma f64_near:
  assumes "\<bar>q\<bar> \<le> 2 powi 100"
  obtains v where "f64 q = Fin v" "\<bar>v - q\<bar> \<le> max (\<bar>q\<bar> / 2 ^ 53) (2 powi -1075)"
proof -
  obtain v where v: "f64 q = Fin v" using assms by (rule f64_bounded) simp_all
  then show ?thesis using that f64_error by blast
qed

text \<open>A computed distance within \<open>e\<close> bounds the exact one by twice that.\<close>

lemma abs_diff_bound:
  assumes "\<not> Fin e < \<bar>x - y\<bar>" "2 powi - 1000 \<le> e" "fval x = Some p" "fval y = Some q"
  shows "\<bar>p - q\<bar> \<le> 2 * e"
proof -
  have "0 < (2 powi - 1000 :: rat)" by simp
  then have "0 \<le> e" using assms(2) by linarith
  then obtain v where v: "f64 (p - q) = Fin v" "\<bar>v\<bar> \<le> e"
    using assms(1) minus_fval [OF assms(3,4)] f64_no_NaN [of "p - q"] by (cases "f64 (p - q)") auto
  have "(2 powi - 1075 :: rat) \<le> 2 powi - 1000" by (rule power_int_increasing) simp_all
  then have t: "(2 powi - 1075 :: rat) \<le> e" using assms(2) by linarith
  have "\<bar>v - (p - q)\<bar> \<le> max (\<bar>p - q\<bar> / 2 ^ 53) (2 powi -1075)" by (rule f64_error [OF v(1)])
  also have "\<dots> \<le> max (\<bar>p - q\<bar> / 2) e" using t by (intro max.mono) (simp_all add: field_simps)
  finally have "\<bar>v - (p - q)\<bar> \<le> \<bar>p - q\<bar> / 2 \<or> \<bar>v - (p - q)\<bar> \<le> e" by linarith
  moreover have t': "\<bar>p - q\<bar> - \<bar>v\<bar> \<le> \<bar>v - (p - q)\<bar>"
    using abs_triangle_ineq2 [of "p - q" v] by (simp only: abs_minus_commute)
  moreover have "D - V \<le> W \<Longrightarrow> V \<le> e \<Longrightarrow> W \<le> D / 2 \<or> W \<le> e \<Longrightarrow> D \<le> 2 * e" for D V W :: rat
    by (elim disjE) linarith+
  ultimately show ?thesis using v(2) by blast
qed

text \<open>A small positive decimal constant: its float is positive and at most a tenth larger.\<close>

lemma f64_small:
  assumes "0 < q" "2 powi - 900 \<le> q" "q \<le> 1"
  obtains v where "f64 q = Fin v" "q / 2 \<le> v" "v \<le> 11 / 10 * q"
proof -
  have "(1 :: rat) \<le> 2 powi 100" by simp
  then have "\<bar>q\<bar> \<le> 2 powi 100" using assms by linarith
  then obtain v where v: "f64 q = Fin v" "\<bar>v - q\<bar> \<le> max (\<bar>q\<bar> / 2 ^ 53) (2 powi -1075)"
    by (rule f64_near)
  have "(2 powi - 1075 :: rat) = 2 powi - 900 * 2 powi - 175"
    by (simp flip: power_int_add)
  also have "\<dots> \<le> q * (1 / 16)"
    using assms power_int_increasing [of "-175" "-4" "2 :: rat"] by (intro mult_mono) simp_all
  finally have "max (\<bar>q\<bar> / 2 ^ 53) (2 powi -1075) \<le> q / 16"
    using assms by simp
  with v(2) have "\<bar>v - q\<bar> \<le> q / 16" by (rule order_trans)
  then have "v - q \<le> q / 16" "- (q / 16) \<le> v - q" by linarith+
  with \<open>0 < q\<close> have "q / 2 \<le> v" "v \<le> 11 / 10 * q" by linarith+
  then show ?thesis using v(1) that by blast
qed

text \<open>Rounding is monotone: it does not cross a float.\<close>

lemma f64_Fin_round53: "f64 q = Fin v \<Longrightarrow> v = round53 q"
proof (cases "q = 0")
  case True
  assume "f64 q = Fin v"
  then show ?thesis using True by (simp add: round53_def rhe_def)
next
  case False
  then show "f64 q = Fin v \<Longrightarrow> ?thesis" by (rule f64_Fin_round [rotated])
qed

lemma f64_le_Fin:
  assumes "p \<le> q" "f64 q = Fin q" "\<bar>p\<bar> \<le> 2 powi 100"
  shows "\<exists>v. f64 p = Fin v \<and> v \<le> q"
proof -
  obtain v where v: "f64 p = Fin v" using assms(3) by (rule f64_bounded) simp_all
  show ?thesis using round53_mono [OF assms(1)] f64_Fin_round53 [OF v] f64_Fin_round53 [OF assms(2)] v by auto
qed

lemma f64_ge_Fin:
  assumes "q \<le> p" "f64 q = Fin q" "\<bar>p\<bar> \<le> 2 powi 100"
  shows "\<exists>v. f64 p = Fin v \<and> q \<le> v"
proof -
  obtain v where v: "f64 p = Fin v" using assms(3) by (rule f64_bounded) simp_all
  show ?thesis using round53_mono [OF assms(1)] f64_Fin_round53 [OF v] f64_Fin_round53 [OF assms(2)] v by auto
qed

section \<open>What is a double\<close>

text \<open>A rational that rounding leaves as it is; every rounded result is one.\<close>

lemma ulp_exp_mult:
  assumes "q = of_int m * 2 powi e" "\<bar>m\<bar> < 2 ^ 53" "-1074 \<le> e" "m \<noteq> 0"
  shows "ulp_exp q \<le> e"
proof -
  have abs: "\<bar>q\<bar> = of_int \<bar>m\<bar> * 2 powi e" using assms(1) by (simp add: abs_mult)
  have "(of_int \<bar>m\<bar> :: rat) < of_int (2 ^ 53)" using assms(2) by (simp only: of_int_less_iff)
  then have "\<bar>q\<bar> < 2 ^ 53 * 2 powi e" unfolding abs by (intro mult_strict_right_mono) auto
  then have "\<bar>q\<bar> < 2 powi (e + 53)" by (simp add: power_int_add mult.commute)
  moreover have "q \<noteq> 0" using assms(1,4) by simp
  ultimately show ?thesis using ilog_less [of q "e + 53"] assms(3) by (fastforce simp: ulp_exp_def)
qed

lemma f64_exact_below:
  assumes "q = of_int m * 2 powi e" "\<bar>m\<bar> < 2 ^ 53" "-1074 \<le> e" "\<bar>q\<bar> < 2 ^ 1024"
  shows "f64 q = Fin q"
proof (cases "m = 0")
  case False
  then show ?thesis using round53_exact [OF assms(1) ulp_exp_mult [OF assms(1-3) False]] assms(4) by (simp add: f64_def)
qed (simp add: assms(1))

lemma round53_round53: "round53 (round53 q) = round53 q"
proof (cases "round53 q = 0")
  case True
  then show ?thesis using rhe_of_int [of 0] by (simp add: round53_def)
next
  case False
  let ?u = "ulp_exp q" and ?m = "rhe (q / 2 powi ulp_exp q)"
  have v: "round53 q = of_int ?m * 2 powi ?u" by (simp add: round53_def Let_def)
  have "q \<noteq> 0" using False rhe_of_int [of 0] by (auto simp: round53_def)
  then have "\<bar>q\<bar> < 2 powi (ilog 2 \<bar>q\<bar> + 1)" using ilog_bounds [of 2 "\<bar>q\<bar>"] by simp
  also have "\<dots> \<le> 2 powi (?u + 53)" by (rule power_int_increasing) (simp_all add: ulp_exp_def)
  finally have a: "\<bar>q / 2 powi ?u\<bar> < 2 ^ 53" by (simp add: power_int_add abs_divide divide_less_eq mult.commute)
  have "x \<le> of_int (2 ^ 53) \<and> of_int (- (2 ^ 53)) \<le> x" if "\<bar>x\<bar> < 2 ^ 53" for x :: rat using that by (simp add: abs_less_iff)
  with a have b: "q / 2 powi ?u \<le> of_int (2 ^ 53)" "of_int (- (2 ^ 53)) \<le> q / 2 powi ?u" by blast+
  note m = rhe_le_of_int [OF b(1)] rhe_ge_of_int [OF b(2)]
  have m0: "?m \<noteq> 0" using v False by auto
  consider "\<bar>?m\<bar> < 2 ^ 53" | "?m = 2 ^ 53 \<or> ?m = - (2 ^ 53)" using m by linarith
  then show ?thesis
  proof cases
    case 1
    show ?thesis
      by (rule round53_exact [OF v ulp_exp_mult [OF v 1 _ m0]]) (simp add: ulp_exp_def)
  next
    case 2
    then have w: "round53 q = of_int (sgn ?m) * 2 powi (?u + 53)" using v by (auto simp: power_int_add)
    show ?thesis
      by (rule round53_exact [OF w ulp_exp_mult [OF w]]) (use 2 in \<open>auto simp: ulp_exp_def\<close>)
  qed
qed

lemma f64_idem: "f64 q = Fin v \<Longrightarrow> f64 v = Fin v"
  using f64_Fin_round53 [of q v] round53_round53 [of q] by (auto simp: f64_def Let_def split: if_splits)

fun float_ok :: "pyfloat \<Rightarrow> bool" where
  "float_ok (Fin q) = (f64 q = Fin q)"
| "float_ok _ = True"

lemma float_ok_f64 [simp]: "float_ok (f64 q)"
  using f64_idem by (cases "f64 q") auto

lemma f64_uminus_Fin: "f64 q = Fin q \<Longrightarrow> f64 (- q) = Fin (- q)"
  by (auto simp: f64_def Let_def round53_uminus split: if_splits)

lemma float_ok_consts [simp]: "float_ok (Fin 0)" "float_ok (Fin 1)"
  by simp_all

lemma float_ok_with_sign [simp]: "float_ok x \<Longrightarrow> float_ok (with_sign b x)"
  by (simp add: with_sign_def)

lemma float_ok_uminus [simp]: "float_ok x \<Longrightarrow> float_ok (- x)"
  by (cases x) (simp_all add: f64_uminus_Fin)

lemma float_ok_plus [simp]: "float_ok x \<Longrightarrow> float_ok y \<Longrightarrow> float_ok (x + y)"
  by (cases x; cases y; simp del: float_ok.simps(1))

lemma float_ok_minus [simp]: "float_ok x \<Longrightarrow> float_ok y \<Longrightarrow> float_ok (x - y)"
  by (simp add: minus_pyfloat_def)

lemma float_ok_times [simp]: "float_ok x \<Longrightarrow> float_ok y \<Longrightarrow> float_ok (x * y)"
  by (cases x; cases y; simp add: float_ok_uminus del: float_ok.simps(1))

lemma float_ok_fdiv: "float_ok x \<Longrightarrow> fdiv x y = Inr z \<Longrightarrow> float_ok z"
  by (cases x; cases y) (auto split: if_splits simp del: float_ok.simps(1))

end
