(* ===== verification/PyValue.thy ===== *)
theory PyValue
  imports PyFloat
begin

text \<open>
  The dynamic values the code passes around: what \<open>json.loads\<close> returns and what the handlers
  inspect with \<open>isinstance\<close>, \<open>.get\<close> and truth tests. A \<open>str\<close> is represented by its UTF-8
  bytes (lone surrogates by their three-byte form), so literals read as in the source and
  encoding is the identity where it succeeds.
\<close>

section \<open>Values\<close>

datatype pyval =
    PNone
  | PBool bool
  | PInt int
  | PFloat pyfloat
  | PStr string
  | PList "pyval list"
  | PDict "(string \<times> pyval) list"

type_synonym pydict = "(string, pyval) dict"

text \<open>\<open>bool(v)\<close>.\<close>

fun truthy :: "pyval \<Rightarrow> bool" where
  "truthy PNone = False"
| "truthy (PBool b) = b"
| "truthy (PInt i) = (i \<noteq> 0)"
| "truthy (PFloat f) = (f \<noteq> Fin 0 \<and> f \<noteq> NZero)"
| "truthy (PStr s) = (s \<noteq> [])"
| "truthy (PList vs) = (vs \<noteq> [])"
| "truthy (PDict d) = (d \<noteq> [])"

text \<open>\<open>isinstance(v, str)\<close>, \<open>isinstance(v, dict)\<close>, \<open>type(v) is int\<close>, and hashability.\<close>

fun is_str :: "pyval \<Rightarrow> bool" where
  "is_str (PStr _) = True"
| "is_str _ = False"

fun is_dict :: "pyval \<Rightarrow> bool" where
  "is_dict (PDict _) = True"
| "is_dict _ = False"

fun is_int :: "pyval \<Rightarrow> bool" where
  "is_int (PInt _) = True"
| "is_int _ = False"

fun hashable :: "pyval \<Rightarrow> bool" where
  "hashable (PList _) = False"
| "hashable (PDict _) = False"
| "hashable _ = True"

text \<open>\<open>not isinstance(v, bool) and isinstance(v, (int, float))\<close>.\<close>

fun is_number :: "pyval \<Rightarrow> bool" where
  "is_number (PInt _) = True"
| "is_number (PFloat _) = True"
| "is_number _ = False"

text \<open>
  A number for an exact comparison (Python compares \<open>int\<close> with \<open>float\<close> exactly), and
  \<open>float(v)\<close>, which rounds and may overflow.
\<close>

fun exact :: "pyval \<Rightarrow> pyfloat" where
  "exact (PInt i) = Fin (of_int i)"
| "exact (PFloat f) = f"
| "exact _ = NaN"

fun to_float :: "pyval \<Rightarrow> pyfloat res" where
  "to_float (PInt i) = (if isfinite (f64 (of_int i)) then Inr (f64 (of_int i)) else Inl OverflowError)"
| "to_float (PFloat f) = Inr f"
| "to_float _ = Inl TypeError"

text \<open>\<open>d.get(k, default)\<close> and \<open>d[k]\<close>.\<close>

definition get_or :: "pydict \<Rightarrow> string \<Rightarrow> pyval \<Rightarrow> pyval" where
  "get_or d k v = (case dget d k of None \<Rightarrow> v | Some w \<Rightarrow> w)"

definition getitem :: "pydict \<Rightarrow> string \<Rightarrow> pyval res" where
  "getitem d k = (case dget d k of None \<Rightarrow> Inl KeyError | Some v \<Rightarrow> Inr v)"

text \<open>\<open>v[k]\<close> and \<open>v.get(k, default)\<close> on a value of any type, with a string key.\<close>

fun subscript :: "pyval \<Rightarrow> string \<Rightarrow> pyval res" where
  "subscript (PDict d) k = getitem d k"
| "subscript _ k = Inl TypeError"

fun val_get :: "pyval \<Rightarrow> string \<Rightarrow> pyval \<Rightarrow> pyval res" where
  "val_get (PDict d) k v = Inr (get_or d k v)"
| "val_get _ k v = Inl AttributeError"

lemma get_or_Some [simp]: "dget d k = Some w \<Longrightarrow> get_or d k v = w"
  by (simp add: get_or_def)

lemma get_or_None [simp]: "dget d k = None \<Longrightarrow> get_or d k v = v"
  by (simp add: get_or_def)

lemma getitem_Inr_iff [res_simps]: "getitem d k = Inr v \<longleftrightarrow> dget d k = Some v"
  by (auto simp: getitem_def split: option.splits)

section \<open>Dictionaries with distinct keys at every level\<close>

fun val_ok :: "pyval \<Rightarrow> bool" where
  "val_ok (PList vs) = list_all val_ok vs"
| "val_ok (PDict d) = (distinct (map fst d) \<and> list_all (\<lambda>p. val_ok (snd p)) d)"
| "val_ok _ = True"

lemma val_ok_dget: "val_ok (PDict d) \<Longrightarrow> dget d k = Some v \<Longrightarrow> val_ok v"
  by (force simp: list_all_iff dest: map_of_SomeD)

section \<open>Text as UTF-8 bytes\<close>

abbreviation byte :: "char \<Rightarrow> nat" where
  "byte c \<equiv> of_char c"

definition is_cont :: "char \<Rightarrow> bool" where
  "is_cont c \<longleftrightarrow> 128 \<le> byte c \<and> byte c < 192"

text \<open>\<open>bytes.decode('utf-8')\<close> succeeds, \<open>str.encode('utf-8')\<close> succeeds: no overlong form, no surrogate.\<close>

fun valid_utf8 :: "string \<Rightarrow> bool" where
  "valid_utf8 [] = True"
| "valid_utf8 (a # s) =
     (let x = byte a in
      if x < 128 then valid_utf8 s
      else if 194 \<le> x \<and> x < 224 then
        (case s of b # s' \<Rightarrow> is_cont b \<and> valid_utf8 s' | _ \<Rightarrow> False)
      else if 224 \<le> x \<and> x < 240 then
        (case s of b # c # s' \<Rightarrow>
             is_cont b \<and> is_cont c \<and> (x = 224 \<longrightarrow> 160 \<le> byte b) \<and> (x = 237 \<longrightarrow> byte b < 160)
             \<and> valid_utf8 s'
         | _ \<Rightarrow> False)
      else if 240 \<le> x \<and> x < 245 then
        (case s of b # c # d # s' \<Rightarrow>
             is_cont b \<and> is_cont c \<and> is_cont d \<and> (x = 240 \<longrightarrow> 144 \<le> byte b)
             \<and> (x = 244 \<longrightarrow> byte b < 144) \<and> valid_utf8 s'
         | _ \<Rightarrow> False)
      else False)"

text \<open>\<open>len(s)\<close> counts code points: the bytes that are not continuation bytes.\<close>

definition py_len :: "string \<Rightarrow> nat" where
  "py_len s = length (filter (\<lambda>c. \<not> is_cont c) s)"

text \<open>\<open>v[0]\<close>: a string's first code point is its first byte and the continuation bytes after it.\<close>

fun item0 :: "pyval \<Rightarrow> pyval res" where
  "item0 (PList vs) = (case vs of [] \<Rightarrow> Inl IndexError | v # _ \<Rightarrow> Inr v)"
| "item0 (PStr s) = (case s of [] \<Rightarrow> Inl IndexError | c # t \<Rightarrow> Inr (PStr (c # takeWhile is_cont t)))"
| "item0 (PDict _) = Inl KeyError"
| "item0 _ = Inl TypeError"

lemma valid_utf8_append: "valid_utf8 s \<Longrightarrow> valid_utf8 t \<Longrightarrow> valid_utf8 (s @ t)"
proof (induction s rule: valid_utf8.induct)
  case (2 a s)
  then show ?case
    by (auto simp: Let_def split: if_splits list.splits)
qed simp

lemma valid_utf8_ascii: "list_all (\<lambda>c. byte c < 128) s \<Longrightarrow> valid_utf8 s"
  by (induction s) (auto simp: Let_def)

lemma py_len_le: "py_len s \<le> length s"
  by (simp add: py_len_def)

end
