(* ===== verification/JsonText.thy ===== *)
theory JsonText
  imports PyValue
begin

text \<open>
  Python's \<open>json.dumps(v, ensure_ascii=False)\<close> and \<open>json.loads(s)\<close> on the bytes of the
  text: the printer with its default separators and escapes, the shortest decimal that reads
  back as the same float (\<open>float.__repr__\<close>), and the parser of \<open>json.scanner\<close> and
  \<open>json.decoder\<close> with their rules for white space, escapes, surrogate pairs, numbers and
  repeated keys.
\<close>

section \<open>Printing\<close>

subsection \<open>Integers\<close>

definition digit :: "nat \<Rightarrow> char" where
  "digit n = char_of (48 + n)"

function show_nat :: "int \<Rightarrow> string" where
  "show_nat n = (if n < 10 then [digit (nat n)] else show_nat (n div 10) @ [digit (nat (n mod 10))])"
  by pat_completeness auto
termination
  by (relation "measure nat") auto

declare show_nat.simps [simp del]

definition show_int :: "int \<Rightarrow> string" where
  "show_int i = (if i < 0 then CHR ''-'' # show_nat (- i) else show_nat i)"

subsection \<open>Floats\<close>

text \<open>
  The shortest digit string that reads back as \<open>q\<close>: for \<open>n = 1, 2, \<dots>\<close> digits, the two
  \<open>n\<close>-digit decimals around \<open>q\<close>; the nearer one that rounds to \<open>q\<close> is taken. The
  search ends because \<open>q\<close> itself is a finite decimal; its length bounds the fuel.
\<close>

definition cand :: "rat \<Rightarrow> int \<Rightarrow> int \<Rightarrow> int option" where
  "cand q m s =
     (let good = (\<lambda>k. f64 (of_int k * 10 powi s) = Fin q);
          lo = m; hi = m + 1
      in if good lo \<and> good hi then
           (if q - of_int lo * 10 powi s \<le> of_int hi * 10 powi s - q then Some lo else Some hi)
         else if good lo then Some lo else if good hi then Some hi else None)"

fun shortest :: "nat \<Rightarrow> rat \<Rightarrow> int \<Rightarrow> int \<times> int" where
  "shortest 0 q s = (\<lfloor>q / 10 powi s\<rfloor>, s)"
| "shortest (Suc fuel) q s =
     (case cand q \<lfloor>q / 10 powi s\<rfloor> s of Some k \<Rightarrow> (k, s) | None \<Rightarrow> shortest fuel q (s - 1))"

text \<open>The digits and exponent of a positive double: \<open>q\<close> is read back from \<open>k * 10 powi s\<close>.\<close>

definition decimal :: "rat \<Rightarrow> int \<times> int" where
  "decimal q =
     (let e = ilog 10 q; d = snd (quotient_of q)
      in shortest (nat (e + int (flog 2 d))) q e)"

definition zeros :: "nat \<Rightarrow> string" where
  "zeros n = replicate n CHR ''0''"

text \<open>
  \<open>float_repr_style\<close> \<open>'r'\<close>: with the decimal point after \<open>p\<close> digits, fixed notation when
  \<open>-4 < p \<le> 16\<close>, else exponent notation with at least two exponent digits.
\<close>

definition show_exp :: "int \<Rightarrow> string" where
  "show_exp e =
     (let ds = show_nat \<bar>e\<bar>
      in (if e < 0 then ''-'' else ''+'') @ (if length ds < 2 then zeros 1 @ ds else ds))"

definition layout :: "string \<Rightarrow> int \<Rightarrow> string" where
  "layout ds p =
     (if p \<le> -4 \<or> 16 < p then
        take 1 ds @ (if length ds = 1 then [] else CHR ''.'' # drop 1 ds) @ CHR ''e'' # show_exp (p - 1)
      else if p \<le> 0 then ''0.'' @ zeros (nat (- p)) @ ds
      else if int (length ds) \<le> p then ds @ zeros (nat p - length ds) @ ''.0''
      else take (nat p) ds @ CHR ''.'' # drop (nat p) ds)"

definition show_pos :: "rat \<Rightarrow> string" where
  "show_pos q =
     (let (k, s) = decimal q; ds = show_nat k in layout ds (int (length ds) + s))"

fun show_float :: "pyfloat \<Rightarrow> string" where
  "show_float (Fin q) =
     (if q = 0 then ''0.0'' else if q < 0 then CHR ''-'' # show_pos (- q) else show_pos q)"
| "show_float NZero = ''-0.0''"
| "show_float NaN = ''NaN''"
| "show_float PInf = ''Infinity''"
| "show_float NInf = ''-Infinity''"

subsection \<open>Strings, lists, objects\<close>

definition hex_digit :: "nat \<Rightarrow> char" where
  "hex_digit n = (if n < 10 then digit n else char_of (87 + n))"

definition QUOTE :: char where
  "QUOTE = CHR 0x22"

definition BACKSLASH :: char where
  "BACKSLASH = CHR 0x5C"

definition escape :: "char \<Rightarrow> string" where
  "escape c =
     (if c = QUOTE then [BACKSLASH, QUOTE]
      else if c = BACKSLASH then [BACKSLASH, BACKSLASH]
      else if c = CHR 0x0A then [BACKSLASH, CHR ''n'']
      else if c = CHR 0x0D then [BACKSLASH, CHR ''r'']
      else if c = CHR 0x09 then [BACKSLASH, CHR ''t'']
      else if c = CHR 0x0C then [BACKSLASH, CHR ''f'']
      else if c = CHR 0x08 then [BACKSLASH, CHR ''b'']
      else if byte c < 32 then
        BACKSLASH # ''u00'' @ [hex_digit (byte c div 16), hex_digit (byte c mod 16)]
      else [c])"

definition show_str :: "string \<Rightarrow> string" where
  "show_str s = QUOTE # concat (map escape s) @ [QUOTE]"

fun join :: "string \<Rightarrow> string list \<Rightarrow> string" where
  "join sep [] = []"
| "join sep [x] = x"
| "join sep (x # y # xs) = x @ sep @ join sep (y # xs)"

fun dumps :: "pyval \<Rightarrow> string" where
  "dumps PNone = ''null''"
| "dumps (PBool b) = (if b then ''true'' else ''false'')"
| "dumps (PInt i) = show_int i"
| "dumps (PFloat f) = show_float f"
| "dumps (PStr s) = show_str s"
| "dumps (PList vs) = ''['' @ join '', '' (map dumps vs) @ '']''"
| "dumps (PDict kvs) = ''{'' @ join '', '' (map (\<lambda>(k, v). show_str k @ '': '' @ dumps v) kvs) @ ''}''"

text \<open>
  \<open>json.dumps(v, ensure_ascii=False, indent=2)\<close> at a nesting depth: every item on a line of its own,
  the separator without its space; empty lists and dictionaries stay as they are.
\<close>

definition line_break :: "nat \<Rightarrow> string" where
  "line_break k = CHR 0x0A # replicate (2 * k) CHR '' ''"

definition block :: "nat \<Rightarrow> string list \<Rightarrow> string" where
  "block k ts = line_break (k + 1) @ join (CHR '','' # line_break (k + 1)) ts @ line_break k"

fun dumps_indent :: "nat \<Rightarrow> pyval \<Rightarrow> string" where
  "dumps_indent k (PList vs) =
     ''['' @ (if vs = [] then [] else block k (map (dumps_indent (k + 1)) vs)) @ '']''"
| "dumps_indent k (PDict kvs) =
     ''{'' @ (if kvs = [] then [] else block k (map (\<lambda>(j, v). show_str j @ '': '' @ dumps_indent (k + 1) v) kvs)) @ ''}''"
| "dumps_indent k v = dumps v"

text \<open>\<open>allow_nan=False\<close> raises on a non-finite float; an \<open>int\<close> beyond 4300 digits cannot be printed.\<close>

definition MAX_DIGITS :: nat where
  "MAX_DIGITS = 4300"

fun all_finite :: "pyval \<Rightarrow> bool" where
  "all_finite (PFloat f) = isfinite f"
| "all_finite (PList vs) = list_all all_finite vs"
| "all_finite (PDict d) = list_all (\<lambda>p. all_finite (snd p)) d"
| "all_finite _ = True"

fun ints_fit :: "pyval \<Rightarrow> bool" where
  "ints_fit (PInt i) = (length (show_nat \<bar>i\<bar>) \<le> MAX_DIGITS)"
| "ints_fit (PList vs) = list_all ints_fit vs"
| "ints_fit (PDict d) = list_all (\<lambda>p. ints_fit (snd p)) d"
| "ints_fit _ = True"

definition json_dumps :: "bool \<Rightarrow> pyval \<Rightarrow> string res" where
  "json_dumps allow_nan v =
     (if (\<not> allow_nan \<and> \<not> all_finite v) \<or> \<not> ints_fit v then Inl ValueError else Inr (dumps v))"

definition json_dumps_indent :: "pyval \<Rightarrow> string res" where
  "json_dumps_indent v = (if \<not> ints_fit v then Inl ValueError else Inr (dumps_indent 0 v))"

section \<open>Reading\<close>

definition is_ws :: "char \<Rightarrow> bool" where
  "is_ws c \<longleftrightarrow> c \<in> {CHR '' '', CHR 0x09, CHR 0x0A, CHR 0x0D}"

abbreviation skip_ws :: "string \<Rightarrow> string" where
  "skip_ws \<equiv> dropWhile is_ws"

definition is_digit :: "char \<Rightarrow> bool" where
  "is_digit c \<longleftrightarrow> 48 \<le> byte c \<and> byte c < 58"

definition digit_val :: "char \<Rightarrow> int" where
  "digit_val c = int (byte c) - 48"

definition read_nat :: "string \<Rightarrow> int" where
  "read_nat ds = foldl (\<lambda>n c. 10 * n + digit_val c) 0 ds"

text \<open>The fraction \<open>(\.[0-9]+)?\<close> and the exponent \<open>([eE][-+]?[0-9]+)?\<close> of a number.\<close>

fun split_frac :: "string \<Rightarrow> string \<times> string" where
  "split_frac (c # cs) =
     (if c = CHR ''.'' \<and> takeWhile is_digit cs \<noteq> []
      then (takeWhile is_digit cs, dropWhile is_digit cs) else ([], c # cs))"
| "split_frac [] = ([], [])"

fun split_sign :: "string \<Rightarrow> int \<times> string" where
  "split_sign (c # cs) =
     (if c = CHR ''-'' then (-1, cs) else if c = CHR ''+'' then (1, cs) else (1, c # cs))"
| "split_sign [] = (1, [])"

fun split_exp :: "string \<Rightarrow> int option \<times> string" where
  "split_exp (c # cs) =
     (let (sg, r) = split_sign cs
      in if (c = CHR ''e'' \<or> c = CHR ''E'') \<and> takeWhile is_digit r \<noteq> []
         then (Some (sg * read_nat (takeWhile is_digit r)), dropWhile is_digit r)
         else (None, c # cs))"
| "split_exp [] = (None, [])"

text \<open>The integer part \<open>(0|[1-9][0-9]*)\<close>.\<close>

fun split_int :: "string \<Rightarrow> string \<times> string" where
  "split_int (c # cs) =
     (if c = CHR ''0'' then ([c], cs)
      else if is_digit c then (c # takeWhile is_digit cs, dropWhile is_digit cs)
      else ([], c # cs))"
| "split_int [] = ([], [])"

text \<open>\<open>None\<close>: no number starts here. \<open>int()\<close> refuses more than 4300 digits.\<close>

definition parse_number :: "string \<Rightarrow> (pyval \<times> string) res option" where
  "parse_number cs =
     (let (neg, cs1) = (case cs of c # r \<Rightarrow> if c = CHR ''-'' then (True, r) else (False, cs) | [] \<Rightarrow> (False, cs));
          (ip, r1) = split_int cs1;
          (fp, r2) = split_frac r1;
          (ex, r3) = split_exp r2;
          sgn = (if neg then -1 else 1)
      in if ip = [] then None
         else if fp = [] \<and> ex = None then
           Some (if length ip \<le> MAX_DIGITS then Inr (PInt (sgn * read_nat ip), r3) else Inl ValueError)
         else
           Some (Inr (PFloat (with_sign neg (f64 (of_int (sgn * read_nat (ip @ fp))
                   * 10 powi (case_option 0 id ex - int (length fp))))), r3)))"

subsection \<open>Strings\<close>

definition hex_val :: "char \<Rightarrow> nat option" where
  "hex_val c =
     (let x = byte c in
      if 48 \<le> x \<and> x < 58 then Some (x - 48)
      else if 97 \<le> x \<and> x < 103 then Some (x - 87)
      else if 65 \<le> x \<and> x < 71 then Some (x - 55) else None)"

text \<open>Four hexadecimal digits after \<open>\u\<close>.\<close>

fun read_u4 :: "string \<Rightarrow> (nat \<times> string) option" where
  "read_u4 (a # b # c # d # r) =
     (case (hex_val a, hex_val b, hex_val c, hex_val d) of
        (Some w, Some x, Some y, Some z) \<Rightarrow> Some (((w * 16 + x) * 16 + y) * 16 + z, r)
      | _ \<Rightarrow> None)"
| "read_u4 _ = None"

definition utf8_enc :: "nat \<Rightarrow> string" where
  "utf8_enc n =
     (if n < 128 then [char_of n]
      else if n < 2048 then [char_of (192 + n div 64), char_of (128 + n mod 64)]
      else if n < 65536 then
        [char_of (224 + n div 4096), char_of (128 + n div 64 mod 64), char_of (128 + n mod 64)]
      else
        [char_of (240 + n div 262144), char_of (128 + n div 4096 mod 64),
         char_of (128 + n div 64 mod 64), char_of (128 + n mod 64)])"

text \<open>A text given by its code points, for the literals of the source that are not ASCII.\<close>

definition utf8 :: "nat list \<Rightarrow> string" where
  "utf8 ns = concat (map utf8_enc ns)"

text \<open>\<open>\uD800\<close>--\<open>\uDBFF\<close> followed by \<open>\uDC00\<close>--\<open>\uDFFF\<close> is one code point.\<close>

definition read_unicode :: "string \<Rightarrow> (string \<times> string) option" where
  "read_unicode cs =
     (case read_u4 cs of None \<Rightarrow> None
      | Some (u, r) \<Rightarrow>
          if 0xD800 \<le> u \<and> u < 0xDC00 then
            (case r of
               a # b # r' \<Rightarrow>
                 (if a = BACKSLASH \<and> b = CHR ''u'' then
                    (case read_u4 r' of None \<Rightarrow> None
                     | Some (v, r'') \<Rightarrow>
                         if 0xDC00 \<le> v \<and> v < 0xE000
                         then Some (utf8_enc (0x10000 + (u - 0xD800) * 1024 + (v - 0xDC00)), r'')
                         else Some (utf8_enc u, r))
                  else Some (utf8_enc u, r))
             | _ \<Rightarrow> Some (utf8_enc u, r))
          else Some (utf8_enc u, r))"

definition simple_escape :: "char \<Rightarrow> char option" where
  "simple_escape c = map_of
     [(QUOTE, QUOTE), (BACKSLASH, BACKSLASH), (CHR ''/'', CHR ''/''), (CHR ''b'', CHR 0x08),
      (CHR ''f'', CHR 0x0C), (CHR ''n'', CHR 0x0A), (CHR ''r'', CHR 0x0D), (CHR ''t'', CHR 0x09)] c"

lemma read_u4_length: "read_u4 cs = Some (n, r) \<Longrightarrow> length r < length cs"
  by (cases cs rule: read_u4.cases) (auto split: option.splits)

lemma read_unicode_length: "read_unicode cs = Some (s, r) \<Longrightarrow> length r < length cs"
  by (force simp: read_unicode_def dest: read_u4_length split: option.splits if_splits list.splits)

text \<open>\<open>scanstring\<close> after the opening quote: the decoded text and what follows the closing quote.\<close>

function scan_str :: "string \<Rightarrow> (string \<times> string) option" where
  "scan_str [] = None"
| "scan_str (c # cs) =
     (if c = QUOTE then Some ([], cs)
      else if byte c < 32 then None
      else if c = BACKSLASH then
        (case cs of [] \<Rightarrow> None
         | e # r \<Rightarrow>
             if e = CHR ''u'' then
               (case read_unicode r of None \<Rightarrow> None
                | Some (u, r') \<Rightarrow> map_option (\<lambda>(s, t). (u @ s, t)) (scan_str r'))
             else
               (case simple_escape e of None \<Rightarrow> None
                | Some ch \<Rightarrow> map_option (\<lambda>(s, t). (ch # s, t)) (scan_str r)))
      else map_option (\<lambda>(s, t). (c # s, t)) (scan_str cs))"
  by pat_completeness auto
termination
  by (relation "measure length") (auto dest: read_unicode_length)

declare scan_str.simps [simp del]

subsection \<open>Values\<close>

text \<open>
  The fuel is spent on every call; \<open>loads\<close> gives two units per character and two more, which
  is always enough (\<open>loads_not_out_of_fuel\<close>): running out is the value \<open>Inl RuntimeError\<close>.
\<close>

definition literal :: "string \<Rightarrow> pyval \<Rightarrow> string \<Rightarrow> (pyval \<times> string) option" where
  "literal w v cs = (if take (length w) cs = w then Some (v, drop (length w) cs) else None)"

text \<open>Constants and numbers, in the order \<open>scan_once\<close> tries them.\<close>

definition parse_atom :: "string \<Rightarrow> (pyval \<times> string) res" where
  "parse_atom cs =
     (case literal ''null'' PNone cs of Some r \<Rightarrow> Inr r | None \<Rightarrow>
     (case literal ''true'' (PBool True) cs of Some r \<Rightarrow> Inr r | None \<Rightarrow>
     (case literal ''false'' (PBool False) cs of Some r \<Rightarrow> Inr r | None \<Rightarrow>
     (case parse_number cs of Some r \<Rightarrow> r | None \<Rightarrow>
     (case literal ''NaN'' (PFloat NaN) cs of Some r \<Rightarrow> Inr r | None \<Rightarrow>
     (case literal ''Infinity'' (PFloat PInf) cs of Some r \<Rightarrow> Inr r | None \<Rightarrow>
     (case literal ''-Infinity'' (PFloat NInf) cs of Some r \<Rightarrow> Inr r | None \<Rightarrow>
        Inl JSONDecodeError)))))))"

text \<open>One \<open>key: \<close> of an object, up to where its value starts.\<close>

definition parse_key :: "string \<Rightarrow> (string \<times> string) res" where
  "parse_key cs =
     (case cs of [] \<Rightarrow> Inl JSONDecodeError
      | c # r \<Rightarrow>
          if c \<noteq> QUOTE then Inl JSONDecodeError
          else (case scan_str r of None \<Rightarrow> Inl JSONDecodeError
                | Some (k, r') \<Rightarrow>
                    (case skip_ws r' of [] \<Rightarrow> Inl JSONDecodeError
                     | d # r'' \<Rightarrow> if d = CHR '':'' then Inr (k, skip_ws r'') else Inl JSONDecodeError)))"

fun parse_value :: "nat \<Rightarrow> string \<Rightarrow> (pyval \<times> string) res"
  and parse_elems :: "nat \<Rightarrow> string \<Rightarrow> pyval list \<Rightarrow> (pyval \<times> string) res"
  and parse_members :: "nat \<Rightarrow> string \<Rightarrow> pydict \<Rightarrow> (pyval \<times> string) res" where
  "parse_value 0 cs = Inl RuntimeError"
| "parse_value (Suc n) cs =
     (case cs of [] \<Rightarrow> Inl JSONDecodeError
      | c # r \<Rightarrow>
          if c = QUOTE then
            (case scan_str r of None \<Rightarrow> Inl JSONDecodeError | Some (s, t) \<Rightarrow> Inr (PStr s, t))
          else if c = CHR ''{'' then
            (case skip_ws r of
               d # r' \<Rightarrow> if d = CHR ''}'' then Inr (PDict [], r') else parse_members n (d # r') []
             | [] \<Rightarrow> Inl JSONDecodeError)
          else if c = CHR ''['' then
            (case skip_ws r of
               d # r' \<Rightarrow> if d = CHR '']'' then Inr (PList [], r') else parse_elems n (d # r') []
             | [] \<Rightarrow> Inl JSONDecodeError)
          else parse_atom cs)"
| "parse_elems 0 cs acc = Inl RuntimeError"
| "parse_elems (Suc n) cs acc =
     rbind (parse_value n cs) (\<lambda>(v, r).
       case skip_ws r of
         d # r' \<Rightarrow>
           (if d = CHR '']'' then Inr (PList (acc @ [v]), r')
            else if d = CHR '','' then parse_elems n (skip_ws r') (acc @ [v])
            else Inl JSONDecodeError)
       | [] \<Rightarrow> Inl JSONDecodeError)"
| "parse_members 0 cs acc = Inl RuntimeError"
| "parse_members (Suc n) cs acc =
     rbind (parse_key cs) (\<lambda>(k, r0).
     rbind (parse_value n r0) (\<lambda>(v, r).
       case skip_ws r of
         d # r' \<Rightarrow>
           (if d = CHR ''}'' then Inr (PDict (dset k v acc), r')
            else if d = CHR '','' then parse_members n (skip_ws r') (dset k v acc)
            else Inl JSONDecodeError)
       | [] \<Rightarrow> Inl JSONDecodeError))"

definition BOM :: string where
  "BOM = map char_of [239, 187, 191 :: nat]"

definition loads :: "string \<Rightarrow> pyval res" where
  "loads s =
     (if take 3 s = BOM then Inl JSONDecodeError
      else rbind (parse_value (2 * length s + 2) (skip_ws s)) (\<lambda>(v, r).
        if skip_ws r = [] then Inr v else Inl JSONDecodeError))"

text \<open>\<open>str.strip()\<close>: the code points Python counts as white space, by their UTF-8 bytes.\<close>

definition unicode_spaces :: "string list" where
  "unicode_spaces =
     map utf8_enc ([9, 10, 11, 12, 13, 28, 29, 30, 31, 32, 0x85, 0xA0, 0x1680]
       @ [0x2000 ..< 0x200B] @ [0x2028, 0x2029, 0x202F, 0x205F, 0x3000])"

text \<open>The first of the words that is a prefix is dropped, as often as there is one.\<close>

fun strip_by :: "nat \<Rightarrow> string list \<Rightarrow> string \<Rightarrow> string" where
  "strip_by 0 ws s = s"
| "strip_by (Suc n) ws s =
     (case find (\<lambda>w. take (length w) s = w) ws of
        Some w \<Rightarrow> strip_by n ws (drop (length w) s) | None \<Rightarrow> s)"

definition py_strip :: "string \<Rightarrow> string" where
  "py_strip s =
     (let t = strip_by (length s) unicode_spaces s
      in rev (strip_by (length t) (map rev unicode_spaces) (rev t)))"

end
