(* ===== verification/Protocol.thy ===== *)
theory Protocol
  imports JsonText
begin

text \<open>
  \<open>common/protocol.py\<close>: module identifiers, message types, error codes, and building,
  encoding, decoding and validating one message of the NDJSON protocol.
\<close>

section \<open>Constants\<close>

subsection \<open>ModuleId\<close>

definition BACKEND :: string where "BACKEND = ''backend''"
definition ALGORITHM :: string where "ALGORITHM = ''algorithm''"
definition MOTION :: string where "MOTION = ''motion''"
definition FRONTEND :: string where "FRONTEND = ''frontend''"

definition MODULE_ALL :: "string list" where
  "MODULE_ALL = [BACKEND, ALGORITHM, MOTION, FRONTEND]"

subsection \<open>MsgType\<close>

definition REGISTER :: string where "REGISTER = ''register''"
definition REGISTER_ACK :: string where "REGISTER_ACK = ''register_ack''"
definition HEARTBEAT :: string where "HEARTBEAT = ''heartbeat''"
definition HEARTBEAT_ACK :: string where "HEARTBEAT_ACK = ''heartbeat_ack''"
definition TASK_START :: string where "TASK_START = ''task_start''"
definition CAPTURE_CMD :: string where "CAPTURE_CMD = ''capture_cmd''"
definition DETECTION_RESULT :: string where "DETECTION_RESULT = ''detection_result''"
definition GRASP_COMMAND :: string where "GRASP_COMMAND = ''grasp_command''"
definition MOTION_STATUS :: string where "MOTION_STATUS = ''motion_status''"
definition TASK_RESULT :: string where "TASK_RESULT = ''task_result''"
definition ERROR_REPORT :: string where "ERROR_REPORT = ''error_report''"

subsection \<open>ErrorCode\<close>

definition SUCCESS :: int where "SUCCESS = 0"
definition INVALID_PARAM :: int where "INVALID_PARAM = 1000"
definition INVALID_MESSAGE :: int where "INVALID_MESSAGE = 1001"
definition REQUEST_TIMEOUT :: int where "REQUEST_TIMEOUT = 1002"
definition NOT_REGISTERED :: int where "NOT_REGISTERED = 1003"
definition TASK_NOT_FOUND :: int where "TASK_NOT_FOUND = 1004"
definition DETECTION_EMPTY :: int where "DETECTION_EMPTY = 2002"
definition MOTION_EXEC_FAILED :: int where "MOTION_EXEC_FAILED = 3001"
definition EMERGENCY_STOP :: int where "EMERGENCY_STOP = 3002"
definition ROBOT_BUSY :: int where "ROBOT_BUSY = 3003"
definition TARGET_OFFLINE :: int where "TARGET_OFFLINE = 4000"

text \<open>The constants evaluated: \<open>simp add: protocol_consts\<close> decides every comparison of two.\<close>

lemmas module_consts = BACKEND_def ALGORITHM_def MOTION_def FRONTEND_def

lemmas type_consts = REGISTER_def REGISTER_ACK_def HEARTBEAT_def HEARTBEAT_ACK_def TASK_START_def
  CAPTURE_CMD_def DETECTION_RESULT_def GRASP_COMMAND_def MOTION_STATUS_def TASK_RESULT_def
  ERROR_REPORT_def

lemmas code_consts = SUCCESS_def INVALID_PARAM_def INVALID_MESSAGE_def REQUEST_TIMEOUT_def
  NOT_REGISTERED_def TASK_NOT_FOUND_def DETECTION_EMPTY_def MOTION_EXEC_FAILED_def
  EMERGENCY_STOP_def ROBOT_BUSY_def TARGET_OFFLINE_def

lemmas protocol_consts = module_consts type_consts code_consts MODULE_ALL_def

definition REQUIRED_FIELDS :: "string list" where
  "REQUIRED_FIELDS =
     [''msg_type'', ''source'', ''target'', ''code'', ''msg'', ''data'', ''timestamp'']"

definition RECONNECT_INTERVALS_SEC :: "rat list" where
  "RECONNECT_INTERVALS_SEC = [1, 3, 5]"

definition HEARTBEAT_OFFLINE_SEC :: pyfloat where
  "HEARTBEAT_OFFLINE_SEC = Fin 10"

section \<open>Messages\<close>

text \<open>
  A message dictionary with its seven fields. The handlers read nothing else of a message, so
  they take this record; \<open>msg_dict\<close> is the dictionary \<open>build_message\<close> returns, \<open>msg_of\<close>
  reads the fields of a dictionary that passed validation.
\<close>

record message =
  msg_type :: string
  source :: string
  target :: string
  code :: int
  msg :: string
  data :: pydict
  timestamp :: int

definition msg_dict :: "message \<Rightarrow> pydict" where
  "msg_dict m =
     [(''msg_type'', PStr (msg_type m)), (''source'', PStr (source m)), (''target'', PStr (target m)),
      (''code'', PInt (code m)), (''msg'', PStr (msg m)), (''data'', PDict (data m)),
      (''timestamp'', PInt (timestamp m))]"

fun str_of :: "pyval option \<Rightarrow> string" where
  "str_of (Some (PStr s)) = s"
| "str_of _ = []"

fun int_of :: "pyval option \<Rightarrow> int" where
  "int_of (Some (PInt i)) = i"
| "int_of _ = 0"

fun dict_of :: "pyval option \<Rightarrow> pydict" where
  "dict_of (Some (PDict d)) = d"
| "dict_of _ = []"

definition msg_of :: "pydict \<Rightarrow> message" where
  "msg_of d =
     \<lparr>msg_type = str_of (dget d ''msg_type''), source = str_of (dget d ''source''),
      target = str_of (dget d ''target''), code = int_of (dget d ''code''),
      msg = str_of (dget d ''msg''), data = dict_of (dget d ''data''),
      timestamp = int_of (dget d ''timestamp'')\<rparr>"

text \<open>\<open>build_message\<close>; \<open>now\<close> is \<open>int(time.time() * 1000)\<close>, \<open>None\<close> the omitted \<open>data\<close>.\<close>

definition build_message ::
  "string \<Rightarrow> string \<Rightarrow> string \<Rightarrow> pydict option \<Rightarrow> int \<Rightarrow> string \<Rightarrow> int \<Rightarrow> message res" where
  "build_message mt src tgt d c txt now =
     (if mt = [] \<or> src = [] \<or> tgt = [] then Inl ValueError
      else Inr \<lparr>msg_type = mt, source = src, target = tgt, code = c, msg = txt,
                data = (case d of None \<Rightarrow> [] | Some x \<Rightarrow> x), timestamp = now\<rparr>)"

definition NEWLINE :: char where
  "NEWLINE = CHR 0x0A"

definition encode_message :: "message \<Rightarrow> string res" where
  "encode_message m =
     rbind (json_dumps True (PDict (msg_dict m))) (\<lambda>t.
       if valid_utf8 (t @ [NEWLINE]) then Inr (t @ [NEWLINE]) else Inl UnicodeEncodeError)"

text \<open>The checks of \<open>decode_message\<close> on the parsed value, in the order of the code.\<close>

definition validate_message :: "pyval \<Rightarrow> pydict option" where
  "validate_message v =
     (case v of
        PDict d \<Rightarrow>
          if list_ex (\<lambda>f. dget d f = None) REQUIRED_FIELDS then None
          else if list_ex (\<lambda>f. \<not> is_str (the (dget d f)) \<or> str_of (dget d f) = [])
                    [''msg_type'', ''source'', ''target'']
                  \<or> \<not> is_str (the (dget d ''msg'')) then None
          else if str_of (dget d ''source'') \<notin> set MODULE_ALL
                  \<or> str_of (dget d ''target'') \<notin> set MODULE_ALL then None
          else if \<not> is_int (the (dget d ''code''))
                  \<or> \<not> (0 \<le> int_of (dget d ''code'') \<and> int_of (dget d ''code'') \<le> 4999) then None
          else if \<not> is_int (the (dget d ''timestamp'')) \<or> int_of (dget d ''timestamp'') < 0
                  \<or> \<not> is_dict (the (dget d ''data'')) then None
          else Some d
      | _ \<Rightarrow> None)"

text \<open>
  \<open>decode_message\<close>: \<open>JSONDecodeError\<close> and \<open>UnicodeDecodeError\<close> are caught; the plain
  \<open>ValueError\<close> of an integer with more than 4300 digits is not.
\<close>

definition decode_message :: "string \<Rightarrow> pydict option res" where
  "decode_message line =
     (if \<not> valid_utf8 line then Inr None
      else case loads (py_strip line) of
             Inl e \<Rightarrow> if e = JSONDecodeError then Inr None else Inl e
           | Inr v \<Rightarrow> Inr (validate_message v))"

section \<open>What validation accepts\<close>

text \<open>A well-formed message, as the protocol document describes it (chapter 2).\<close>

definition wf_message :: "message \<Rightarrow> bool" where
  "wf_message m \<longleftrightarrow>
     msg_type m \<noteq> [] \<and> source m \<in> set MODULE_ALL \<and> target m \<in> set MODULE_ALL
     \<and> 0 \<le> code m \<and> code m \<le> 4999 \<and> 0 \<le> timestamp m"

text \<open>The dictionary carries the message's seven fields, and perhaps others.\<close>

definition carries :: "pydict \<Rightarrow> message \<Rightarrow> bool" where
  carries_fields: "carries d m \<longleftrightarrow>
     dget d ''msg_type'' = Some (PStr (msg_type m)) \<and> dget d ''source'' = Some (PStr (source m))
     \<and> dget d ''target'' = Some (PStr (target m)) \<and> dget d ''code'' = Some (PInt (code m))
     \<and> dget d ''msg'' = Some (PStr (msg m)) \<and> dget d ''data'' = Some (PDict (data m))
     \<and> dget d ''timestamp'' = Some (PInt (timestamp m))"

lemma carries_msg_of: "carries d m \<Longrightarrow> msg_of d = m"
  by (simp add: carries_fields msg_of_def)

lemma carries_msg_dict [simp]: "carries (msg_dict m) m"
  by (simp add: carries_fields msg_dict_def)

lemma msg_of_msg_dict [simp]: "msg_of (msg_dict m) = m"
  by (rule carries_msg_of) simp

lemma build_message_eq:
  "mt \<noteq> [] \<Longrightarrow> src \<noteq> [] \<Longrightarrow> tgt \<noteq> [] \<Longrightarrow>
   build_message mt src tgt d c txt now =
     Inr \<lparr>msg_type = mt, source = src, target = tgt, code = c, msg = txt,
          data = (case d of None \<Rightarrow> [] | Some x \<Rightarrow> x), timestamp = now\<rparr>"
  by (simp add: build_message_def)

lemma build_message_fields:
  assumes "build_message mt src tgt d c txt now = Inr m"
  shows "msg_type m = mt" "source m = src" "target m = tgt" "code m = c" "msg m = txt"
    "data m = (case d of None \<Rightarrow> [] | Some x \<Rightarrow> x)"
  using assms by (auto simp: build_message_def split: if_splits)

lemma module_nonempty: "m \<in> set MODULE_ALL \<Longrightarrow> m \<noteq> []"
  by (auto simp: protocol_consts)

lemma validate_message_carries:
  "carries d m \<Longrightarrow> validate_message (PDict d) = (if wf_message m then Some d else None)"
  using module_nonempty [of "source m"] module_nonempty [of "target m"]
  by (simp add: validate_message_def carries_fields wf_message_def REQUIRED_FIELDS_def)

lemma the_is_str: "x \<noteq> None \<Longrightarrow> is_str (the x) \<Longrightarrow> x = Some (PStr (str_of x))"
  by (cases x; cases "the x") auto

lemma the_is_int: "x \<noteq> None \<Longrightarrow> is_int (the x) \<Longrightarrow> x = Some (PInt (int_of x))"
  by (cases x; cases "the x") auto

lemma the_is_dict: "x \<noteq> None \<Longrightarrow> is_dict (the x) \<Longrightarrow> x = Some (PDict (dict_of x))"
  by (cases x; cases "the x") auto

lemma if_None_eq_Some: "(if b then None else x) = Some y \<longleftrightarrow> \<not> b \<and> x = Some y"
  by simp

lemma validate_message_Some:
  assumes "validate_message v = Some d"
  shows "v = PDict d \<and> carries d (msg_of d) \<and> wf_message (msg_of d)"
proof -
  obtain d' where v: "v = PDict d'"
    using assms by (cases v) (simp_all add: validate_message_def)
  note A = assms [unfolded v validate_message_def pyval.case if_None_eq_Some de_Morgan_disj not_not]
  have d: "d' = d" using A by blast
  have "\<not> list_ex (\<lambda>f. dget d f = None) REQUIRED_FIELDS" using A d by blast
  then have "dget d ''msg_type'' \<noteq> None" "dget d ''source'' \<noteq> None" "dget d ''target'' \<noteq> None"
      "dget d ''code'' \<noteq> None" "dget d ''msg'' \<noteq> None" "dget d ''data'' \<noteq> None"
      "dget d ''timestamp'' \<noteq> None"
    unfolding REQUIRED_FIELDS_def list_ex_Nil_iff list_ex_Cons_iff de_Morgan_disj by blast+
  moreover have "is_str (the (dget d ''msg_type''))" "is_str (the (dget d ''source''))"
      "is_str (the (dget d ''target''))" "is_str (the (dget d ''msg''))"
      "is_int (the (dget d ''code''))" "is_int (the (dget d ''timestamp''))"
      "is_dict (the (dget d ''data''))"
    using A unfolding d list_ex_Nil_iff list_ex_Cons_iff de_Morgan_disj not_not by blast+
  ultimately have c: "carries d (msg_of d)"
    unfolding carries_fields by (simp add: msg_of_def the_is_str the_is_int the_is_dict)
  have "validate_message (PDict d) = Some d" using assms v d by simp
  then have "wf_message (msg_of d)"
    unfolding validate_message_carries [OF c] by (simp split: if_splits)
  with c v d show ?thesis by simp
qed

end
