(* ===== verification/PyRepr.thy ===== *)
theory PyRepr
  imports JsonText
begin

text \<open>
  \<open>str(v)\<close> and \<open>repr(v)\<close> of the dynamic values, as \<open>"%s"\<close> prints them into error texts. Which characters
  above U+00FF are printable is not modelled: all of them count as printable, surrogates excepted.
\<close>

section \<open>Strings\<close>

definition APOSTROPHE :: char where
  "APOSTROPHE = CHR 0x27"

definition hex_escape :: "nat \<Rightarrow> string" where
  "hex_escape n = [BACKSLASH, CHR ''x'', hex_digit (n div 16), hex_digit (n mod 16)]"

definition repr_char :: "char \<Rightarrow> char \<Rightarrow> string" where
  "repr_char q c =
     (if c = q \<or> c = BACKSLASH then [BACKSLASH, c]
      else if c = CHR 0x0A then [BACKSLASH, CHR ''n'']
      else if c = CHR 0x0D then [BACKSLASH, CHR ''r'']
      else if c = CHR 0x09 then [BACKSLASH, CHR ''t'']
      else if byte c < 32 \<or> byte c = 127 then hex_escape (byte c)
      else [c])"

text \<open>
  The two-byte forms of U+0080 to U+00A0 and of the soft hyphen, and the three-byte forms of
  surrogates, are escaped; every other multi-byte form stays.
\<close>

fun repr_chars :: "char \<Rightarrow> string \<Rightarrow> string" where
  "repr_chars q [] = []"
| "repr_chars q [c] = repr_char q c"
| "repr_chars q (c # a # s) =
     (if byte c = 194 \<and> (byte a \<le> 160 \<or> byte a = 173) then hex_escape (byte a) @ repr_chars q s
      else if byte c = 237 \<and> 160 \<le> byte a then
        (case s of
           [] \<Rightarrow> [c, a]
         | b # t \<Rightarrow>
             (let n = (byte a - 128) * 64 + (byte b - 128)
              in [BACKSLASH, CHR ''u'', CHR ''d'', hex_digit (n div 256), hex_digit (n div 16 mod 16), hex_digit (n mod 16)]
                 @ repr_chars q t))
      else repr_char q c @ repr_chars q (a # s))"

text \<open>Apostrophes around the text, unless it has apostrophes and no quotation mark.\<close>

definition repr_str :: "string \<Rightarrow> string" where
  "repr_str s =
     (let q = (if APOSTROPHE \<in> set s \<and> QUOTE \<notin> set s then QUOTE else APOSTROPHE)
      in q # repr_chars q s @ [q])"

section \<open>Values\<close>

fun repr_float :: "pyfloat \<Rightarrow> string" where
  "repr_float NaN = ''nan''"
| "repr_float PInf = ''inf''"
| "repr_float NInf = ''-inf''"
| "repr_float f = show_float f"

fun py_repr :: "pyval \<Rightarrow> string" where
  "py_repr PNone = ''None''"
| "py_repr (PBool b) = (if b then ''True'' else ''False'')"
| "py_repr (PInt i) = show_int i"
| "py_repr (PFloat f) = repr_float f"
| "py_repr (PStr s) = repr_str s"
| "py_repr (PList vs) = ''['' @ join '', '' (map py_repr vs) @ '']''"
| "py_repr (PDict kvs) = ''{'' @ join '', '' (map (\<lambda>(k, v). repr_str k @ '': '' @ py_repr v) kvs) @ ''}''"

definition py_str :: "pyval \<Rightarrow> string" where
  "py_str v = (case v of PStr s \<Rightarrow> s | _ \<Rightarrow> py_repr v)"

end
