(* ===== verification/TcpServer.thy ===== *)
theory TcpServer
  imports Protocol PyRepr
begin

text \<open>
  \<open>backend/comm/tcp_server.py\<close>: sessions, registration, routing, heartbeats and sending. The
  session objects live in a store indexed by connection, so that \<open>is\<close> comparisons of two
  sessions are equality of connections. The business and disconnect callbacks are arguments, as
  \<open>set_handlers\<close> takes them; they act on the whole state, of which the server is a part.
\<close>

section \<open>State\<close>

record session =
  module_id :: string
  reply_target :: string
  last_heartbeat :: pyfloat
  writer_closing :: bool

text \<open>
  \<open>conns\<close> holds the session of every connection whose handler runs, \<open>clients\<close> is
  \<open>_client_tasks\<close>, \<open>sessions\<close> the registry, and \<open>sent\<close> the messages written so far with
  the connection they went to. Connections are numbered in the order they come, by \<open>next_conn\<close>.
\<close>

record server =
  conns :: "nat \<Rightarrow> session option"
  clients :: "nat list"
  sessions :: "(string, nat) dict"
  sent :: "(nat \<times> message) list"
  listening :: bool
  next_conn :: nat

definition MAX_LINE_BYTES :: nat where
  "MAX_LINE_BYTES = 1024 * 1024"

text \<open>The texts the server sends, with their meaning in English.\<close>

definition TEXT_BAD_FORMAT :: string where (* malformed message *)
  "TEXT_BAD_FORMAT = utf8 [0x62A5, 0x6587, 0x683C, 0x5F0F, 0x9519, 0x8BEF]"
definition TEXT_REGISTER_FIRST :: string where (* register first *)
  "TEXT_REGISTER_FIRST = utf8 [0x8BF7, 0x5148, 0x5B8C, 0x6210, 0x6CE8, 0x518C]"
definition TEXT_SOURCE_MISMATCH :: string where (* source is not the registered identity *)
  "TEXT_SOURCE_MISMATCH = utf8 [0x62A5, 0x6587] @ '' source '' @ utf8 [0x4E0E, 0x6CE8, 0x518C, 0x8EAB, 0x4EFD, 0x4E0D, 0x4E00, 0x81F4]"
definition TEXT_NOT_ALLOWED :: string where (* module may not send this type *)
  "TEXT_NOT_ALLOWED = utf8 [0x8BE5, 0x6A21, 0x5757, 0x65E0, 0x6743, 0x53D1, 0x9001, 0x6B64, 0x4E1A, 0x52A1, 0x7C7B, 0x578B]"
definition TEXT_VIA_GATEWAY :: string where (* requests must go through the gateway *)
  "TEXT_VIA_GATEWAY = utf8 [0x4E1A, 0x52A1, 0x8BF7, 0x6C42, 0x5FC5, 0x987B, 0x7ECF, 0x8FC7, 0x540E, 0x7AEF, 0x7F51, 0x5173]"
definition TEXT_BAD_MODULE :: string where (* illegal module identifier *)
  "TEXT_BAD_MODULE = utf8 [0x975E, 0x6CD5, 0x6A21, 0x5757, 0x6807, 0x8BC6] @ '' ''"
definition TEXT_REGISTER_MISMATCH :: string where (* registration identity or target mismatch *)
  "TEXT_REGISTER_MISMATCH = utf8 [0x6CE8, 0x518C, 0x8EAB, 0x4EFD, 0x6216, 0x76EE, 0x6807, 0x4E0D, 0x4E00, 0x81F4]"
definition TEXT_NO_CHANGE :: string where (* session may not change its identity *)
  "TEXT_NO_CHANGE = utf8 [0x4F1A, 0x8BDD, 0x4E0D, 0x5F97, 0x66F4, 0x6539, 0x6CE8, 0x518C, 0x8EAB, 0x4EFD]"
definition TEXT_DUPLICATE :: string where (* module already has an online connection *)
  "TEXT_DUPLICATE = utf8 [0x540C, 0x540D, 0x6A21, 0x5757, 0x5DF2, 0x6709, 0x5728, 0x7EBF, 0x8FDE, 0x63A5]"

definition new_session :: "pyfloat \<Rightarrow> session" where
  "new_session tick =
     \<lparr>module_id = [], reply_target = ''unknown'', last_heartbeat = tick, writer_closing = False\<rparr>"

text \<open>A state-changing computation that may raise keeps the changes made before the exception.\<close>

type_synonym ('s, 'a) sx = "'s \<Rightarrow> 's \<times> 'a res"

section \<open>Session objects\<close>

definition upd_session :: "nat \<Rightarrow> (session \<Rightarrow> session) \<Rightarrow> 'a server_scheme \<Rightarrow> 'a server_scheme" where
  "upd_session c f s = s\<lparr>conns := (conns s)(c := map_option f (conns s c))\<rparr>"

text \<open>\<open>writer.is_closing()\<close> and \<open>writer.close()\<close>.\<close>

definition is_closing :: "'a server_scheme \<Rightarrow> nat \<Rightarrow> bool" where
  "is_closing s c = (case conns s c of None \<Rightarrow> True | Some x \<Rightarrow> writer_closing x)"

definition close_writer :: "nat \<Rightarrow> 'a server_scheme \<Rightarrow> 'a server_scheme" where
  "close_writer c = upd_session c (\<lambda>x. x\<lparr>writer_closing := True\<rparr>)"

text \<open>\<open>writer.write\<close>: a closed transport drops the bytes.\<close>

definition write_to :: "nat \<Rightarrow> message \<Rightarrow> 'a server_scheme \<Rightarrow> 'a server_scheme" where
  "write_to c m s = (if is_closing s c then s else s\<lparr>sent := sent s @ [(c, m)]\<rparr>)"

section \<open>Registry\<close>

definition is_online :: "'a server_scheme \<Rightarrow> string \<Rightarrow> bool" where
  "is_online s m = (case dget (sessions s) m of None \<Rightarrow> False | Some c \<Rightarrow> \<not> is_closing s c)"

text \<open>\<open>_unregister\<close>: only the session that is registered leaves the registry, and then the callback runs.\<close>

definition unregister ::
  "(string \<Rightarrow> 'a server_scheme \<Rightarrow> 'a server_scheme) \<Rightarrow> nat \<Rightarrow> 'a server_scheme \<Rightarrow> 'a server_scheme" where
  "unregister on_disc c s =
     (case conns s c of None \<Rightarrow> s
      | Some x \<Rightarrow>
          if module_id x \<noteq> [] \<and> dget (sessions s) (module_id x) = Some c
          then on_disc (module_id x) (s\<lparr>sessions := ddel (module_id x) (sessions s)\<rparr>)
          else s)"

section \<open>Sending\<close>

text \<open>\<open>_reply\<close> up to the write; a failing \<open>drain\<close> is the connection's end, a step of its own.\<close>

definition reply :: "nat \<Rightarrow> message \<Rightarrow> ('a server_scheme, unit) sx" where
  "reply c m s = (case encode_message m of Inl e \<Rightarrow> (s, Inl e) | Inr _ \<Rightarrow> (write_to c m s, Inr ()))"

definition reply_error :: "int \<Rightarrow> nat \<Rightarrow> int \<Rightarrow> string \<Rightarrow> ('a server_scheme, unit) sx" where
  "reply_error now c cd detail s =
     (case conns s c of None \<Rightarrow> (s, Inr ())
      | Some x \<Rightarrow>
          (case build_message ERROR_REPORT BACKEND
                  (if module_id x \<noteq> [] then module_id x else reply_target x) None cd detail now of
             Inl e \<Rightarrow> (s, Inl e)
           | Inr m \<Rightarrow> reply c m s))"

text \<open>
  \<open>send_to\<close> in three parts, split at the \<open>await\<close>s of the send lock and of \<open>drain\<close>. The lookup: the
  target is offline, or the lock of its connection is not \<open>free\<close> and is waited for, or the message
  is written. With the lock: the write, which does not look whether the connection closed
  meanwhile. And the outcome of the drain.
\<close>

datatype sending = Offline | Queued nat message | Written nat

definition send_write :: "nat \<Rightarrow> message \<Rightarrow> ('a server_scheme, unit) sx" where
  "send_write c m s = (case encode_message m of Inl e \<Rightarrow> (s, Inl e) | Inr _ \<Rightarrow> (write_to c m s, Inr ()))"

definition send_start :: "bool \<Rightarrow> string \<Rightarrow> message \<Rightarrow> ('a server_scheme, sending) sx" where
  "send_start free md m s =
     (case dget (sessions s) md of None \<Rightarrow> (s, Inr Offline)
      | Some c \<Rightarrow>
          if is_closing s c then (s, Inr Offline)
          else if \<not> free then (s, Inr (Queued c m))
          else (case send_write c m s of (s1, Inl e) \<Rightarrow> (s1, Inl e) | (s1, Inr _) \<Rightarrow> (s1, Inr (Written c))))"

definition send_finish ::
  "(string \<Rightarrow> 'a server_scheme \<Rightarrow> 'a server_scheme) \<Rightarrow> bool \<Rightarrow> nat \<Rightarrow> 'a server_scheme \<Rightarrow> 'a server_scheme" where
  "send_finish on_disc drained c s = (if drained then s else unregister on_disc c (close_writer c s))"

section \<open>Registration and routing\<close>

definition REGISTRABLE :: "string list" where
  "REGISTRABLE = [FRONTEND, ALGORITHM, MOTION]"

text \<open>The end of \<open>_handle_register\<close>: a closed predecessor leaves, this session is registered and told so.\<close>

definition complete_register ::
  "(string \<Rightarrow> 'a server_scheme \<Rightarrow> 'a server_scheme) \<Rightarrow> int \<Rightarrow> pyfloat \<Rightarrow> nat \<Rightarrow> string
     \<Rightarrow> ('a server_scheme, unit) sx" where
  "complete_register on_disc now tick c md s =
     (let s1 = (case dget (sessions s) md of
                  Some old \<Rightarrow> if old \<noteq> c then unregister on_disc old s else s | None \<Rightarrow> s);
          s2 = upd_session c (\<lambda>x. x\<lparr>module_id := md, last_heartbeat := tick\<rparr>) s1;
          s3 = s2\<lparr>sessions := dset md c (sessions s2)\<rparr>
      in case build_message REGISTER_ACK BACKEND md None SUCCESS ''success'' now of
           Inl e \<Rightarrow> (s3, Inl e) | Inr ack \<Rightarrow> reply c ack s3)"

definition handle_register ::
  "(string \<Rightarrow> 'a server_scheme \<Rightarrow> 'a server_scheme) \<Rightarrow> int \<Rightarrow> pyfloat \<Rightarrow> nat \<Rightarrow> message
     \<Rightarrow> ('a server_scheme, unit) sx" where
  "handle_register on_disc now tick c m s =
     (let v = get_or (data m) ''module'' (PStr []); md = str_of (Some v);
          own = (case conns s c of None \<Rightarrow> [] | Some x \<Rightarrow> module_id x)
      in if \<not> is_str v \<or> md \<notin> set REGISTRABLE then
           reply_error now c INVALID_PARAM (TEXT_BAD_MODULE @ py_str v) s
         else if source m \<noteq> md \<or> target m \<noteq> BACKEND then
           reply_error now c INVALID_MESSAGE TEXT_REGISTER_MISMATCH s
         else if own \<noteq> [] \<and> own \<noteq> md then
           reply_error now c INVALID_PARAM TEXT_NO_CHANGE s
         else if (case dget (sessions s) md of None \<Rightarrow> False
                  | Some old \<Rightarrow> old \<noteq> c \<and> \<not> is_closing s old) then
           reply_error now c ROBOT_BUSY TEXT_DUPLICATE s
         else complete_register on_disc now tick c md s)"

text \<open>The business types and the one module that may send each.\<close>

definition ALLOWED_SOURCES :: "(string \<times> string) list" where
  "ALLOWED_SOURCES =
     [(TASK_START, FRONTEND), (DETECTION_RESULT, ALGORITHM), (MOTION_STATUS, MOTION)]"

text \<open>\<open>_route_message\<close>. \<open>on_biz\<close> is \<open>_on_business_message\<close>; without one it returns no reply.\<close>

definition route_message ::
  "(message \<Rightarrow> ('a server_scheme, message option) sx)
     \<Rightarrow> (string \<Rightarrow> 'a server_scheme \<Rightarrow> 'a server_scheme)
     \<Rightarrow> int \<Rightarrow> pyfloat \<Rightarrow> nat \<Rightarrow> message \<Rightarrow> ('a server_scheme, unit) sx" where
  "route_message on_biz on_disc now tick c m s0 =
     (case conns s0 c of
        None \<Rightarrow> (s0, Inr ())
      | Some x \<Rightarrow>
          let own = module_id x;
              s = (if own = [] then upd_session c (\<lambda>x. x\<lparr>reply_target := source m\<rparr>) s0 else s0)
          in if msg_type m = REGISTER then handle_register on_disc now tick c m s
             else if own = [] then reply_error now c NOT_REGISTERED TEXT_REGISTER_FIRST s
             else if source m \<noteq> own then reply_error now c INVALID_MESSAGE TEXT_SOURCE_MISMATCH s
             else if msg_type m = HEARTBEAT \<and> target m = BACKEND then
               (let s1 = upd_session c (\<lambda>x. x\<lparr>last_heartbeat := tick\<rparr>) s
                in case build_message HEARTBEAT_ACK BACKEND own None SUCCESS ''success'' now of
                     Inl e \<Rightarrow> (s1, Inl e) | Inr ack \<Rightarrow> reply c ack s1)
             else if msg_type m \<noteq> ERROR_REPORT \<and> map_of ALLOWED_SOURCES (msg_type m) \<noteq> Some own then
               reply_error now c INVALID_PARAM TEXT_NOT_ALLOWED s
             else if target m \<noteq> BACKEND then reply_error now c INVALID_PARAM TEXT_VIA_GATEWAY s
             else (case on_biz m s of
                     (s1, Inl e) \<Rightarrow> (s1, Inl e)
                   | (s1, Inr None) \<Rightarrow> (s1, Inr ())
                   | (s1, Inr (Some r)) \<Rightarrow> reply c r s1))"

section \<open>The connection's life\<close>

definition connect :: "pyfloat \<Rightarrow> nat \<Rightarrow> 'a server_scheme \<Rightarrow> 'a server_scheme" where
  "connect tick c s =
     s\<lparr>conns := (conns s)(c \<mapsto> new_session tick), clients := clients s @ [c], next_conn := Suc c\<rparr>"

text \<open>The \<open>finally\<close> of \<open>_handle_client\<close>: unregister, close, forget.\<close>

definition end_client ::
  "(string \<Rightarrow> 'a server_scheme \<Rightarrow> 'a server_scheme) \<Rightarrow> nat \<Rightarrow> 'a server_scheme \<Rightarrow> 'a server_scheme" where
  "end_client on_disc c s =
     (let s1 = unregister on_disc c s
      in s1\<lparr>conns := (conns s1)(c := None), clients := removeAll c (clients s1)\<rparr>)"

text \<open>
  One turn of the loop of \<open>_handle_client\<close>: \<open>readline\<close> returned \<open>line\<close>, or raised because
  the frame is over the limit. An empty line is the end of the stream; every exception ends the
  connection.
\<close>

definition process_line ::
  "(message \<Rightarrow> ('a server_scheme, message option) sx)
     \<Rightarrow> (string \<Rightarrow> 'a server_scheme \<Rightarrow> 'a server_scheme)
     \<Rightarrow> int \<Rightarrow> pyfloat \<Rightarrow> nat \<Rightarrow> string \<Rightarrow> ('a server_scheme, unit) sx" where
  "process_line on_biz on_disc now tick c line s =
     (case decode_message line of
        Inl e \<Rightarrow> (s, Inl e)
      | Inr None \<Rightarrow> reply_error now c INVALID_MESSAGE TEXT_BAD_FORMAT s
      | Inr (Some d) \<Rightarrow> route_message on_biz on_disc now tick c (msg_of d) s)"

definition line_ends :: "string \<Rightarrow> bool" where
  "line_ends line \<longleftrightarrow>
     line = [] \<or> MAX_LINE_BYTES < length (takeWhile (\<lambda>ch. ch \<noteq> NEWLINE) line)"

definition handle_line ::
  "(message \<Rightarrow> ('a server_scheme, message option) sx)
     \<Rightarrow> (string \<Rightarrow> 'a server_scheme \<Rightarrow> 'a server_scheme)
     \<Rightarrow> int \<Rightarrow> pyfloat \<Rightarrow> nat \<Rightarrow> string \<Rightarrow> 'a server_scheme \<Rightarrow> 'a server_scheme" where
  "handle_line on_biz on_disc now tick c line s =
     (if line_ends line then end_client on_disc c s
      else case process_line on_biz on_disc now tick c line s of
             (s1, Inr _) \<Rightarrow> s1
           | (s1, Inl _) \<Rightarrow> end_client on_disc c s1)"

text \<open>\<open>_heartbeat_patrol\<close>, one round over the keys the registry had at its start.\<close>

definition patrol_one ::
  "(string \<Rightarrow> 'a server_scheme \<Rightarrow> 'a server_scheme) \<Rightarrow> pyfloat \<Rightarrow> 'a server_scheme \<Rightarrow> string
     \<Rightarrow> 'a server_scheme" where
  "patrol_one on_disc now s m =
     (case dget (sessions s) m of None \<Rightarrow> s
      | Some c \<Rightarrow>
          (case conns s c of None \<Rightarrow> s
           | Some x \<Rightarrow>
               if HEARTBEAT_OFFLINE_SEC < now - last_heartbeat x
               then unregister on_disc c (close_writer c s) else s))"

definition heartbeat_patrol ::
  "(string \<Rightarrow> 'a server_scheme \<Rightarrow> 'a server_scheme) \<Rightarrow> pyfloat \<Rightarrow> 'a server_scheme \<Rightarrow> 'a server_scheme" where
  "heartbeat_patrol on_disc now s = foldl (patrol_one on_disc now) s (dkeys (sessions s))"

definition open_server :: "'a server_scheme \<Rightarrow> 'a server_scheme" where
  "open_server s = s\<lparr>listening := True\<rparr>"

text \<open>
  \<open>close\<close> in two stretches: the listener stops and its \<open>wait_closed\<close> is awaited; then every client
  task is cancelled and runs its \<open>finally\<close>.
\<close>

definition close_listener :: "'a server_scheme \<Rightarrow> 'a server_scheme" where
  "close_listener s = s\<lparr>listening := False\<rparr>"

definition close_clients ::
  "(string \<Rightarrow> 'a server_scheme \<Rightarrow> 'a server_scheme) \<Rightarrow> 'a server_scheme \<Rightarrow> 'a server_scheme" where
  "close_clients on_disc s = foldl (\<lambda>s c. end_client on_disc c s) s (clients s)"

section \<open>The registry invariant\<close>

text \<open>The identity a connection has registered, empty before it did.\<close>

definition ident :: "'a server_scheme \<Rightarrow> nat \<Rightarrow> string" where
  "ident s c = (case conns s c of None \<Rightarrow> [] | Some x \<Rightarrow> module_id x)"

text \<open>
  Registry and sessions agree: a registered connection is alive and carries the name it is
  registered under, names are registrable, and the live connections are the client tasks.
\<close>

definition server_inv :: "'a server_scheme \<Rightarrow> bool" where
  "server_inv s \<longleftrightarrow>
     dict_ok (sessions s)
     \<and> (\<forall>m c. dget (sessions s) m = Some c \<longrightarrow> conns s c \<noteq> None \<and> ident s c = m \<and> m \<in> set REGISTRABLE)
     \<and> distinct (clients s) \<and> (\<forall>c. conns s c \<noteq> None \<longleftrightarrow> c \<in> set (clients s))
     \<and> (\<forall>c. ident s c = [] \<or> ident s c \<in> set REGISTRABLE)
     \<and> (\<forall>c. conns s c \<noteq> None \<longrightarrow> c < next_conn s)"

lemma REGISTRABLE_nonempty: "m \<in> set REGISTRABLE \<Longrightarrow> m \<noteq> []"
  by (auto simp: REGISTRABLE_def module_consts)

lemma server_invD:
  assumes "server_inv s"
  shows "dict_ok (sessions s)"
    and "dget (sessions s) m = Some c \<Longrightarrow> conns s c \<noteq> None"
    and "dget (sessions s) m = Some c \<Longrightarrow> ident s c = m"
    and "dget (sessions s) m = Some c \<Longrightarrow> m \<in> set REGISTRABLE"
    and "distinct (clients s)"
    and "conns s c \<noteq> None \<longleftrightarrow> c \<in> set (clients s)"
    and "ident s c = [] \<or> ident s c \<in> set REGISTRABLE"
    and "conns s c \<noteq> None \<Longrightarrow> c < next_conn s"
  using assms unfolding server_inv_def by blast+

text \<open>One connection is registered under at most one name.\<close>

lemma registry_injective:
  "server_inv s \<Longrightarrow> dget (sessions s) m = Some c \<Longrightarrow> dget (sessions s) m' = Some c \<Longrightarrow> m = m'"
  using server_invD(3) by blast

named_theorems server_simps \<open>the server's fields after each of its operations\<close>

lemma upd_session_fields [server_simps]:
  "conns (upd_session c f s) = (conns s)(c := map_option f (conns s c))"
  "clients (upd_session c f s) = clients s"
  "sessions (upd_session c f s) = sessions s"
  "sent (upd_session c f s) = sent s"
  "next_conn (upd_session c f s) = next_conn s"
  by (simp_all add: upd_session_def)

lemma close_writer_fields [server_simps]:
  "clients (close_writer c s) = clients s"
  "sessions (close_writer c s) = sessions s"
  "sent (close_writer c s) = sent s"
  "next_conn (close_writer c s) = next_conn s"
  "conns (close_writer c s) d = None \<longleftrightarrow> conns s d = None"
  "ident (close_writer c s) d = ident s d"
  by (auto simp: close_writer_def server_simps ident_def split: option.splits)

lemma write_to_fields [server_simps]:
  "conns (write_to c m s) = conns s"
  "clients (write_to c m s) = clients s"
  "sessions (write_to c m s) = sessions s"
  "ident (write_to c m s) = ident s"
  "is_closing (write_to c m s) = is_closing s"
  "next_conn (write_to c m s) = next_conn s"
  by (auto simp: write_to_def ident_def is_closing_def fun_eq_iff)

lemma sent_write_to:
  "sent (write_to c m s) = sent s @ (if is_closing s c then [] else [(c, m)])"
  by (simp add: write_to_def)

lemma reply_fields [server_simps]:
  "conns (fst (reply c m s)) = conns s"
  "clients (fst (reply c m s)) = clients s"
  "sessions (fst (reply c m s)) = sessions s"
  "next_conn (fst (reply c m s)) = next_conn s"
  by (auto simp: reply_def server_simps split: sum.splits)

lemma reply_error_fields [server_simps]:
  "conns (fst (reply_error now c cd txt s)) = conns s"
  "clients (fst (reply_error now c cd txt s)) = clients s"
  "sessions (fst (reply_error now c cd txt s)) = sessions s"
  "next_conn (fst (reply_error now c cd txt s)) = next_conn s"
  by (auto simp: reply_error_def server_simps split: sum.splits option.splits)

text \<open>The invariant reads five fields.\<close>

lemma server_inv_cong_ident:
  assumes "clients s' = clients s" "sessions s' = sessions s" "ident s' = ident s"
    and "\<And>d. conns s' d = None \<longleftrightarrow> conns s d = None" "next_conn s' = next_conn s"
  shows "server_inv s' = server_inv s"
  unfolding server_inv_def assms by simp

lemma ident_cong: "conns s' = conns s \<Longrightarrow> ident s' = ident s"
  by (simp add: ident_def fun_eq_iff)

lemma server_inv_cong:
  assumes "conns s' = conns s" "clients s' = clients s" "sessions s' = sessions s" "next_conn s' = next_conn s"
  shows "server_inv s' = server_inv s"
  unfolding server_inv_def ident_def assms ..

lemma ident_upd_session:
  "(\<And>x. module_id (f x) = module_id x) \<Longrightarrow> ident (upd_session c f s) = ident s"
proof
  fix d
  assume "\<And>x. module_id (f x) = module_id x"
  then show "ident (upd_session c f s) d = ident s d"
    by (cases "conns s d") (auto simp: ident_def server_simps)
qed

lemma inv_upd_session:
  "(\<And>x. module_id (f x) = module_id x) \<Longrightarrow> server_inv (upd_session c f s) = server_inv s"
  by (rule server_inv_cong_ident) (simp_all add: server_simps ident_upd_session)

lemma inv_close_writer: "server_inv (close_writer c s) = server_inv s"
  by (simp add: close_writer_def inv_upd_session)

lemma inv_write_to: "server_inv (write_to c m s) = server_inv s"
  by (rule server_inv_cong) (simp_all add: server_simps)

lemma inv_reply: "server_inv (fst (reply c m s)) = server_inv s"
  by (rule server_inv_cong) (simp_all add: server_simps)

lemma inv_reply_error: "server_inv (fst (reply_error now c cd txt s)) = server_inv s"
  by (rule server_inv_cong) (simp_all add: server_simps)

text \<open>The three ways the bookkeeping itself changes: a client leaves, registers, or arrives.\<close>

lemma inv_drop_client:
  assumes I: "server_inv s" and g: "\<And>m. dget (sessions s) m \<noteq> Some c"
  shows "server_inv (s\<lparr>conns := (conns s)(c := None), clients := removeAll c (clients s)\<rparr>)"
    (is "server_inv ?t")
proof -
  have idt: "ident ?t d = (if d = c then [] else ident s d)" for d by (simp add: ident_def)
  have cn: "conns ?t d = (if d = c then None else conns s d)" for d by simp
  have "dget (sessions s) m = Some d \<Longrightarrow> d \<noteq> c" for m d using g by blast
  moreover have "distinct (removeAll c (clients s))" using server_invD(5) [OF I] by (rule distinct_removeAll)
  moreover have "set (removeAll c (clients s)) = set (clients s) - {c}" by simp
  ultimately show ?thesis
    using I unfolding server_inv_def idt cn by auto
qed

lemma inv_add_registration:
  assumes I: "server_inv s" and c: "conns s c = Some x" and m: "md \<in> set REGISTRABLE"
    and other: "\<And>m'. dget (sessions s) m' = Some c \<Longrightarrow> m' = md"
  shows "server_inv (s\<lparr>conns := (conns s)(c \<mapsto> x\<lparr>module_id := md, last_heartbeat := tick\<rparr>),
                      sessions := dset md c (sessions s)\<rparr>)"
    (is "server_inv ?t")
proof -
  have idt: "ident ?t d = (if d = c then md else ident s d)" for d by (simp add: ident_def)
  have cn: "conns ?t d = None \<longleftrightarrow> conns s d = None" for d using c by simp
  have dg: "dget (sessions ?t) m' = (if m' = md then Some c else dget (sessions s) m')" for m'
    by (simp add: dict_simps)
  have "dict_ok (sessions ?t)" using server_invD(1) [OF I] by simp
  moreover have "clients ?t = clients s" by simp
  ultimately show ?thesis
    using I m c other unfolding server_inv_def idt cn dg by (auto split: if_splits)
qed

lemma inv_connect:
  assumes I: "server_inv s" and c: "c = next_conn s"
  shows "server_inv (connect tick c s)"
proof -
  have c0: "conns s c = None" using server_invD(8) [OF I, of c] c by blast
  have idt: "ident (connect tick c s) d = ident s d" for d
    using c0 by (simp add: ident_def connect_def new_session_def)
  have cn: "conns (connect tick c s) d = None \<longleftrightarrow> d \<noteq> c \<and> conns s d = None" for d
    by (simp add: connect_def)
  have cl: "clients (connect tick c s) = clients s @ [c]" "sessions (connect tick c s) = sessions s"
      "next_conn (connect tick c s) = Suc (next_conn s)"
    using c by (simp_all add: connect_def)
  have "c \<notin> set (clients s)" using server_invD(6) [OF I, of c] c0 by simp
  then show ?thesis
    using I c unfolding server_inv_def idt cn cl by (auto simp: less_Suc_eq)
qed

text \<open>A guarded state change keeps what both of its branches keep.\<close>

lemma inv_if:
  "(b \<Longrightarrow> server_inv (fst x)) \<Longrightarrow> (\<not> b \<Longrightarrow> server_inv (fst y)) \<Longrightarrow>
   server_inv (fst (if b then x else y))"
  by simp

lemma inv_close_listener: "server_inv (close_listener s) = server_inv s"
  by (rule server_inv_cong) (simp_all add: close_listener_def)

lemmas server_inv_simps = inv_close_listener inv_upd_session inv_close_writer inv_write_to inv_reply inv_reply_error

text \<open>What a line can write: at most one acknowledgement or error, back to its own connection.\<close>

definition ANSWERS :: "string set" where
  "ANSWERS = {REGISTER_ACK, HEARTBEAT_ACK, ERROR_REPORT}"

definition answers :: "nat \<Rightarrow> 'a server_scheme \<Rightarrow> 'a server_scheme \<Rightarrow> bool" where
  "answers c s s' \<longleftrightarrow>
     sent s' = sent s \<or> (\<exists>m. msg_type m \<in> ANSWERS \<and> sent s' = sent s @ [(c, m)])"

text \<open>
  What a line cannot change: other sessions, an identity once registered, and the registration
  of another connection that is still open.
\<close>

definition undisturbed :: "nat \<Rightarrow> 'a server_scheme \<Rightarrow> 'a server_scheme \<Rightarrow> bool" where
  "undisturbed c s s' \<longleftrightarrow>
     (\<forall>d. d \<noteq> c \<longrightarrow> conns s' d = conns s d)
     \<and> (ident s c \<noteq> [] \<longrightarrow> conns s' c \<noteq> None \<longrightarrow> ident s' c = ident s c)
     \<and> (\<forall>m d. d \<noteq> c \<longrightarrow> dget (sessions s) m = Some d \<longrightarrow> \<not> is_closing s d \<longrightarrow>
              dget (sessions s') m = Some d)"

text \<open>A send reaches only the connection registered under its name, and only while it is open.\<close>

lemma send_write_cases:
  obtains (unencodable) e where "send_write c m s = (s, Inl e)" "encode_message m = Inl e"
  | (written) "send_write c m s = (write_to c m s, Inr ())"
  using that by (cases "encode_message m") (simp_all add: send_write_def)

lemma send_write_fields [server_simps]:
  "conns (fst (send_write c m s)) = conns s" "clients (fst (send_write c m s)) = clients s"
  "sessions (fst (send_write c m s)) = sessions s" "next_conn (fst (send_write c m s)) = next_conn s"
  by (simp_all add: send_write_def server_simps split: sum.split)

lemma send_start_fields [server_simps]:
  "conns (fst (send_start free md m s)) = conns s" "clients (fst (send_start free md m s)) = clients s"
  "sessions (fst (send_start free md m s)) = sessions s" "next_conn (fst (send_start free md m s)) = next_conn s"
  by (simp_all add: send_start_def send_write_def server_simps split: option.split sum.split)

lemma send_start_cases:
  obtains (offline) "send_start free md m s = (s, Inr Offline)" "\<not> is_online s md"
  | (unencodable) e where "send_start free md m s = (s, Inl e)" "encode_message m = Inl e"
  | (queued) c where "send_start free md m s = (s, Inr (Queued c m))" "dget (sessions s) md = Some c" "\<not> free"
  | (written) c where "send_start free md m s = (write_to c m s, Inr (Written c))" "dget (sessions s) md = Some c"
      "\<not> is_closing s c" "free"
proof (cases "dget (sessions s) md")
  case None
  then show ?thesis using offline by (simp add: send_start_def is_online_def)
next
  case (Some c)
  then show ?thesis
    using offline unencodable queued written
    by (cases "is_closing s c"; cases free; cases "encode_message m") (auto simp: send_start_def send_write_def is_online_def)
qed

text \<open>The heartbeat of a connection is older than the limit.\<close>

definition expired :: "pyfloat \<Rightarrow> 'a server_scheme \<Rightarrow> nat \<Rightarrow> bool" where
  "expired now s c =
     (case conns s c of None \<Rightarrow> False | Some x \<Rightarrow> HEARTBEAT_OFFLINE_SEC < now - last_heartbeat x)"

lemma expired_close_writer: "expired now (close_writer d s) c = expired now s c"
  by (cases "conns s c") (auto simp: expired_def close_writer_def server_simps)

named_theorems more_simps \<open>what an operation of one component leaves of the components above it\<close>

lemma server_more [more_simps]:
  "server.more (upd_session c f s) = server.more s"
  "server.more (close_writer c s) = server.more s"
  "server.more (write_to c m s) = server.more s"
  "server.more (fst (reply c m s)) = server.more s"
  "server.more (fst (reply_error now c cd txt s)) = server.more s"
  "server.more (fst (send_start free md m s)) = server.more s"
  "server.more (fst (send_write c m s)) = server.more s"
  "server.more (close_listener s) = server.more s"
  by (simp_all add: close_listener_def upd_session_def close_writer_def write_to_def reply_def reply_error_def
      send_start_def send_write_def split: sum.split option.split)

text \<open>A turn of the loop is the processing of the line, or that and the end of the connection.\<close>

lemma handle_line_cases:
  obtains "handle_line on_biz on_disc now tick c line s = end_client on_disc c s"
  | "handle_line on_biz on_disc now tick c line s = fst (process_line on_biz on_disc now tick c line s)"
  | "handle_line on_biz on_disc now tick c line s =
       end_client on_disc c (fst (process_line on_biz on_disc now tick c line s))"
proof (cases "process_line on_biz on_disc now tick c line s")
  case (Pair s1 r)
  then show ?thesis using that by (cases r; cases "line_ends line") (auto simp: handle_line_def)
qed

section \<open>Behaviour under well-behaved callbacks\<close>

text \<open>
  What the server relies on: the callbacks change their own components of the state only. The
  gateway schedules its sends instead of writing, so its callbacks satisfy this.
\<close>

locale server_callbacks =
  fixes on_biz :: "message \<Rightarrow> ('a server_scheme, message option) sx"
    and on_disc :: "string \<Rightarrow> 'a server_scheme \<Rightarrow> 'a server_scheme"
  assumes biz_frame: "server.truncate (fst (on_biz m s)) = server.truncate s"
    and disc_frame: "server.truncate (on_disc md s) = server.truncate s"
    and biz_reply: "snd (on_biz m s) = Inr (Some r) \<Longrightarrow> msg_type r = ERROR_REPORT"
begin

lemma biz_fields [simp]:
  "conns (fst (on_biz m s)) = conns s" "clients (fst (on_biz m s)) = clients s"
  "sessions (fst (on_biz m s)) = sessions s" "sent (fst (on_biz m s)) = sent s"
  "next_conn (fst (on_biz m s)) = next_conn s"
  using biz_frame [of m s] by (auto simp: server.defs)

lemma disc_fields [simp]:
  "conns (on_disc md s) = conns s" "clients (on_disc md s) = clients s"
  "sessions (on_disc md s) = sessions s" "sent (on_disc md s) = sent s"
  "next_conn (on_disc md s) = next_conn s"
  using disc_frame [of md s] by (auto simp: server.defs)

lemma unregister_fields [simp]:
  "conns (unregister on_disc c s) = conns s"
  "clients (unregister on_disc c s) = clients s"
  "sent (unregister on_disc c s) = sent s"
  "next_conn (unregister on_disc c s) = next_conn s"
  "sessions (unregister on_disc c s) =
     (if ident s c \<noteq> [] \<and> dget (sessions s) (ident s c) = Some c
      then ddel (ident s c) (sessions s) else sessions s)"
  by (auto simp: unregister_def ident_def split: option.splits)

lemma ident_unregister [simp]: "ident (unregister on_disc c s) = ident s"
  by (rule ident_cong) simp

lemma unregister_gone:
  assumes I: "server_inv s"
  shows "dget (sessions (unregister on_disc c s)) m \<noteq> Some c"
proof (cases "dget (sessions s) m = Some c")
  case True
  then have "ident s c = m" "m \<noteq> []"
    using server_invD(3,4) [OF I True] REGISTRABLE_nonempty by simp_all
  then show ?thesis using True by (simp add: dict_simps)
next
  case False
  then show ?thesis by (simp add: dict_simps)
qed

lemma inv_unregister: 
  assumes I: "server_inv s"
  shows "server_inv (unregister on_disc c s)"
proof -
  have "dget (sessions (unregister on_disc c s)) m = Some d \<Longrightarrow> dget (sessions s) m = Some d" for m d
    by (simp add: dict_simps split: if_splits)
  moreover have "dict_ok (sessions (unregister on_disc c s))"
    using server_invD(1) [OF I] by simp
  ultimately show ?thesis
    using I unfolding server_inv_def ident_unregister unregister_fields(1,2,4) by blast
qed

lemma inv_end_client: "server_inv s \<Longrightarrow> server_inv (end_client on_disc c s)"
  unfolding end_client_def Let_def by (rule inv_drop_client [OF inv_unregister unregister_gone])

lemma inv_complete_register:
  assumes I: "server_inv s" and c: "conns s c = Some x" and m: "md \<in> set REGISTRABLE"
    and own: "module_id x = [] \<or> module_id x = md"
  shows "server_inv (fst (complete_register on_disc now tick c md s))"
proof -
  define s1 where "s1 = (case dget (sessions s) md of
     Some old \<Rightarrow> if old \<noteq> c then unregister on_disc old s else s | None \<Rightarrow> s)"
  have s1: "server_inv s1" "conns s1 c = Some x"
    using I c by (simp_all add: s1_def inv_unregister split: option.split)
  have other: "m' = md" if d: "dget (sessions s1) m' = Some c" for m'
    using server_invD(3,4) [OF s1(1) d] own s1(2) REGISTRABLE_nonempty [of m'] by (simp add: ident_def)
  have "server_inv (upd_session c (\<lambda>x. x\<lparr>module_id := md, last_heartbeat := tick\<rparr>) s1
     \<lparr>sessions := dset md c (sessions s1)\<rparr>)" (is "server_inv ?s3")
    using inv_add_registration [OF s1 m other] s1(2) by (simp add: upd_session_def)
  then show ?thesis
    by (simp add: complete_register_def s1_def [symmetric] Let_def server_simps server_inv_simps
        split: sum.split)
qed

lemma inv_handle_register:
  assumes I: "server_inv s" and c: "conns s c = Some x"
  shows "server_inv (fst (handle_register on_disc now tick c m s))"
  unfolding handle_register_def Let_def c option.case
  by (intro inv_if inv_complete_register [OF I c]; (simp only: server_inv_simps I)?; blast)

lemma inv_route_message:
  assumes I: "server_inv s"
  shows "server_inv (fst (route_message on_biz on_disc now tick c m s))"
proof (cases "conns s c")
  case None
  then show ?thesis using I by (simp add: route_message_def)
next
  case (Some x)
  define s' where "s' = (if module_id x = [] then upd_session c (\<lambda>x. x\<lparr>reply_target := source m\<rparr>) s else s)"
  have I': "server_inv s'" using I by (simp add: s'_def server_inv_simps)
  obtain x' where c': "conns s' c = Some x'" using Some by (cases "module_id x = []") (auto simp: s'_def server_simps)
  have hb: "server_inv (fst (case build_message HEARTBEAT_ACK BACKEND (module_id x) None SUCCESS ''success'' now of
      Inl e \<Rightarrow> (upd_session c (\<lambda>x. x\<lparr>last_heartbeat := tick\<rparr>) s', Inl e)
    | Inr ack \<Rightarrow> reply c ack (upd_session c (\<lambda>x. x\<lparr>last_heartbeat := tick\<rparr>) s')))"
    using I' by (simp add: server_inv_simps split: sum.split)
  have bz: "server_inv (fst (case on_biz m s' of
                     (s1, Inl e) \<Rightarrow> (s1, Inl e)
                   | (s1, Inr None) \<Rightarrow> (s1, Inr ())
                   | (s1, Inr (Some r)) \<Rightarrow> reply c r s1))"
  proof -
    have "server_inv (fst (on_biz m s'))"
      using I' server_inv_cong [OF biz_fields(1-3,5), of m s'] by simp
    then show ?thesis
      by (cases "on_biz m s'") (simp add: server_inv_simps split: sum.split option.split)
  qed
  show ?thesis
    unfolding route_message_def Some option.case Let_def s'_def [symmetric]
    by (intro inv_if hb bz inv_handle_register [OF I' c']; simp only: server_inv_simps I')
qed

lemma inv_process_line:
  "server_inv s \<Longrightarrow> server_inv (fst (process_line on_biz on_disc now tick c line s))"
  by (simp add: process_line_def server_inv_simps inv_route_message split: sum.split option.split)

lemma inv_handle_line:
  "server_inv s \<Longrightarrow> server_inv (handle_line on_biz on_disc now tick c line s)"
  by (cases rule: handle_line_cases [of on_biz on_disc now tick c line s]) (simp_all add: inv_end_client inv_process_line)

lemma inv_patrol_one: "server_inv s \<Longrightarrow> server_inv (patrol_one on_disc now s md)"
  by (simp add: patrol_one_def inv_unregister server_inv_simps split: option.split)

lemma inv_heartbeat_patrol: "server_inv s \<Longrightarrow> server_inv (heartbeat_patrol on_disc now s)"
proof -
  have "server_inv s \<Longrightarrow> server_inv (foldl (patrol_one on_disc now) s ks)" for ks s
    by (induction ks arbitrary: s) (simp_all add: inv_patrol_one)
  then show "server_inv s \<Longrightarrow> ?thesis" by (simp add: heartbeat_patrol_def)
qed

lemma inv_send_finish: "server_inv s \<Longrightarrow> server_inv (send_finish on_disc ok c s)"
  by (simp add: send_finish_def inv_unregister server_inv_simps)

lemma inv_close_clients: "server_inv s \<Longrightarrow> server_inv (close_clients on_disc s)"
proof -
  have "server_inv s \<Longrightarrow> server_inv (foldl (\<lambda>s c. end_client on_disc c s) s cs)" for cs s
    by (induction cs arbitrary: s) (simp_all add: inv_end_client)
  then show "server_inv s \<Longrightarrow> ?thesis" by (simp add: close_clients_def)
qed

lemma answers_same [simp]: "sent s' = sent s \<Longrightarrow> answers c s s'"
  by (simp add: answers_def)

lemma answers_write: "sent s1 = sent s \<Longrightarrow> msg_type m \<in> ANSWERS \<Longrightarrow> answers c s (write_to c m s1)"
  by (auto simp: answers_def sent_write_to)

lemma answers_reply: "sent s1 = sent s \<Longrightarrow> msg_type m \<in> ANSWERS \<Longrightarrow> answers c s (fst (reply c m s1))"
  by (simp add: reply_def answers_write split: sum.split)

lemma answers_built:
  "build_message mt src tgt d cd txt now = Inr m \<Longrightarrow> mt \<in> ANSWERS \<Longrightarrow> sent s1 = sent s \<Longrightarrow>
   answers c s (fst (reply c m s1))"
  by (rule answers_reply) (auto dest: build_message_fields)

lemma ANSWERS_types [simp]:
  "REGISTER_ACK \<in> ANSWERS" "HEARTBEAT_ACK \<in> ANSWERS" "ERROR_REPORT \<in> ANSWERS"
  by (simp_all add: ANSWERS_def)

lemma answers_reply_error: "sent s1 = sent s \<Longrightarrow> answers c s (fst (reply_error now c cd txt s1))"
  by (simp add: reply_error_def answers_built split: sum.split option.split)

lemma answers_if:
  "(b \<Longrightarrow> answers c s (fst x)) \<Longrightarrow> (\<not> b \<Longrightarrow> answers c s (fst y)) \<Longrightarrow>
   answers c s (fst (if b then x else y))"
  by simp

lemma sent_complete_register:
  "sent s1 = sent s \<Longrightarrow> answers c s (fst (complete_register on_disc now tick c md s1))"
  by (simp add: complete_register_def Let_def server_simps answers_built split: sum.split option.split)

lemma answers_handle_register:
  "sent s1 = sent s \<Longrightarrow> answers c s (fst (handle_register on_disc now tick c m s1))"
  unfolding handle_register_def Let_def
  by (intro answers_if answers_reply_error sent_complete_register)

lemma answers_route:
  "answers c s (fst (route_message on_biz on_disc now tick c m s))"
proof (cases "conns s c")
  case None
  then show ?thesis by (simp add: route_message_def)
next
  case (Some x)
  define s' where "s' = (if module_id x = [] then upd_session c (\<lambda>x. x\<lparr>reply_target := source m\<rparr>) s else s)"
  have s': "sent s' = sent s" by (simp add: s'_def server_simps)
  have hb: "answers c s (fst (case build_message HEARTBEAT_ACK BACKEND (module_id x) None SUCCESS ''success'' now of
      Inl e \<Rightarrow> (upd_session c (\<lambda>x. x\<lparr>last_heartbeat := tick\<rparr>) s', Inl e)
    | Inr ack \<Rightarrow> reply c ack (upd_session c (\<lambda>x. x\<lparr>last_heartbeat := tick\<rparr>) s')))"
    using s' by (simp add: answers_built server_simps split: sum.split)
  have "sent (fst (on_biz m s')) = sent s" using s' by simp
  then have bz: "answers c s (fst (case on_biz m s' of
                     (s1, Inl e) \<Rightarrow> (s1, Inl e)
                   | (s1, Inr None) \<Rightarrow> (s1, Inr ())
                   | (s1, Inr (Some r)) \<Rightarrow> reply c r s1))"
    using biz_reply [of m s']
    by (cases "on_biz m s'") (simp add: answers_reply split: sum.split option.split)
  show ?thesis
    unfolding route_message_def Some option.case Let_def s'_def [symmetric]
    by (intro answers_if hb bz answers_handle_register answers_reply_error s')
qed

lemma sent_end_client [simp]: "sent (end_client on_disc c s) = sent s"
  by (simp add: end_client_def Let_def)

lemma answers_process_line: "answers c s (fst (process_line on_biz on_disc now tick c line s))"
  by (simp add: process_line_def answers_reply_error answers_route split: sum.split option.split)

lemma answers_handle_line: "answers c s (handle_line on_biz on_disc now tick c line s)"
  using answers_process_line [of c s now tick line]
  by (cases rule: handle_line_cases [of on_biz on_disc now tick c line s]) (simp_all add: answers_def)

lemma undisturbed_fields:
  assumes "\<And>d. d \<noteq> c \<Longrightarrow> conns s1 d = conns s d" "ident s1 c = ident s c" "sessions s1 = sessions s"
  shows "undisturbed c s s1"
  using assms by (simp add: undisturbed_def)

lemma undisturbed_cong:
  "conns s1 = conns s2 \<Longrightarrow> sessions s1 = sessions s2 \<Longrightarrow> undisturbed c s s1 = undisturbed c s s2"
  by (simp add: undisturbed_def ident_def)

lemma undisturbed_refl: "undisturbed c s s"
  by (simp add: undisturbed_def)

lemma undisturbed_reply: "undisturbed c s (fst (reply d m s1)) = undisturbed c s s1"
  by (rule undisturbed_cong) (simp_all add: server_simps)

lemma undisturbed_reply_error: "undisturbed c s (fst (reply_error now d cd txt s1)) = undisturbed c s s1"
  by (rule undisturbed_cong) (simp_all add: server_simps)

lemma undisturbed_if:
  "(b \<Longrightarrow> undisturbed c s (fst x)) \<Longrightarrow> (\<not> b \<Longrightarrow> undisturbed c s (fst y)) \<Longrightarrow>
   undisturbed c s (fst (if b then x else y))"
  by simp

lemma undisturbed_upd:
  "(\<And>x. module_id (f x) = module_id x) \<Longrightarrow> undisturbed c s s1 \<Longrightarrow> undisturbed c s (upd_session c f s1)"
  by (auto simp: undisturbed_def server_simps ident_upd_session)

lemma undisturbed_unregister:
  assumes u: "undisturbed c s s1" and d: "d = c \<or> is_closing s d"
  shows "undisturbed c s (unregister on_disc d s1)"
proof -
  have "dget (sessions (unregister on_disc d s1)) m = Some d'"
    if "d' \<noteq> c" "dget (sessions s) m = Some d'" "\<not> is_closing s d'" for m d'
  proof -
    have "dget (sessions s1) m = Some d'" "d' \<noteq> d" using u d that by (auto simp: undisturbed_def)
    then show ?thesis by (auto simp: dict_simps)
  qed
  then show ?thesis
    using u unfolding undisturbed_def ident_unregister unregister_fields(1-3) by blast
qed

lemma undisturbed_end_client:
  assumes "undisturbed c s s1"
  shows "undisturbed c s (end_client on_disc c s1)"
proof -
  have "undisturbed c s (unregister on_disc c s1)" using assms by (rule undisturbed_unregister) simp
  then show ?thesis by (simp add: undisturbed_def end_client_def Let_def del: unregister_fields)
qed

lemma undisturbed_complete_register:
  assumes u: "undisturbed c s s1" and x: "ident s c = [] \<or> ident s c = md"
    and old: "\<And>d. dget (sessions s1) md = Some d \<Longrightarrow> d = c \<or> is_closing s1 d"
  shows "undisturbed c s (fst (complete_register on_disc now tick c md s1))"
proof -
  have cl: "is_closing s1 d = is_closing s d" if "d \<noteq> c" for d
    using u that by (simp add: undisturbed_def is_closing_def)
  define s2 where "s2 = (case dget (sessions s1) md of
     Some old \<Rightarrow> if old \<noteq> c then unregister on_disc old s1 else s1 | None \<Rightarrow> s1)"
  have "dget (sessions s2) md = Some d \<Longrightarrow> dget (sessions s1) md = Some d" for d
    by (auto simp: s2_def dict_simps split: option.splits if_splits)
  moreover have "undisturbed c s s2"
    using u old cl by (auto simp: s2_def intro!: undisturbed_unregister split: option.split)
  ultimately have s2: "undisturbed c s s2"
      "\<And>d. dget (sessions s2) md = Some d \<Longrightarrow> d = c \<or> is_closing s d"
    using old cl by blast+
  have "undisturbed c s (upd_session c (\<lambda>x. x\<lparr>module_id := md, last_heartbeat := tick\<rparr>) s2
     \<lparr>sessions := dset md c (sessions s2)\<rparr>)" (is "undisturbed c s ?s3")
  proof -
    note u2 = s2(1) [unfolded undisturbed_def]
    have "conns ?s3 d = conns s d" if "d \<noteq> c" for d using that u2 by (simp add: server_simps)
    moreover have "ident ?s3 c = ident s c" if "ident s c \<noteq> []" "conns ?s3 c \<noteq> None"
      using that x by (auto simp: ident_def server_simps)
    moreover have "dget (sessions ?s3) m = Some d"
      if "d \<noteq> c" "dget (sessions s) m = Some d" "\<not> is_closing s d" for m d
    proof -
      have "dget (sessions s2) m = Some d" using u2 that by blast
      then show ?thesis using that s2(2) [of d] by (auto simp: dict_simps)
    qed
    ultimately show ?thesis unfolding undisturbed_def by blast
  qed
  then show ?thesis
    by (simp add: complete_register_def s2_def [symmetric] Let_def server_simps undisturbed_reply
        split: sum.split)
qed

lemma undisturbed_handle_register:
  assumes u: "undisturbed c s s1" and x: "conns s1 c = Some x" "module_id x = ident s c"
  shows "undisturbed c s (fst (handle_register on_disc now tick c m s1))"
  unfolding handle_register_def Let_def x option.case
  by (intro undisturbed_if undisturbed_complete_register [OF u];
      (simp only: undisturbed_reply_error u)?; force split: option.splits)

lemma undisturbed_route: "undisturbed c s (fst (route_message on_biz on_disc now tick c m s))"
proof (cases "conns s c")
  case None
  then show ?thesis by (simp add: route_message_def undisturbed_refl)
next
  case (Some x)
  define s' where "s' = (if module_id x = [] then upd_session c (\<lambda>x. x\<lparr>reply_target := source m\<rparr>) s else s)"
  have s': "undisturbed c s s'" by (simp add: s'_def undisturbed_refl undisturbed_upd)
  obtain x' where c': "conns s' c = Some x'" "module_id x' = ident s c"
    using Some by (cases "module_id x = []") (auto simp: s'_def server_simps ident_def)
  have hb: "undisturbed c s (fst (case build_message HEARTBEAT_ACK BACKEND (module_id x) None SUCCESS ''success'' now of
      Inl e \<Rightarrow> (upd_session c (\<lambda>x. x\<lparr>last_heartbeat := tick\<rparr>) s', Inl e)
    | Inr ack \<Rightarrow> reply c ack (upd_session c (\<lambda>x. x\<lparr>last_heartbeat := tick\<rparr>) s')))"
    using s' by (simp add: undisturbed_reply undisturbed_upd split: sum.split)
  have "undisturbed c s (fst (on_biz m s'))"
    using s' undisturbed_cong [OF biz_fields(1) biz_fields(3), of c s m s'] by simp
  then have bz: "undisturbed c s (fst (case on_biz m s' of
                     (s1, Inl e) \<Rightarrow> (s1, Inl e)
                   | (s1, Inr None) \<Rightarrow> (s1, Inr ())
                   | (s1, Inr (Some r)) \<Rightarrow> reply c r s1))"
    by (cases "on_biz m s'") (simp add: undisturbed_reply split: sum.split option.split)
  show ?thesis
    unfolding route_message_def Some option.case Let_def s'_def [symmetric]
    by (intro undisturbed_if hb bz undisturbed_handle_register [OF s' c'];
        simp only: undisturbed_reply_error s')
qed

lemma undisturbed_process_line:
  "undisturbed c s (fst (process_line on_biz on_disc now tick c line s))"
  by (simp add: process_line_def undisturbed_refl undisturbed_reply_error undisturbed_route
      split: sum.split option.split)

lemma undisturbed_handle_line:
  "undisturbed c s (handle_line on_biz on_disc now tick c line s)"
  using undisturbed_process_line [of c s now tick line]
  by (cases rule: handle_line_cases [of on_biz on_disc now tick c line s])
    (simp_all add: undisturbed_end_client undisturbed_refl)

lemma expired_unregister: "expired now (unregister on_disc d s) c = expired now s c"
  by (simp add: expired_def)

lemma expired_patrol_one: "expired now (patrol_one on_disc now s k) c = expired now s c"
  by (simp add: patrol_one_def expired_unregister expired_close_writer split: option.split)

lemma sessions_patrol_one:
  assumes I: "server_inv s"
  shows "dget (sessions (patrol_one on_disc now s k)) m =
    (case dget (sessions s) m of None \<Rightarrow> None
     | Some c \<Rightarrow> if m = k \<and> expired now s c then None else Some c)"
proof (cases "dget (sessions s) k")
  case None
  then show ?thesis by (auto simp: patrol_one_def split: option.split)
next
  case (Some c)
  then obtain x where x: "conns s c = Some x" "ident s c = k" "k \<noteq> []"
    using server_invD(2,3,4) [OF I Some] REGISTRABLE_nonempty by blast
  then show ?thesis
    using Some by (auto simp: patrol_one_def expired_def server_simps dict_simps split: option.split)
qed

text \<open>A round of the patrol leaves the session of a connection alone whose heartbeat is recent.\<close>

lemma conns_patrol:
  assumes "\<not> expired now s c"
  shows "conns (heartbeat_patrol on_disc now s) c = conns s c"
proof -
  have one: "conns (patrol_one on_disc now s k) c = conns s c" if "\<not> expired now s c" for s k
    using that by (auto simp: patrol_one_def expired_def close_writer_def server_simps upd_session_def split: option.split)
  have "conns (foldl (patrol_one on_disc now) s ks) c = conns s c" if "\<not> expired now s c" for ks s
    using that by (induction ks arbitrary: s) (simp_all add: one expired_patrol_one)
  then show ?thesis using assms by (simp add: heartbeat_patrol_def)
qed

text \<open>One round removes exactly the registrations whose heartbeat is too old.\<close>

lemma sessions_patrol:
  assumes I: "server_inv s"
  shows "dget (sessions (heartbeat_patrol on_disc now s)) m =
    (case dget (sessions s) m of None \<Rightarrow> None
     | Some c \<Rightarrow> if expired now s c then None else Some c)"
proof -
  have "dget (sessions (foldl (patrol_one on_disc now) s ks)) m =
      (case dget (sessions s) m of None \<Rightarrow> None
       | Some c \<Rightarrow> if m \<in> set ks \<and> expired now s c then None else Some c)" if "server_inv s" for ks s
    using that
    by (induction ks arbitrary: s)
      (auto simp: inv_patrol_one sessions_patrol_one expired_patrol_one split: option.splits)
  then show ?thesis
    using I by (auto simp: heartbeat_patrol_def dest: dget_Some_key split: option.split)
qed

lemma sent_frames [simp]:
  "sent (send_finish on_disc ok c s) = sent s"
  "sent (heartbeat_patrol on_disc now s) = sent s"
  "sent (close_clients on_disc s) = sent s"
  "sent (close_listener s) = sent s"
proof -
  show "sent (send_finish on_disc ok c s) = sent s" by (simp add: send_finish_def server_simps)
  have "sent (foldl (patrol_one on_disc now) s ks) = sent s" for ks s
    by (induction ks arbitrary: s) (simp_all add: patrol_one_def server_simps split: option.split)
  then show "sent (heartbeat_patrol on_disc now s) = sent s" by (simp add: heartbeat_patrol_def)
  have "sent (foldl (\<lambda>s c. end_client on_disc c s) s cs) = sent s" for cs s
    by (induction cs arbitrary: s) simp_all
  then show "sent (close_clients on_disc s) = sent s" by (simp add: close_clients_def)
  show "sent (close_listener s) = sent s" by (simp add: close_listener_def)
qed

end

section \<open>Authorisation\<close>

text \<open>The messages that reach the business handler.\<close>

definition authorised :: "'a server_scheme \<Rightarrow> nat \<Rightarrow> message \<Rightarrow> bool" where
  "authorised s c m \<longleftrightarrow>
     ident s c \<noteq> [] \<and> source m = ident s c \<and> target m = BACKEND
     \<and> (msg_type m, ident s c) \<in>
         {(TASK_START, FRONTEND), (DETECTION_RESULT, ALGORITHM), (MOTION_STATUS, MOTION)}
           \<union> {ERROR_REPORT} \<times> UNIV"

lemma allowed_source:
  "map_of ALLOWED_SOURCES mt = Some md \<longleftrightarrow>
     (mt, md) \<in> {(TASK_START, FRONTEND), (DETECTION_RESULT, ALGORITHM), (MOTION_STATUS, MOTION)}"
  by (auto simp: ALLOWED_SOURCES_def type_consts)

text \<open>A message that is not authorised is treated the same whatever the business handler does.\<close>

lemma route_unauthorised:
  assumes "\<not> authorised s c m"
  shows "route_message f on_disc now tick c m s = route_message g on_disc now tick c m s"
proof (cases "conns s c")
  case None
  then show ?thesis by (simp add: route_message_def)
next
  case (Some x)
  have "msg_type m = REGISTER \<or> module_id x = [] \<or> source m \<noteq> module_id x
      \<or> msg_type m = HEARTBEAT \<and> target m = BACKEND
      \<or> msg_type m \<noteq> ERROR_REPORT \<and> map_of ALLOWED_SOURCES (msg_type m) \<noteq> Some (module_id x)
      \<or> target m \<noteq> BACKEND"
    using assms Some unfolding authorised_def ident_def allowed_source by auto
  then show ?thesis
    unfolding route_message_def Some option.case Let_def by presburger
qed

lemma route_authorised:
  assumes "authorised s c m"
  shows "route_message on_biz on_disc now tick c m s =
    (case on_biz m s of
       (s1, Inl e) \<Rightarrow> (s1, Inl e)
     | (s1, Inr None) \<Rightarrow> (s1, Inr ())
     | (s1, Inr (Some r)) \<Rightarrow> reply c r s1)"
proof -
  obtain x where x: "conns s c = Some x" "module_id x \<noteq> []" "source m = module_id x" "target m = BACKEND"
    using assms by (cases "conns s c") (auto simp: authorised_def ident_def)
  have t: "msg_type m \<noteq> REGISTER" "msg_type m \<noteq> HEARTBEAT"
      "msg_type m = ERROR_REPORT \<or> map_of ALLOWED_SOURCES (msg_type m) = Some (module_id x)"
    using assms x(1) unfolding authorised_def ident_def allowed_source
    by (auto simp: type_consts)
  then show ?thesis
    unfolding route_message_def x option.case Let_def using x(2) by auto
qed

section \<open>Properties of the state above the server\<close>

text \<open>
  A property of the components above the server that both callbacks keep is kept by everything
  the server does.
\<close>

locale above_server =
  fixes P :: "'a server_scheme \<Rightarrow> bool"
    and on_biz :: "message \<Rightarrow> ('a server_scheme, message option) sx"
    and on_disc :: "string \<Rightarrow> 'a server_scheme \<Rightarrow> 'a server_scheme"
  assumes above: "server.more s' = server.more s \<Longrightarrow> P s' = P s"
    and above_biz: "P s \<Longrightarrow> P (fst (on_biz m s))"
    and above_disc: "P s \<Longrightarrow> P (on_disc md s)"
begin

lemma above_fields:
  "P (upd_session c f s) = P s" "P (close_writer c s) = P s" "P (write_to c m s) = P s"
  "P (fst (reply c m s)) = P s" "P (fst (reply_error now c cd txt s)) = P s"
  "P (fst (send_start free md m s)) = P s" "P (s\<lparr>sessions := ss\<rparr>) = P s" "P (s\<lparr>conns := cs\<rparr>) = P s"
  "P (s\<lparr>conns := cs, clients := cl\<rparr>) = P s" "P (close_listener s) = P s"
  "P (s\<lparr>conns := cs, clients := cl, next_conn := n\<rparr>) = P s" "P (fst (send_write c m s)) = P s"
  by (rule above; simp add: more_simps)+

lemma above_unregister: "P s \<Longrightarrow> P (unregister on_disc c s)"
  by (simp add: unregister_def above_disc above_fields split: option.split)

lemma above_send_finish: "P s \<Longrightarrow> P (send_finish on_disc ok c s)"
  by (simp add: send_finish_def above_unregister above_fields)

lemma above_connect: "P (connect tick c s) = P s"
  by (simp add: connect_def above_fields)

lemma above_end_client: "P s \<Longrightarrow> P (end_client on_disc c s)"
  by (simp add: end_client_def Let_def above_unregister above_fields)

lemma above_if: "(b \<Longrightarrow> P (fst x)) \<Longrightarrow> (\<not> b \<Longrightarrow> P (fst y)) \<Longrightarrow> P (fst (if b then x else y))"
  by simp

lemma above_complete_register: "P s \<Longrightarrow> P (fst (complete_register on_disc now tick c md s))"
  by (simp add: complete_register_def Let_def above_fields above_unregister split: sum.split option.split)

lemma above_handle_register: "P s \<Longrightarrow> P (fst (handle_register on_disc now tick c m s))"
  unfolding handle_register_def Let_def
  by (intro above_if above_complete_register; simp only: above_fields)

lemma above_biz_case:
  "P s \<Longrightarrow> P (fst (case on_biz m s of (s1, Inl e) \<Rightarrow> (s1, Inl e) | (s1, Inr None) \<Rightarrow> (s1, Inr ())
     | (s1, Inr (Some r)) \<Rightarrow> reply c r s1))"
  using above_biz [of s m]
  by (cases "on_biz m s") (simp add: above_fields split: sum.split option.split)

lemma above_route: "P s \<Longrightarrow> P (fst (route_message on_biz on_disc now tick c m s))"
proof (cases "conns s c")
  case (Some x)
  define s' where "s' = (if module_id x = [] then upd_session c (\<lambda>x. x\<lparr>reply_target := source m\<rparr>) s else s)"
  assume "P s"
  then have s': "P s'" by (simp add: s'_def above_fields)
  have hb: "P (fst (case build_message HEARTBEAT_ACK BACKEND (module_id x) None SUCCESS ''success'' now of
      Inl e \<Rightarrow> (upd_session c (\<lambda>x. x\<lparr>last_heartbeat := tick\<rparr>) s', Inl e)
    | Inr ack \<Rightarrow> reply c ack (upd_session c (\<lambda>x. x\<lparr>last_heartbeat := tick\<rparr>) s')))"
    using s' by (simp add: above_fields split: sum.split)
  show ?thesis
    unfolding route_message_def Some option.case Let_def s'_def [symmetric]
    by (intro above_if hb above_biz_case above_handle_register s'; simp only: above_fields s')
qed (simp add: route_message_def)

lemma above_process_line: "P s \<Longrightarrow> P (fst (process_line on_biz on_disc now tick c line s))"
  by (simp add: process_line_def above_fields above_route split: sum.split option.split)

lemma above_handle_line: "P s \<Longrightarrow> P (handle_line on_biz on_disc now tick c line s)"
  by (cases rule: handle_line_cases [of on_biz on_disc now tick c line s])
    (simp_all add: above_end_client above_process_line)

lemma above_patrol: "P s \<Longrightarrow> P (heartbeat_patrol on_disc now s)"
proof -
  have "P s \<Longrightarrow> P (patrol_one on_disc now s k)" for s k
    by (simp add: patrol_one_def above_unregister above_fields split: option.split)
  then have "P s \<Longrightarrow> P (foldl (patrol_one on_disc now) s ks)" for ks s
    by (induction ks arbitrary: s) simp_all
  then show "P s \<Longrightarrow> ?thesis" by (simp add: heartbeat_patrol_def)
qed

lemma above_close_clients: "P s \<Longrightarrow> P (close_clients on_disc s)"
proof -
  have "P s \<Longrightarrow> P (foldl (\<lambda>s c. end_client on_disc c s) s cs)" for cs s
    by (induction cs arbitrary: s) (simp_all add: above_end_client)
  then show "P s \<Longrightarrow> ?thesis" by (simp add: close_clients_def above_fields)
qed

end

end
