(* ===== verification/KinematicsAdapter.thy ===== *)
theory KinematicsAdapter
  imports TcpServer
begin

text \<open>
  \<open>backend/comm/kinematics_adapter.py\<close>: planning requests to the motion service and the feedback
  that answers them. A future is an object the waiting \<open>plan\<close> and the dictionary
  \<open>_pending\<close> share, so futures live in a heap and both hold references. The coroutine
  \<open>plan\<close> is split at its two \<open>await\<close>s; its \<open>finally\<close> is \<open>plan_end\<close>.
\<close>

section \<open>State\<close>

text \<open>\<open>FFailed c t\<close> holds a \<open>MotionError\<close> with code \<open>c\<close> and text \<open>t\<close>.\<close>

datatype future = FPending | FResult pydict | FFailed int string | FCancelled

record adapter = server +
  futures :: "future list"
  pending :: "(string, nat) dict"

definition TEXT_SEND_FAILED :: string where (* motion planning service offline or sending failed *)
  "TEXT_SEND_FAILED = utf8 [0x8FD0, 0x52A8, 0x89C4, 0x5212, 0x670D, 0x52A1, 0x79BB, 0x7EBF, 0x6216, 0x53D1, 0x9001, 0x5931, 0x8D25]"
definition TEXT_MOTION_LOST :: string where (* connection to the motion planning service lost *)
  "TEXT_MOTION_LOST = utf8 [0x8FD0, 0x52A8, 0x89C4, 0x5212, 0x670D, 0x52A1, 0x8FDE, 0x63A5, 0x5DF2, 0x65AD, 0x5F00]"

text \<open>
  What \<open>wait_for(plan(...))\<close> raises: a \<open>MotionError\<close>, \<open>CancelledError\<close>, \<open>TimeoutError\<close>
  or another exception.
\<close>

datatype plan_exc = MotionError int string | PlanCancelled | PlanTimeout | PlanExc pyexc

section \<open>Futures\<close>

definition future_at :: "'a adapter_scheme \<Rightarrow> nat \<Rightarrow> future" where
  "future_at s r = (if r < length (futures s) then futures s ! r else FCancelled)"

definition future_done :: "'a adapter_scheme \<Rightarrow> nat \<Rightarrow> bool" where
  "future_done s r \<longleftrightarrow> future_at s r \<noteq> FPending"

text \<open>\<open>if not future.done(): future.set_...(f)\<close>.\<close>

definition settle :: "future \<Rightarrow> nat \<Rightarrow> 'a adapter_scheme \<Rightarrow> 'a adapter_scheme" where
  "settle f r s = (if future_done s r then s else s\<lparr>futures := (futures s)[r := f]\<rparr>)"

section \<open>The adapter's operations\<close>

definition motion_online :: "'a adapter_scheme \<Rightarrow> bool" where
  "motion_online s = is_online s MOTION"

text \<open>\<open>on_disconnect\<close>.\<close>

definition adapter_on_disconnect :: "string \<Rightarrow> 'a adapter_scheme \<Rightarrow> 'a adapter_scheme" where
  "adapter_on_disconnect md s =
     (if md = MOTION
      then foldl (\<lambda>s r. settle (FFailed TARGET_OFFLINE TEXT_MOTION_LOST) r s) s (map snd (pending s))
      else s)"

text \<open>\<open>plan\<close> up to the first \<open>await\<close> inside \<open>send_to\<close>: the future's reference, and what became of the message.\<close>

definition plan_begin ::
  "bool \<Rightarrow> int \<Rightarrow> string \<Rightarrow> pydict \<Rightarrow> 'a adapter_scheme \<Rightarrow> 'a adapter_scheme \<times> nat \<times> sending res" where
  "plan_begin free now tid request s =
     (let r = length (futures s);
          s1 = s\<lparr>futures := futures s @ [FPending], pending := dset tid r (pending s)\<rparr>;
          d = dset ''task_id'' (PStr tid) request
      in case build_message GRASP_COMMAND BACKEND MOTION (Some d) SUCCESS ''success'' now of
           Inl e \<Rightarrow> (s1, r, Inl e)
         | Inr m \<Rightarrow> (case send_start free MOTION m s1 of (s2, w) \<Rightarrow> (s2, r, w)))"

text \<open>The \<open>finally\<close> of \<open>plan\<close>: forget the request, cancel an unanswered future.\<close>

definition plan_end :: "string \<Rightarrow> nat \<Rightarrow> 'a adapter_scheme \<Rightarrow> 'a adapter_scheme" where
  "plan_end tid r s = settle FCancelled r (s\<lparr>pending := ddel tid (pending s)\<rparr>)"

text \<open>\<open>await future\<close> on a future that is done.\<close>

definition plan_outcome :: "'a adapter_scheme \<Rightarrow> nat \<Rightarrow> plan_exc + pydict" where
  "plan_outcome s r =
     (case future_at s r of
        FResult d \<Rightarrow> Inr d
      | FFailed c t \<Rightarrow> Inl (MotionError c t)
      | _ \<Rightarrow> Inl PlanCancelled)"

text \<open>\<open>on_message\<close>: whether the message was consumed.\<close>

definition adapter_on_message :: "message \<Rightarrow> 'a adapter_scheme \<Rightarrow> 'a adapter_scheme \<times> bool" where
  "adapter_on_message m s =
     (if source m \<noteq> MOTION then (s, False)
      else if msg_type m \<noteq> MOTION_STATUS \<and> msg_type m \<noteq> ERROR_REPORT then (s, False)
      else
        (let ref = (case dget (data m) ''task_id'' of Some (PStr t) \<Rightarrow> dget (pending s) t | _ \<Rightarrow> None)
         in (if code m = EMERGENCY_STOP then adapter_on_disconnect MOTION s
             else case ref of
                    None \<Rightarrow> s
                  | Some r \<Rightarrow>
                      if code m \<noteq> 0 \<or> msg_type m = ERROR_REPORT
                      then settle (FFailed (if code m \<noteq> 0 then code m else MOTION_EXEC_FAILED) (msg m)) r s
                      else settle (FResult (data m)) r s,
             True)))"

section \<open>Futures are written once\<close>

lemma settle_done [simp]: "future_done s r \<Longrightarrow> settle f r s = s"
  by (simp add: settle_def)

lemma not_done_bound: "\<not> future_done s r \<Longrightarrow> r < length (futures s)"
  by (auto simp: future_done_def future_at_def split: if_splits)

lemma future_at_settle:
  "future_at (settle f r s) q = (if q = r \<and> \<not> future_done s r then f else future_at s q)"
  using not_done_bound [of s r] by (auto simp: settle_def future_at_def)

lemma settle_keeps: "future_done s q \<Longrightarrow> future_at (settle f r s) q = future_at s q"
  by (auto simp: future_at_settle)

lemma settle_fields [simp]:
  "pending (settle f r s) = pending s" "length (futures (settle f r s)) = length (futures s)"
  "server.truncate (settle f r s) = server.truncate s"
  by (simp_all add: settle_def server.defs)

definition keeps_done :: "'a adapter_scheme \<Rightarrow> 'a adapter_scheme \<Rightarrow> bool" where
  "keeps_done s s' \<longleftrightarrow>
     length (futures s) \<le> length (futures s')
     \<and> (\<forall>r < length (futures s). future_done s r \<longrightarrow> future_at s' r = future_at s r)"

lemma keeps_done_refl [simp]: "keeps_done s s"
  by (simp add: keeps_done_def)

lemma keeps_done_trans: "keeps_done s s' \<Longrightarrow> keeps_done s' s'' \<Longrightarrow> keeps_done s s''"
  by (fastforce simp: keeps_done_def future_done_def)

lemma keeps_done_settle [simp]: "keeps_done s (settle f r s)"
  by (simp add: keeps_done_def settle_keeps)

lemma settle_all:
  "keeps_done s (foldl (\<lambda>s r. settle f r s) s rs)"
  "pending (foldl (\<lambda>s r. settle f r s) s rs) = pending s"
  "server.truncate (foldl (\<lambda>s r. settle f r s) s rs) = server.truncate s"
  "future_at (foldl (\<lambda>s r. settle f r s) s rs) q =
     (if q \<in> set rs \<and> \<not> future_done s q then f else future_at s q)"
proof -
  show "keeps_done s (foldl (\<lambda>s r. settle f r s) s rs)"
  proof (induction rs arbitrary: s)
    case (Cons a rs)
    show ?case using keeps_done_trans [OF keeps_done_settle Cons.IH] by simp
  qed simp
  show "pending (foldl (\<lambda>s r. settle f r s) s rs) = pending s"
    by (induction rs arbitrary: s) simp_all
  show "server.truncate (foldl (\<lambda>s r. settle f r s) s rs) = server.truncate s"
    by (induction rs arbitrary: s) simp_all
  show "future_at (foldl (\<lambda>s r. settle f r s) s rs) q =
     (if q \<in> set rs \<and> \<not> future_done s q then f else future_at s q)"
    by (induction rs arbitrary: s) (auto simp: future_at_settle future_done_def)
qed

text \<open>Both callbacks change the adapter's own part of the state, and no settled future.\<close>

lemma adapter_on_disconnect_frame [simp]:
  "server.truncate (adapter_on_disconnect md s) = server.truncate s"
  "pending (adapter_on_disconnect md s) = pending s"
  "keeps_done s (adapter_on_disconnect md s)"
  by (simp_all add: adapter_on_disconnect_def settle_all)

lemma adapter_on_message_frame [simp]:
  "server.truncate (fst (adapter_on_message m s)) = server.truncate s"
  "pending (fst (adapter_on_message m s)) = pending s"
  "keeps_done s (fst (adapter_on_message m s))"
  by (simp_all add: adapter_on_message_def Let_def split: option.split pyval.split)

text \<open>When the motion service is gone, every registered request has an answer.\<close>

lemma on_disconnect_settles:
  "dget (pending s) t = Some r \<Longrightarrow> future_done (adapter_on_disconnect MOTION s) r"
  by (force simp: adapter_on_disconnect_def future_done_def settle_all dest: map_of_SomeD)

text \<open>Feedback that answers no registered request changes nothing, emergency stop aside.\<close>

lemma late_feedback:
  assumes "code m \<noteq> EMERGENCY_STOP"
    and "\<And>t. dget (data m) ''task_id'' = Some (PStr t) \<Longrightarrow> dget (pending s) t = None"
  shows "fst (adapter_on_message m s) = s"
  using assms by (auto simp: adapter_on_message_def Let_def split: option.split pyval.split)

section \<open>Frames\<close>

lemma adapter_cong:
  "server.more s' = server.more s \<Longrightarrow> futures s' = futures s \<and> pending s' = pending s
     \<and> adapter.more s' = adapter.more s"
  by (cases s; cases s') simp

lemma adapter_more [more_simps]:
  "adapter.more (settle f r s) = adapter.more s"
  "adapter.more (plan_end tid r s) = adapter.more s"
  "server.truncate (plan_end tid r s) = server.truncate s"
  by (simp_all add: settle_def plan_end_def server.defs)

lemma adapter_on_disconnect_more [more_simps]:
  "adapter.more (adapter_on_disconnect md s) = adapter.more s"
proof -
  have "adapter.more (foldl (\<lambda>s r. settle f r s) s rs) = adapter.more s" for f rs and s :: "'a adapter_scheme"
    by (induction rs arbitrary: s) (simp_all add: more_simps)
  then show ?thesis by (simp add: adapter_on_disconnect_def)
qed

lemma adapter_on_message_more [more_simps]:
  "adapter.more (fst (adapter_on_message m s)) = adapter.more s"
  by (simp add: adapter_on_message_def more_simps Let_def split: option.split pyval.split)

lemma plan_end_adapter:
  "pending (plan_end tid r s) = ddel tid (pending s)"
  "keeps_done s (plan_end tid r s)"
  "future_at (plan_end tid r s) q = (if q = r \<and> \<not> future_done s r then FCancelled else future_at s q)"
  by (simp_all add: plan_end_def keeps_done_def future_at_settle settle_keeps)
    (simp_all add: future_at_def future_done_def)

text \<open>A plan begins with one pending future, registered under the task, and at most one message.\<close>

lemma plan_begin_fields:
  assumes "plan_begin free now tid rq s = (s1, r, res)"
  shows "r = length (futures s)" "futures s1 = futures s @ [FPending]"
    "pending s1 = dset tid r (pending s)" "adapter.more s1 = adapter.more s"
    "sessions s1 = sessions s" "conns s1 = conns s" "clients s1 = clients s" "next_conn s1 = next_conn s"
proof -
  have C: "futures (fst (send_start f MOTION m x)) = futures x" "pending (fst (send_start f MOTION m x)) = pending x"
      "adapter.more (fst (send_start f MOTION m x)) = adapter.more x" for f m and x :: "'a adapter_scheme"
    using adapter_cong [OF server_more(6), of f MOTION m x] by simp_all
  show "r = length (futures s)" "futures s1 = futures s @ [FPending]"
    "pending s1 = dset tid r (pending s)" "adapter.more s1 = adapter.more s"
    "sessions s1 = sessions s" "conns s1 = conns s" "clients s1 = clients s" "next_conn s1 = next_conn s"
    using assms by (auto simp: plan_begin_def Let_def server_simps C split_beta split: sum.splits)
qed

text \<open>What becomes of the command, which names its task.\<close>

lemma plan_begin_cases:
  assumes "plan_begin free now tid rq s = (s1, r, res)"
  obtains (failed) e where "res = Inl e" "sent s1 = sent s"
  | (offline) "res = Inr Offline" "sent s1 = sent s"
  | (queued) c m where "res = Inr (Queued c m)" "sent s1 = sent s" "dget (data m) ''task_id'' = Some (PStr tid)"
  | (written) c m where "res = Inr (Written c)" "sent s1 = sent s @ [(c, m)]"
      "dget (data m) ''task_id'' = Some (PStr tid)"
proof -
  define s0 where "s0 = s\<lparr>futures := futures s @ [FPending], pending := dset tid (length (futures s)) (pending s)\<rparr>"
  have s0: "sent s0 = sent s" by (simp add: s0_def)
  note b = assms [unfolded plan_begin_def Let_def, folded s0_def]
  show ?thesis
  proof (cases "build_message GRASP_COMMAND BACKEND MOTION (Some (dset ''task_id'' (PStr tid) rq)) SUCCESS ''success'' now")
    case (Inl e)
    then show ?thesis using b s0 failed [of e] by auto
  next
    case (Inr m)
    have m: "dget (data m) ''task_id'' = Some (PStr tid)"
      using build_message_fields(6) [OF Inr] by (simp add: dict_simps)
    have e: "(s1, res) = send_start free MOTION m s0" using b Inr by (simp split: prod.splits)
    show ?thesis
      by (cases rule: send_start_cases [of free MOTION m s0])
        (use e s0 m failed offline queued written in \<open>simp_all add: sent_write_to\<close>)
  qed
qed

end
