(* ===== verification/TaskRepository.thy ===== *)
theory TaskRepository
  imports Protocol
begin

text \<open>
  \<open>backend/app/model/task_repository.py\<close> and the table of \<open>database/schema/robot_tasks.sql\<close>:
  rows keyed by task id, the four SQL statements, and the rules of a task's life: created
  \<open>planning\<close>, moved once to a terminal status, never changed afterwards.
\<close>

section \<open>The table\<close>

definition PLANNING :: string where "PLANNING = ''planning''"
definition PLANNED :: string where "PLANNED = ''planned''"
definition FAILED :: string where "FAILED = ''failed''"
definition INTERRUPTED :: string where "INTERRUPTED = ''interrupted''"

lemmas status_consts = PLANNING_def PLANNED_def FAILED_def INTERRUPTED_def

record row =
  status :: string
  request_json :: string
  result_json :: "string option"
  error_json :: "string option"
  created_at :: int
  updated_at :: int

text \<open>\<open>task_id TEXT PRIMARY KEY\<close>: at most one row per id. Rows stay in insertion order.\<close>

type_synonym table = "(string, row) dict"

text \<open>The schema: primary key and the \<open>CHECK\<close> on the status.\<close>

definition table_ok :: "table \<Rightarrow> bool" where
  "table_ok t \<longleftrightarrow>
     dict_ok t \<and> list_all (\<lambda>(_, r). status r \<in> {PLANNING, PLANNED, FAILED, INTERRUPTED}) t"

definition status_of :: "table \<Rightarrow> string \<Rightarrow> string option" where
  "status_of t tid = map_option status (dget t tid)"

text \<open>An error dictionary \<open>{"code": c, "msg": m}\<close>.\<close>

definition error_dict :: "int \<Rightarrow> string \<Rightarrow> pydict" where
  "error_dict c m = [(''code'', PInt c), (''msg'', PStr m)]"

text \<open>
  The error texts of the backend are Chinese; here and in the other theories they are given by
  their code points, with their meaning in English beside them.
\<close>

definition TEXT_RESTARTED :: string where (* backend restarted, task interrupted; not sent again *)
  "TEXT_RESTARTED = utf8 [0x540E, 0x7AEF, 0x5DF2, 0x91CD, 0x542F, 0xFF0C, 0x4EFB, 0x52A1, 0x4E2D, 0x65AD, 0xFF1B, 0x672A, 0x91CD, 0x65B0, 0x4E0B, 0x53D1]"

section \<open>The operations\<close>

text \<open>\<open>initialize\<close>: \<open>CREATE TABLE IF NOT EXISTS\<close>.\<close>

definition initialize :: "table option \<Rightarrow> table" where
  "initialize f = (case f of None \<Rightarrow> [] | Some t \<Rightarrow> t)"

text \<open>\<open>recover_interrupted\<close>: every planning row, with the number of rows changed.\<close>

definition recover_interrupted :: "int \<Rightarrow> table \<Rightarrow> nat \<times> table" where
  "recover_interrupted now t =
     (let e = dumps (PDict (error_dict 3001 TEXT_RESTARTED))
      in (length (filter (\<lambda>(_, r). status r = PLANNING) t),
          dmap (\<lambda>r. if status r = PLANNING
                    then r\<lparr>status := INTERRUPTED, error_json := Some e, updated_at := now\<rparr> else r) t))"

text \<open>Binding a text to a statement encodes it: a lone surrogate raises.\<close>

definition bind_text :: "string \<Rightarrow> string res" where
  "bind_text s = (if valid_utf8 s then Inr s else Inl UnicodeEncodeError)"

text \<open>\<open>create\<close>: a repeated id violates the primary key.\<close>

definition create :: "int \<Rightarrow> string \<Rightarrow> pydict \<Rightarrow> table \<Rightarrow> table res" where
  "create now tid request t =
     rbind (rbind (json_dumps False (PDict request)) bind_text) (\<lambda>js.
       if dget t tid \<noteq> None then Inl DatabaseError
       else Inr (t @ [(tid, \<lparr>status = PLANNING, request_json = js, result_json = None,
                            error_json = None, created_at = now, updated_at = now\<rparr>)]))"

text \<open>The local \<open>encode\<close> of \<open>finish\<close>.\<close>

fun encode_opt :: "pydict option \<Rightarrow> string option res" where
  "encode_opt None = Inr None"
| "encode_opt (Some d) = rbind (json_dumps False (PDict d)) (\<lambda>s. Inr (Some s))"

fun bind_opt :: "string option \<Rightarrow> string option res" where
  "bind_opt None = Inr None"
| "bind_opt (Some s) = rbind (bind_text s) (\<lambda>s. Inr (Some s))"

text \<open>\<open>finish\<close>: whether a row changed, and the table; only a planning row changes.\<close>

definition finish ::
  "int \<Rightarrow> string \<Rightarrow> string \<Rightarrow> pydict option \<Rightarrow> pydict option \<Rightarrow> table \<Rightarrow> (bool \<times> table) res" where
  "finish now tid st result err t =
     (if st \<notin> {PLANNED, FAILED, INTERRUPTED} then Inl ValueError
      else rbind (encode_opt result) (\<lambda>rj. rbind (encode_opt err) (\<lambda>ej.
        rbind (bind_opt rj) (\<lambda>rj. rbind (bind_opt ej) (\<lambda>ej.
        case dget t tid of
          None \<Rightarrow> Inr (False, t)
        | Some r \<Rightarrow>
            if status r = PLANNING
            then Inr (True, dset tid (r\<lparr>status := st, result_json := rj, error_json := ej,
                                       updated_at := now\<rparr>) t)
            else Inr (False, t))))))"

text \<open>\<open>get\<close>: the row with its JSON columns read.\<close>

record task_view =
  v_task_id :: string
  v_status :: string
  v_request :: pyval
  v_result :: "pyval option"
  v_error :: "pyval option"
  v_created_at :: int
  v_updated_at :: int

fun loads_opt :: "string option \<Rightarrow> pyval option res" where
  "loads_opt None = Inr None"
| "loads_opt (Some s) = rbind (loads s) (\<lambda>v. Inr (Some v))"

definition get :: "table \<Rightarrow> string \<Rightarrow> task_view option res" where
  "get t tid =
     (case dget t tid of
        None \<Rightarrow> Inr None
      | Some r \<Rightarrow>
          rbind (loads (request_json r)) (\<lambda>rq.
          rbind (loads_opt (result_json r)) (\<lambda>rs.
          rbind (loads_opt (error_json r)) (\<lambda>er.
            Inr (Some \<lparr>v_task_id = tid, v_status = status r, v_request = rq, v_result = rs,
                       v_error = er, v_created_at = created_at r, v_updated_at = updated_at r\<rparr>)))))"

section \<open>How each operation changes the statuses\<close>

named_theorems status_simps \<open>the status of a task after each operation on the table\<close>

lemma create_Inr_iff [res_simps]:
  "create now tid rq t = Inr t' \<longleftrightarrow>
     (\<exists>js. json_dumps False (PDict rq) = Inr js \<and> valid_utf8 js \<and> dget t tid = None
        \<and> t' = t @ [(tid, \<lparr>status = PLANNING, request_json = js, result_json = None,
                          error_json = None, created_at = now, updated_at = now\<rparr>)])"
  by (auto simp: create_def res_simps bind_text_def)

lemma bind_opt_Inr [res_simps]: "bind_opt r = Inr q \<longleftrightarrow> q = r \<and> (\<forall>s. r = Some s \<longrightarrow> valid_utf8 s)"
  by (cases r) (auto simp: bind_text_def res_simps)

lemma status_of_create [status_simps]:
  "create now tid rq t = Inr t' \<Longrightarrow> status_of t' = (status_of t)(tid \<mapsto> PLANNING)"
  by (auto simp: create_Inr_iff status_of_def fun_eq_iff map_add_def split: option.splits)

lemma create_fresh: "create now tid rq t = Inr t' \<Longrightarrow> status_of t tid = None"
  by (auto simp: create_Inr_iff status_of_def)

lemma finish_InrD:
  assumes "finish now tid st rs er t = Inr (b, t')"
  shows "st \<in> {PLANNED, FAILED, INTERRUPTED}"
    and "b \<longleftrightarrow> status_of t tid = Some PLANNING"
    and "\<not> b \<Longrightarrow> t' = t"
    and "b \<Longrightarrow> \<exists>r rj ej. dget t tid = Some r \<and> encode_opt rs = Inr rj \<and> encode_opt er = Inr ej
           \<and> t' = dset tid (r\<lparr>status := st, result_json := rj, error_json := ej, updated_at := now\<rparr>) t"
  using assms
  by (auto simp: finish_def res_simps status_of_def split: if_splits option.splits)

lemma status_of_dset: "status_of (dset tid r t) = (status_of t)(tid \<mapsto> status r)"
  by (simp add: status_of_def fun_eq_iff dict_simps)

lemma status_of_finish [status_simps]:
  assumes "finish now tid st rs er t = Inr (b, t')"
  shows "status_of t' =
    (if status_of t tid = Some PLANNING then (status_of t)(tid \<mapsto> st) else status_of t)"
  using finish_InrD [OF assms] by (cases b) (auto simp: status_of_dset)

lemma status_of_recover [status_simps]:
  "status_of (snd (recover_interrupted now t)) tid =
     (if status_of t tid = Some PLANNING then Some INTERRUPTED else status_of t tid)"
  by (cases "dget t tid") (auto simp: recover_interrupted_def status_of_def dict_simps Let_def)

lemma table_ok_dset:
  "table_ok t \<Longrightarrow> status r \<in> {PLANNING, PLANNED, FAILED, INTERRUPTED} \<Longrightarrow> table_ok (dset k r t)"
  by (induction t) (auto simp: table_ok_def dict_ok_def distinct_update update_keys dom_update)

lemma table_ok_create: "table_ok t \<Longrightarrow> create now tid rq t = Inr t' \<Longrightarrow> table_ok t'"
  by (auto simp: create_Inr_iff table_ok_def dict_ok_def dget_None_iff)

lemma table_ok_finish: "table_ok t \<Longrightarrow> finish now tid st rs er t = Inr (b, t') \<Longrightarrow> table_ok t'"
  using finish_InrD [of now tid st rs er t b t'] by (cases b) (auto intro!: table_ok_dset)

lemma table_ok_recover: "table_ok t \<Longrightarrow> table_ok (snd (recover_interrupted now t))"
  by (auto simp: table_ok_def recover_interrupted_def Let_def list_all_iff dmap_def dict_ok_def comp_def split_beta)

section \<open>The interface its clients rely on\<close>

text \<open>
  What a client needs of a store of task statuses: the status a lookup gives after each
  operation. Two laws say that a task starts in the initial status and leaves it once.
\<close>

locale task_store =
  fixes look :: "'s \<Rightarrow> 'k \<Rightarrow> 'p option"
    and init :: 'p
    and add :: "'k \<Rightarrow> 's \<Rightarrow> 's \<Rightarrow> bool"
    and fin :: "'k \<Rightarrow> 'p \<Rightarrow> 's \<Rightarrow> 's \<Rightarrow> bool"
  assumes add_fresh: "add k s s' \<Longrightarrow> look s k = None"
    and look_add: "add k s s' \<Longrightarrow> look s' = (look s)(k \<mapsto> init)"
    and fin_terminal: "fin k p s s' \<Longrightarrow> p \<noteq> init"
    and look_fin: "fin k p s s' \<Longrightarrow>
          look s' = (if look s k = Some init then (look s)(k \<mapsto> p) else look s)"
begin

lemma add_settled: "add k s s' \<Longrightarrow> look s j = Some p \<Longrightarrow> look s' j = Some p"
  using add_fresh look_add by fastforce

lemma fin_settled: "fin k p s s' \<Longrightarrow> look s j = Some q \<Longrightarrow> q \<noteq> init \<Longrightarrow> look s' j = Some q"
  by (auto simp: look_fin)

lemma fin_only_target: "fin k p s s' \<Longrightarrow> j \<noteq> k \<Longrightarrow> look s' j = look s j"
  by (auto simp: look_fin)

lemma fin_settles: "fin k p s s' \<Longrightarrow> look s k = Some q \<Longrightarrow> \<exists>q'. look s' k = Some q' \<and> q' \<noteq> init"
  using fin_terminal by (auto simp: look_fin)

lemma open_after: 
  assumes "add k s s' \<or> fin k p s s'" "look s' j = Some init"
  shows "look s j = Some init \<or> (j = k \<and> add k s s')"
  using assms look_add fin_terminal look_fin by (auto split: if_splits)

end

interpretation repo: task_store status_of PLANNING
  "\<lambda>tid t t'. \<exists>now rq. create now tid rq t = Inr t'"
  "\<lambda>tid st t t'. \<exists>now rs er b. finish now tid st rs er t = Inr (b, t')"
proof unfold_locales
  fix k st and t t' :: table
  assume "\<exists>now rs er b. finish now k st rs er t = Inr (b, t')"
  then have "st \<in> {PLANNED, FAILED, INTERRUPTED}" using finish_InrD(1) by blast
  then show "st \<noteq> PLANNING" by (auto simp: status_consts)
qed (auto simp: status_simps create_fresh)

end
