(* ===== verification/RobotRequest.thy ===== *)
theory RobotRequest
  imports TaskRepository
begin

text \<open>
  \<open>backend/app/schema/robot_request.py\<close>: the planning request and the planning result as
  pydantic models. The declarations (fields, lengths, bounds, literals, forbidden extras) and the
  validators are the source's; how pydantic reads one number in strict mode is the library's and
  is the parameter \<open>lib\<close>, with what the code relies on stated by \<open>strict_numbers\<close>.
\<close>

section \<open>The library's part\<close>

record lib =
  lib_float :: "pyval \<Rightarrow> pyfloat option"
  lib_int :: "pyval \<Rightarrow> int option"
  lib_hypot :: "pyfloat list \<Rightarrow> pyfloat"
  lib_text :: "pyexc \<Rightarrow> string"

text \<open>
  Documented behaviour of \<open>ConfigDict(strict=True, allow_inf_nan=False)\<close>: a finite float is
  taken as it is, an accepted number is finite, booleans, strings and the other types are refused;
  a strict \<open>int\<close> is exactly an integer.
\<close>

definition strict_numbers :: "'a lib_scheme \<Rightarrow> bool" where
  "strict_numbers L \<longleftrightarrow>
     (\<forall>f. isfinite f \<longrightarrow> lib_float L (PFloat f) = Some f)
     \<and> (\<forall>v f. lib_float L v = Some f \<longrightarrow> isfinite f \<and> is_number v)
     \<and> (\<forall>i. lib_int L (PInt i) = Some i)
     \<and> (\<forall>v i. lib_int L v = Some i \<longrightarrow> v = PInt i)"

lemma strict_numbersD:
  assumes "strict_numbers L"
  shows "isfinite f \<Longrightarrow> lib_float L (PFloat f) = Some f"
    and "lib_float L v = Some f \<Longrightarrow> isfinite f"
    and "lib_float L v = Some f \<Longrightarrow> is_number v"
    and "lib_int L (PInt i) = Some i"
    and "lib_int L v = Some i \<Longrightarrow> v = PInt i"
  using assms unfolding strict_numbers_def by blast+

text \<open>A concrete reading of numbers, to evaluate the model on examples.\<close>

fun std_float :: "pyval \<Rightarrow> pyfloat option" where
  "std_float (PInt i) = (if isfinite (f64 (of_int i)) then Some (f64 (of_int i)) else None)"
| "std_float (PFloat f) = (if isfinite f then Some f else None)"
| "std_float _ = None"

fun std_int :: "pyval \<Rightarrow> int option" where
  "std_int (PInt i) = Some i"
| "std_int _ = None"

lemma std_float_finite: "std_float v = Some f \<Longrightarrow> isfinite f \<and> is_number v"
  by (induction v rule: std_float.induct) (auto split: if_splits)

lemma std_strict: "strict_numbers \<lparr>lib_float = std_float, lib_int = std_int, lib_hypot = h, lib_text = x\<rparr>"
proof -
  have "\<And>v i. std_int v = Some i \<Longrightarrow> v = PInt i"
    by (erule std_int.elims) auto
  then show ?thesis by (auto simp: strict_numbers_def std_float_finite)
qed

section \<open>Fields\<close>

text \<open>A field's value, with \<open>ValueError\<close> for pydantic's \<open>ValidationError\<close>, its subclass.\<close>

definition field :: "pydict \<Rightarrow> string \<Rightarrow> (pyval \<Rightarrow> 'a option) \<Rightarrow> 'a res" where
  "field d k rd =
     (case dget d k of None \<Rightarrow> Inl ValueError
      | Some v \<Rightarrow> (case rd v of None \<Rightarrow> Inl ValueError | Some x \<Rightarrow> Inr x))"

definition field_or :: "pydict \<Rightarrow> string \<Rightarrow> 'a \<Rightarrow> (pyval \<Rightarrow> 'a option) \<Rightarrow> 'a res" where
  "field_or d k dflt rd = (if dget d k = None then Inr dflt else field d k rd)"

text \<open>\<open>extra="forbid"\<close>.\<close>

definition no_extra :: "string list \<Rightarrow> pydict \<Rightarrow> unit res" where
  "no_extra ks d = guard (set (dkeys d) \<subseteq> set ks) ValueError"

fun opt_map :: "('a \<Rightarrow> 'b option) \<Rightarrow> 'a list \<Rightarrow> 'b list option" where
  "opt_map f [] = Some []"
| "opt_map f (x # xs) =
     (case f x of None \<Rightarrow> None
      | Some y \<Rightarrow> (case opt_map f xs of None \<Rightarrow> None | Some ys \<Rightarrow> Some (y # ys)))"

text \<open>\<open>list[T]\<close> with \<open>min_length\<close> and \<open>max_length\<close>.\<close>

fun read_list :: "(pyval \<Rightarrow> 'a option) \<Rightarrow> nat \<Rightarrow> nat \<Rightarrow> pyval \<Rightarrow> 'a list option" where
  "read_list rd lo hi (PList vs) = (if lo \<le> length vs \<and> length vs \<le> hi then opt_map rd vs else None)"
| "read_list rd lo hi _ = None"

text \<open>\<open>Field(gt=0)\<close>.\<close>

definition read_pos :: "'a lib_scheme \<Rightarrow> pyval \<Rightarrow> pyfloat option" where
  "read_pos L v = (case lib_float L v of None \<Rightarrow> None | Some f \<Rightarrow> if Fin 0 < f then Some f else None)"

definition read_pos_int :: "'a lib_scheme \<Rightarrow> pyval \<Rightarrow> int option" where
  "read_pos_int L v = (case lib_int L v of None \<Rightarrow> None | Some i \<Rightarrow> if 0 < i then Some i else None)"

fun read_str :: "pyval \<Rightarrow> string option" where
  "read_str (PStr s) = Some s"
| "read_str _ = None"

definition read_choice :: "string list \<Rightarrow> pyval \<Rightarrow> string option" where
  "read_choice ws v = (case read_str v of None \<Rightarrow> None | Some s \<Rightarrow> if s \<in> set ws then Some s else None)"

text \<open>\<open>Literal[True]\<close> or \<open>Literal[False]\<close> behind \<open>validate_flags\<close>: only that JSON boolean.\<close>

fun validate_flags :: "bool \<Rightarrow> pyval \<Rightarrow> bool option" where
  "validate_flags b (PBool c) = (if c = b then Some c else None)"
| "validate_flags b _ = None"

lemma field_Inr_iff [res_simps]: "field d k rd = Inr x \<longleftrightarrow> (\<exists>v. dget d k = Some v \<and> rd v = Some x)"
  by (auto simp: field_def split: option.splits)

lemma field_or_Inr_iff [res_simps]:
  "field_or d k dflt rd = Inr x \<longleftrightarrow>
     (dget d k = None \<and> x = dflt) \<or> (\<exists>v. dget d k = Some v \<and> rd v = Some x)"
  by (auto simp: field_or_def res_simps)

lemma opt_map_Some_iff: "opt_map f xs = Some ys \<longleftrightarrow> list_all2 (\<lambda>x y. f x = Some y) xs ys"
proof (induction xs arbitrary: ys)
  case (Cons a xs)
  have IH: "list_all2 (\<lambda>x y. f x = Some y) xs zs \<longleftrightarrow> opt_map f xs = Some zs" for zs
    using Cons.IH by simp
  show ?case by (auto simp: list_all2_Cons1 IH split: option.splits)
qed auto

lemma opt_map_length: "opt_map f xs = Some ys \<Longrightarrow> length ys = length xs"
  by (auto simp: opt_map_Some_iff dest: list_all2_lengthD)

lemma opt_map_set: "opt_map f xs = Some ys \<Longrightarrow> y \<in> set ys \<Longrightarrow> \<exists>x \<in> set xs. f x = Some y"
  by (fastforce simp: opt_map_Some_iff list_all2_conv_all_nth in_set_conv_nth)

lemma opt_map_map: "(\<And>x. x \<in> set xs \<Longrightarrow> f (g x) = Some x) \<Longrightarrow> opt_map f (map g xs) = Some xs"
  by (induction xs) auto

lemma read_list_Some_iff:
  "read_list rd lo hi v = Some ys \<longleftrightarrow>
     (\<exists>vs. v = PList vs \<and> lo \<le> length vs \<and> length vs \<le> hi \<and> opt_map rd vs = Some ys)"
  by (cases v) auto

lemma read_list_length: "read_list rd lo hi v = Some ys \<Longrightarrow> lo \<le> length ys \<and> length ys \<le> hi"
  by (auto simp: read_list_Some_iff dest: opt_map_length)

lemma opt_map_floats_finite:
  "strict_numbers L \<Longrightarrow> opt_map (lib_float L) vs = Some fs \<Longrightarrow> list_all isfinite fs"
  using strict_numbersD(2) [of L] by (fastforce simp: list_all_iff dest: opt_map_set)

lemma read_list_floats_finite:
  "strict_numbers L \<Longrightarrow> read_list (lib_float L) lo hi v = Some fs \<Longrightarrow> list_all isfinite fs"
  by (auto simp: read_list_Some_iff opt_map_floats_finite)

lemma read_pos_Some: "read_pos L v = Some f \<Longrightarrow> lib_float L v = Some f \<and> Fin 0 < f"
  by (auto simp: read_pos_def split: option.splits if_splits)

lemma read_choice_Some: "read_choice ws v = Some s \<longleftrightarrow> v = PStr s \<and> s \<in> set ws"
  by (cases v) (auto simp: read_choice_def)

lemma validate_flags_Some: "validate_flags b v = Some c \<longleftrightarrow> v = PBool b \<and> c = b"
  by (cases v) auto

section \<open>GraspPose\<close>

record grasp_pose =
  position :: "pyfloat list"
  orientation :: "pyfloat list"

definition NORM_MIN :: pyfloat where
  "NORM_MIN = f64 (1 / 10 ^ 12)"

definition validate_orientation :: "'a lib_scheme \<Rightarrow> pyfloat list \<Rightarrow> pyfloat list res" where
  "validate_orientation L value =
     (let norm = lib_hypot L value
      in if \<not> isfinite norm \<or> norm < NORM_MIN then Inl ValueError
         else rmap (\<lambda>c. fdiv c norm) value)"

definition validate_pose :: "'a lib_scheme \<Rightarrow> pyval \<Rightarrow> grasp_pose res" where
  "validate_pose L v =
     (case v of
        PDict d \<Rightarrow>
          rbind (field d ''position'' (read_list (lib_float L) 3 3)) (\<lambda>p.
          rbind (field d ''orientation'' (read_list (lib_float L) 4 4)) (\<lambda>ori.
          rbind (validate_orientation L ori) (\<lambda>q.
          rbind (no_extra [''position'', ''orientation''] d) (\<lambda>_.
            Inr \<lparr>position = p, orientation = q\<rparr>))))
      | _ \<Rightarrow> Inl ValueError)"

section \<open>PlanRequest\<close>

record plan_request =
  rq_grasp_pose :: grasp_pose
  rq_joint_angles :: "pyfloat list option"
  rq_force_limit :: pyfloat

definition read_opt :: "(pyval \<Rightarrow> 'a option) \<Rightarrow> pyval \<Rightarrow> 'a option option" where
  "read_opt rd v = (if v = PNone then Some None else map_option Some (rd v))"

definition validate_request :: "'a lib_scheme \<Rightarrow> pyval \<Rightarrow> plan_request res" where
  "validate_request L v =
     (case v of
        PDict d \<Rightarrow>
          rbind (case dget d ''grasp_pose'' of None \<Rightarrow> Inl ValueError | Some p \<Rightarrow> validate_pose L p) (\<lambda>pose.
          rbind (field_or d ''current_joint_angles'' None (read_opt (read_list (lib_float L) 6 6))) (\<lambda>js.
          rbind (field_or d ''force_limit'' (Fin 5) (read_pos L)) (\<lambda>f.
          rbind (no_extra [''grasp_pose'', ''current_joint_angles'', ''force_limit''] d) (\<lambda>_.
            Inr \<lparr>rq_grasp_pose = pose, rq_joint_angles = js, rq_force_limit = f\<rparr>))))
      | _ \<Rightarrow> Inl ValueError)"

definition floats :: "pyfloat list \<Rightarrow> pyval" where
  "floats fs = PList (map PFloat fs)"

text \<open>\<open>request.model_dump(exclude_none=True)\<close>.\<close>

definition dump_request :: "plan_request \<Rightarrow> pydict" where
  "dump_request r =
     [(''grasp_pose'', PDict [(''position'', floats (position (rq_grasp_pose r))),
                              (''orientation'', floats (orientation (rq_grasp_pose r)))])]
     @ (case rq_joint_angles r of None \<Rightarrow> [] | Some js \<Rightarrow> [(''current_joint_angles'', floats js)])
     @ [(''force_limit'', PFloat (rq_force_limit r))]"

section \<open>PlanResult\<close>

record plan_result =
  pr_task_id :: string
  pr_reference_source :: string
  pr_joint_target :: "pyfloat list"
  pr_joint_trajectory :: "pyfloat list list"
  pr_duration_sec :: pyfloat
  pr_sample_period_sec :: pyfloat
  pr_solution_count :: int
  pr_force_limit :: pyfloat

definition RESULT_FIELDS :: "string list" where
  "RESULT_FIELDS =
     [''task_id'', ''phase'', ''is_success'', ''executed'', ''execution_mode'', ''reference_source'',
      ''joint_target'', ''joint_trajectory'', ''duration_sec'', ''sample_period_sec'',
      ''solution_count'', ''force_limit'']"

text \<open>\<open>validate_trajectory\<close>.\<close>

definition validate_trajectory :: "pyfloat list list \<Rightarrow> pyfloat list list res" where
  "validate_trajectory value =
     (if list_ex (\<lambda>point. length point \<noteq> 6) value then Inl ValueError else Inr value)"

fun read_floats :: "'a lib_scheme \<Rightarrow> pyval \<Rightarrow> pyfloat list option" where
  "read_floats L (PList vs) = opt_map (lib_float L) vs"
| "read_floats L _ = None"

definition validate_plan_result :: "'a lib_scheme \<Rightarrow> pydict \<Rightarrow> plan_result res" where
  "validate_plan_result L d =
     rbind (field d ''task_id'' read_str) (\<lambda>tid.
     rbind (field d ''phase'' (read_choice [''planned''])) (\<lambda>_.
     rbind (field d ''is_success'' (validate_flags True)) (\<lambda>_.
     rbind (field d ''executed'' (validate_flags False)) (\<lambda>_.
     rbind (field d ''execution_mode'' (read_choice [''plan_only''])) (\<lambda>_.
     rbind (field d ''reference_source'' (read_choice [''request'', ''config''])) (\<lambda>src.
     rbind (field d ''joint_target'' (read_list (lib_float L) 6 6)) (\<lambda>tgt.
     rbind (rbind (field d ''joint_trajectory'' (read_list (read_floats L) 2 4096)) validate_trajectory) (\<lambda>tr.
     rbind (field d ''duration_sec'' (read_pos L)) (\<lambda>du.
     rbind (field d ''sample_period_sec'' (read_pos L)) (\<lambda>sp.
     rbind (field d ''solution_count'' (read_pos_int L)) (\<lambda>n.
     rbind (field d ''force_limit'' (read_pos L)) (\<lambda>f.
     rbind (no_extra RESULT_FIELDS d) (\<lambda>_.
       Inr \<lparr>pr_task_id = tid, pr_reference_source = src, pr_joint_target = tgt,
            pr_joint_trajectory = tr, pr_duration_sec = du, pr_sample_period_sec = sp,
            pr_solution_count = n, pr_force_limit = f\<rparr>)))))))))))))"

text \<open>\<open>result.model_dump()\<close>: the literal fields are what they must have been.\<close>

definition dump_result :: "plan_result \<Rightarrow> pydict" where
  "dump_result r =
     [(''task_id'', PStr (pr_task_id r)), (''phase'', PStr ''planned''), (''is_success'', PBool True),
      (''executed'', PBool False), (''execution_mode'', PStr ''plan_only''),
      (''reference_source'', PStr (pr_reference_source r)),
      (''joint_target'', floats (pr_joint_target r)),
      (''joint_trajectory'', PList (map floats (pr_joint_trajectory r))),
      (''duration_sec'', PFloat (pr_duration_sec r)),
      (''sample_period_sec'', PFloat (pr_sample_period_sec r)),
      (''solution_count'', PInt (pr_solution_count r)), (''force_limit'', PFloat (pr_force_limit r))]"

text \<open>What a validated result satisfies.\<close>

definition result_shape :: "plan_result \<Rightarrow> bool" where
  "result_shape r \<longleftrightarrow>
     length (pr_joint_target r) = 6 \<and> list_all isfinite (pr_joint_target r)
     \<and> 2 \<le> length (pr_joint_trajectory r) \<and> length (pr_joint_trajectory r) \<le> 4096
     \<and> list_all (\<lambda>p. length p = 6 \<and> list_all isfinite p) (pr_joint_trajectory r)
     \<and> isfinite (pr_duration_sec r) \<and> Fin 0 < pr_duration_sec r
     \<and> isfinite (pr_sample_period_sec r) \<and> Fin 0 < pr_sample_period_sec r
     \<and> 0 < pr_solution_count r \<and> isfinite (pr_force_limit r) \<and> Fin 0 < pr_force_limit r
     \<and> pr_reference_source r \<in> {''request'', ''config''}"

lemma read_floats_finite:
  assumes "strict_numbers L" "read_floats L v = Some fs"
  shows "list_all isfinite fs"
  using assms by (cases v) (auto simp: opt_map_floats_finite)

lemma validate_trajectory_Inr [res_simps]:
  "validate_trajectory tr = Inr tr' \<longleftrightarrow> tr' = tr \<and> list_all (\<lambda>p. length p = 6) tr"
  by (auto simp: validate_trajectory_def list_ex_iff list_all_iff)

lemma read_pos_finite: "strict_numbers L \<Longrightarrow> read_pos L v = Some f \<Longrightarrow> isfinite f \<and> Fin 0 < f"
  by (auto dest: read_pos_Some strict_numbersD(2))

lemma read_pos_int_Some: "read_pos_int L v = Some i \<Longrightarrow> 0 < i"
  by (auto simp: read_pos_int_def split: option.splits if_splits)

lemma read_joints:
  "strict_numbers L \<Longrightarrow> read_list (lib_float L) 6 6 v = Some fs \<Longrightarrow> length fs = 6 \<and> list_all isfinite fs"
  using read_list_length [of "lib_float L" 6 6 v fs] read_list_floats_finite [of L 6 6 v fs] by auto

lemma read_traj:
  assumes L: "strict_numbers L" and r: "read_list (read_floats L) 2 4096 v = Some tr"
  shows "2 \<le> length tr \<and> length tr \<le> 4096 \<and> list_all (list_all isfinite) tr"
  using read_list_length [OF r] r read_floats_finite [OF L]
  by (auto simp: read_list_Some_iff list_all_iff dest: opt_map_set)

lemma list_all_conj: "list_all (\<lambda>x. P x \<and> Q x) xs \<longleftrightarrow> list_all P xs \<and> list_all Q xs"
  by (auto simp: list_all_iff)

text \<open>A validated result came from a dictionary with exactly these fields, and has that shape.\<close>

lemma validate_plan_result_InrD:
  assumes "validate_plan_result L d = Inr r"
  shows "dget d ''phase'' = Some (PStr ''planned'')"
    and "dget d ''is_success'' = Some (PBool True)"
    and "dget d ''executed'' = Some (PBool False)"
    and "dget d ''execution_mode'' = Some (PStr ''plan_only'')"
    and "dget d ''task_id'' = Some (PStr (pr_task_id r))"
    and "dget d ''reference_source'' = Some (PStr (pr_reference_source r))"
    and "set (dkeys d) \<subseteq> set RESULT_FIELDS"
    and "strict_numbers L \<Longrightarrow> result_shape r"
proof -
  note A = assms [unfolded validate_plan_result_def res_simps no_extra_def]
  show "dget d ''phase'' = Some (PStr ''planned'')" using A by (auto simp: read_choice_Some)
  show "dget d ''is_success'' = Some (PBool True)" using A by (auto simp: validate_flags_Some)
  show "dget d ''executed'' = Some (PBool False)" using A by (auto simp: validate_flags_Some)
  show "dget d ''execution_mode'' = Some (PStr ''plan_only'')" using A by (auto simp: read_choice_Some)
  show "dget d ''task_id'' = Some (PStr (pr_task_id r))"
    using A by (auto elim!: read_str.elims)
  show "dget d ''reference_source'' = Some (PStr (pr_reference_source r))"
    using A by (auto simp: read_choice_Some)
  show "set (dkeys d) \<subseteq> set RESULT_FIELDS" using A by blast
  show "result_shape r" if L: "strict_numbers L"
  proof -
    have "\<exists>v. read_list (lib_float L) 6 6 v = Some (pr_joint_target r)" using A by auto
    moreover have "\<exists>v. read_list (read_floats L) 2 4096 v = Some (pr_joint_trajectory r)
        \<and> list_all (\<lambda>p. length p = 6) (pr_joint_trajectory r)" using A by auto
    moreover have "\<exists>v. read_pos L v = Some (pr_duration_sec r)" using A by auto
    moreover have "\<exists>v. read_pos L v = Some (pr_sample_period_sec r)" using A by auto
    moreover have "\<exists>v. read_pos_int L v = Some (pr_solution_count r)" using A by auto
    moreover have "\<exists>v. read_pos L v = Some (pr_force_limit r)" using A by auto
    moreover have "pr_reference_source r \<in> {''request'', ''config''}"
      using A by (auto simp: read_choice_Some)
    ultimately show ?thesis
      unfolding result_shape_def
      using read_pos_finite [OF L] read_joints [OF L] read_traj [OF L] read_pos_int_Some
      by (simp add: list_all_conj) blast
  qed
qed

end
