(* ===== verification/ConfigLoader.thy ===== *)
theory ConfigLoader
  imports Protocol
begin

text \<open>
  \<open>common/config_loader.py\<close>: the environment switch and the two-level merge of
  \<open>base.json\<close> with the environment's file. Files are a function from paths to their bytes.
\<close>

section \<open>Environment\<close>

definition DEFAULT_ENV :: string where "DEFAULT_ENV = ''sim''"

definition VALID_ENVS :: "string list" where
  "VALID_ENVS = [''dev'', ''sim'', ''real'']"

definition BASE_CONFIG_NAME :: string where "BASE_CONFIG_NAME = ''base.json''"

text \<open>\<open>environ\<close> is the value of \<open>VISRL_ENV\<close>, \<open>None\<close> when it is not set.\<close>

definition get_current_env :: "string option \<Rightarrow> string res" where
  "get_current_env environ =
     (let env = (case environ of None \<Rightarrow> DEFAULT_ENV | Some e \<Rightarrow> e)
      in if env \<notin> set VALID_ENVS then Inl ValueError else Inr env)"

section \<open>Merging\<close>

text \<open>\<open>_deep_merge\<close>: the loop over \<open>override.items()\<close>, with the nested call on two dictionaries.\<close>

fun deep_merge :: "pydict \<Rightarrow> pydict \<Rightarrow> pydict" where
  "deep_merge merged [] = merged"
| "deep_merge merged ((key, PDict value) # rest) =
     (case dget merged key of
        Some (PDict old) \<Rightarrow> deep_merge (dset key (PDict (deep_merge old value)) merged) rest
      | _ \<Rightarrow> deep_merge (dset key (PDict value) merged) rest)"
| "deep_merge merged ((key, value) # rest) = deep_merge (dset key value merged) rest"

section \<open>Loading\<close>

text \<open>\<open>os.path.join(a, b)\<close> on POSIX paths, for two components.\<close>

definition path_join :: "string \<Rightarrow> string \<Rightarrow> string" where
  "path_join a b =
     (if take 1 b = ''/'' then b
      else if a = [] \<or> last a = CHR ''/'' then a @ b else a @ ''/'' @ b)"

type_synonym files = "string \<Rightarrow> string option"

text \<open>\<open>json.load\<close> of an open file: decoding, then parsing.\<close>

definition load_json :: "string \<Rightarrow> pyval res" where
  "load_json bytes = (if \<not> valid_utf8 bytes then Inl UnicodeDecodeError else loads bytes)"

text \<open>
  A configuration file holds a JSON object; for another value the merge or the final assignment
  fails with \<open>TypeError\<close> or \<open>AttributeError\<close>, here one \<open>TypeError\<close>.
\<close>

definition load_object :: "string \<Rightarrow> pydict res" where
  "load_object bytes =
     rbind (load_json bytes) (\<lambda>v. case v of PDict d \<Rightarrow> Inr d | _ \<Rightarrow> Inl TypeError)"

definition load_config :: "files \<Rightarrow> string option \<Rightarrow> string \<Rightarrow> string \<Rightarrow> pydict res" where
  "load_config fs environ config_dir env0 =
     rbind (if env0 = [] then get_current_env environ else Inr env0) (\<lambda>env.
       if env \<notin> set VALID_ENVS then Inl ValueError
       else (case fs (path_join config_dir BASE_CONFIG_NAME) of
          None \<Rightarrow> Inl FileNotFoundError
        | Some base \<Rightarrow>
            rbind (load_object base) (\<lambda>config.
            rbind (case fs (path_join config_dir (env @ ''.json'')) of
                     None \<Rightarrow> Inr config
                   | Some over \<Rightarrow> rbind (load_object over) (\<lambda>ov. Inr (deep_merge config ov))) (\<lambda>merged.
              Inr (dset ''env'' (PStr env) merged)))))"

section \<open>What the merge gives\<close>

text \<open>One key of the merge of two values, the specification of the loop.\<close>

fun merge_val :: "pyval option \<Rightarrow> pyval option \<Rightarrow> pyval option" where
  "merge_val b None = b"
| "merge_val (Some (PDict x)) (Some (PDict y)) = Some (PDict (deep_merge x y))"
| "merge_val b (Some v) = Some v"

lemma deep_merge_step:
  "deep_merge m ((k, v) # rest) = deep_merge (dset k (the (merge_val (dget m k) (Some v))) m) rest"
  by (cases v; cases "dget m k"; cases "the (dget m k)") auto

lemma merge_val_Some: "\<exists>w. merge_val b (Some v) = Some w"
  by (cases b; cases v; cases "the b") auto

lemma dget_deep_merge:
  "distinct (dkeys ov) \<Longrightarrow> dget (deep_merge m ov) k = merge_val (dget m k) (dget ov k)"
proof (induction ov arbitrary: m)
  case Nil
  then show ?case by simp
next
  case (Cons p rest)
  obtain j v where p: "p = (j, v)" by fastforce
  obtain w where w: "merge_val (dget m j) (Some v) = Some w" using merge_val_Some by blast
  have "dget (deep_merge m (p # rest)) k = merge_val (dget (dset j w m) k) (dget rest k)"
    unfolding p deep_merge_step using Cons w by (auto simp: p)
  moreover have "dget rest j = None" using Cons.prems by (simp add: p dget_None_iff)
  ultimately show ?case
    using w by (cases "k = j") (auto simp: p dict_simps)
qed

text \<open>Nested dictionaries addressed by a path of keys.\<close>

fun at_path :: "pyval \<Rightarrow> string list \<Rightarrow> pyval option" where
  "at_path v [] = Some v"
| "at_path (PDict d) (k # ks) = (case dget d k of None \<Rightarrow> None | Some w \<Rightarrow> at_path w ks)"
| "at_path _ (k # ks) = None"

text \<open>The first key of the path at which the two configurations do not both nest decides.\<close>

fun merged_path :: "pyval \<Rightarrow> pyval \<Rightarrow> string list \<Rightarrow> pyval option" where
  "merged_path (PDict b) (PDict ov) (k # ks) =
     (case (dget b k, dget ov k) of
        (x, None) \<Rightarrow> Option.bind x (\<lambda>w. at_path w ks)
      | (None, Some v) \<Rightarrow> at_path v ks
      | (Some (PDict x), Some (PDict y)) \<Rightarrow>
          (if ks = [] then Some (PDict (deep_merge x y)) else merged_path (PDict x) (PDict y) ks)
      | (Some _, Some v) \<Rightarrow> at_path v ks)"
| "merged_path b v ks = at_path v ks"

lemma at_path_deep_merge:
  assumes "val_ok (PDict ov)" "ks \<noteq> []"
  shows "at_path (PDict (deep_merge b ov)) ks = merged_path (PDict b) (PDict ov) ks"
  using assms
proof (induction ks arbitrary: b ov)
  case Nil
  then show ?case by simp
next
  case (Cons k ks)
  have d: "dget (deep_merge b ov) k = merge_val (dget b k) (dget ov k)"
    using Cons.prems by (intro dget_deep_merge) simp
  have sub: "dget ov k = Some (PDict y) \<Longrightarrow> val_ok (PDict y)" for y
    using val_ok_dget Cons.prems(1) by blast
  show ?case
  proof (cases "\<exists>x y. dget b k = Some (PDict x) \<and> dget ov k = Some (PDict y)")
    case True
    then obtain x y where xy: "dget b k = Some (PDict x)" "dget ov k = Some (PDict y)" by blast
    then show ?thesis using d Cons.IH [OF sub [OF xy(2)]] by (cases ks) auto
  next
    case False
    then show ?thesis
      using d by (cases "dget ov k"; cases "dget b k"; cases "the (dget b k)"; cases "the (dget ov k)") auto
  qed
qed

text \<open>A path whose value the override sets to something other than an object is overridden.\<close>

lemma at_path_append: "at_path v (ks @ ls) = Option.bind (at_path v ks) (\<lambda>w. at_path w ls)"
  by (induction v ks rule: at_path.induct) (auto split: option.splits)

lemma merged_path_override:
  "at_path ov ks = Some v \<Longrightarrow> \<not> is_dict v \<Longrightarrow> merged_path b ov ks = Some v"
  by (induction b ov ks rule: merged_path.induct)
    (auto split: option.splits pyval.splits if_splits)

text \<open>A path the override does not reach keeps the base value.\<close>

fun untouched :: "pyval \<Rightarrow> string list \<Rightarrow> bool" where
  "untouched (PDict ov) (k # ks) =
     (case dget ov k of None \<Rightarrow> True | Some w \<Rightarrow> ks \<noteq> [] \<and> untouched w ks)"
| "untouched _ _ = False"

lemma untouched_Nil [simp]: "\<not> untouched v []"
  by (cases v) auto

lemma merged_path_base:
  "untouched ov ks \<Longrightarrow> at_path b ks = Some v \<Longrightarrow> merged_path b ov ks = Some v"
proof (induction b ov ks rule: merged_path.induct)
  case (1 b ov k ks)
  then show ?case
    by (cases "dget b k"; cases "dget ov k"; cases "the (dget b k)"; cases "the (dget ov k)"; cases ks) auto
qed (case_tac ks; auto)+

lemma load_config_InrD:
  assumes "load_config fs environ dir e = Inr c"
  obtains base cfg env where "env \<in> set VALID_ENVS" "fs (path_join dir BASE_CONFIG_NAME) = Some base"
    "load_object base = Inr cfg" "dget c ''env'' = Some (PStr env)" "e \<noteq> [] \<Longrightarrow> env = e"
    "fs (path_join dir (env @ ''.json'')) = None \<Longrightarrow> c = dset ''env'' (PStr env) cfg"
    "\<And>over. fs (path_join dir (env @ ''.json'')) = Some over \<Longrightarrow>
       \<exists>ov. load_object over = Inr ov \<and> c = dset ''env'' (PStr env) (deep_merge cfg ov)"
  using assms
  by (fastforce simp: load_config_def res_simps dict_simps split: if_splits option.splits)

end
