(* ===== verification/Settings.thy ===== *)
theory Settings
  imports ConfigLoader
begin

text \<open>
  \<open>backend/config/settings.py\<close>: the checks that decide whether the gateway may start, and the
  settings the other components read. The limits and the reference angles come from the embedded
  model's files.
\<close>

section \<open>The settings\<close>

text \<open>The three vectors keep the numbers of the JSON files, integers or floats.\<close>

record settings =
  database_path :: string
  log_path :: string
  plan_timeout :: pyfloat
  maximum_force :: pyfloat
  initial_joints :: "pyval list"
  joint_min :: "pyval list"
  joint_max :: "pyval list"

section \<open>Helpers\<close>

text \<open>\<open>path / part\<close> and \<open>path.parent\<close> of \<open>pathlib\<close>, on POSIX path texts.\<close>

fun path_div :: "string \<Rightarrow> pyval \<Rightarrow> string res" where
  "path_div p (PStr s) = Inr (path_join p s)"
| "path_div p _ = Inl TypeError"

definition path_parent :: "string \<Rightarrow> string" where
  "path_parent p =
     (if CHR ''/'' \<notin> set p then ''.''
      else (let d = rev (tl (dropWhile (\<lambda>c. c \<noteq> CHR ''/'') (rev p))) in if d = [] then ''/'' else d))"

text \<open>\<open>math.isfinite(v)\<close> of a number: an integer too large for a float overflows.\<close>

definition num_isfinite :: "pyval \<Rightarrow> bool res" where
  "num_isfinite v = rbind (to_float v) (\<lambda>f. Inr (isfinite f))"

text \<open>\<open>isinstance(v, bool) or not isinstance(v, (int, float)) or not math.isfinite(v)\<close>.\<close>

definition not_finite_number :: "pyval \<Rightarrow> bool res" where
  "not_finite_number v =
     (if \<not> is_number v then Inr True else rbind (num_isfinite v) (\<lambda>b. Inr (\<not> b)))"

text \<open>\<open>any(...)\<close> over a list: the first true or raising element ends it.\<close>

fun rany :: "('a \<Rightarrow> bool res) \<Rightarrow> 'a list \<Rightarrow> bool res" where
  "rany f [] = Inr False"
| "rany f (x # xs) = rbind (f x) (\<lambda>b. if b then Inr True else rany f xs)"

definition check_vector :: "pyval \<Rightarrow> pyval list res" where
  "check_vector v =
     (case v of
        PList vs \<Rightarrow>
          if length vs \<noteq> 6 then Inl ValueError
          else rbind (rany not_finite_number vs) (\<lambda>b. if b then Inl ValueError else Inr vs)
      | _ \<Rightarrow> Inl ValueError)"

text \<open>\<open>low >= high or not low <= angle <= high\<close>, compared exactly.\<close>

definition bad_limit :: "pyval \<times> pyval \<times> pyval \<Rightarrow> bool" where
  "bad_limit = (\<lambda>(angle, low, high).
     exact high \<le> exact low \<or> \<not> (exact low \<le> exact angle \<and> exact angle \<le> exact high))"

text \<open>One of the two listening addresses.\<close>

definition check_listen :: "pydict \<Rightarrow> string \<Rightarrow> unit res" where
  "check_listen config name =
     rbind (getitem config name) (\<lambda>value.
     rbind (subscript value ''host'') (\<lambda>h.
       if \<not> is_str h \<or> \<not> truthy h then Inl ValueError
       else rbind (subscript value ''port'') (\<lambda>p.
         case p of PInt n \<Rightarrow> if 0 \<le> n \<and> n \<le> 65535 then Inr () else Inl ValueError
         | _ \<Rightarrow> Inl ValueError)))"

definition nonempty_str :: "pyval \<Rightarrow> string res" where
  "nonempty_str v = (case v of PStr s \<Rightarrow> if s = [] then Inl ValueError else Inr s | _ \<Rightarrow> Inl ValueError)"

text \<open>The \<open>env\<close> argument handed on to \<open>load_config\<close>: a value that is no string is no valid environment.\<close>

fun env_text :: "pyval \<Rightarrow> string" where
  "env_text (PStr s) = s"
| "env_text v = (if truthy v then ''?'' else [])"

section \<open>from\_config\<close>

definition is_false :: "pyval option \<Rightarrow> bool" where
  "is_false v \<longleftrightarrow> v = Some (PBool False)"

definition read_motion :: "files \<Rightarrow> string option \<Rightarrow> string \<Rightarrow> pydict \<Rightarrow> pyval \<Rightarrow> (pydict \<times> pydict) res" where
  "read_motion fs environ repo_root config gateway =
     rbind (rbind (subscript gateway ''motion_config_file'') (path_div repo_root)) (\<lambda>motion_path.
     rbind (load_config fs environ (path_parent motion_path)
              (env_text (get_or config ''env'' (PStr ''sim'')))) (\<lambda>motion.
       if \<not> is_false (dget motion ''enable_hardware'')
          \<or> dget motion ''execution_mode'' \<noteq> Some (PStr ''plan_only'') then Inl ValueError
       else rbind (rbind (getitem motion ''model_file'') (path_div (path_parent motion_path))) (\<lambda>model_path.
         case fs model_path of
           None \<Rightarrow> Inl FileNotFoundError
         | Some bytes \<Rightarrow> rbind (load_object bytes) (\<lambda>model. Inr (motion, model)))))"

definition check_force :: "pyval \<Rightarrow> pyfloat res" where
  "check_force force =
     rbind (not_finite_number force) (\<lambda>b.
       if b \<or> \<not> Fin 0 < exact force then Inl ValueError else to_float force)"

definition from_config :: "files \<Rightarrow> string option \<Rightarrow> string \<Rightarrow> pydict \<Rightarrow> settings res" where
  "from_config fs environ repo_root config =
     rbind (getitem config ''gateway'') (\<lambda>gateway.
     if \<not> is_false (dget config ''enable_hardware'') then Inl ValueError
     else rbind (subscript gateway ''execution_mode'') (\<lambda>mode.
     if mode \<noteq> PStr ''plan_only'' then Inl ValueError
     else rbind (subscript gateway ''plan_timeout_sec'') (\<lambda>timeout.
     if \<not> is_number timeout \<or> \<not> (Fin 0 < exact timeout \<and> exact timeout \<le> Fin 600) then Inl ValueError
     else rbind (read_motion fs environ repo_root config gateway) (\<lambda>(motion, model).
     rbind (rbind (getitem motion ''initial_joint_angles'') Inr) (\<lambda>v0.
     rbind (getitem model ''joint_min'') (\<lambda>v1.
     rbind (getitem model ''joint_max'') (\<lambda>v2.
     rbind (check_vector v0) (\<lambda>initial. rbind (check_vector v1) (\<lambda>minimum. rbind (check_vector v2) (\<lambda>maximum.
     if list_ex bad_limit (zip initial (zip minimum maximum)) then Inl ValueError
     else rbind (rbind (getitem motion ''max_force_limit'') check_force) (\<lambda>force.
     rbind (check_listen config ''server'') (\<lambda>_.
     rbind (check_listen config ''api'') (\<lambda>_.
     rbind (rbind (rbind (getitem config ''database'') (\<lambda>d. subscript d ''path'')) nonempty_str) (\<lambda>database.
     rbind (rbind (getitem config ''log_file'') nonempty_str) (\<lambda>log_file.
     rbind (to_float timeout) (\<lambda>tmo.
       Inr \<lparr>database_path = path_join repo_root database, log_path = path_join repo_root log_file,
            plan_timeout = tmo, maximum_force = force, initial_joints = initial,
            joint_min = minimum, joint_max = maximum\<rparr>))))))))))))))))"

section \<open>What accepted settings satisfy\<close>

definition finite_number :: "pyval \<Rightarrow> bool" where
  "finite_number v \<longleftrightarrow> is_number v \<and> isfinite (exact v) \<and> (\<exists>f. to_float v = Inr f \<and> isfinite f)"

definition settings_ok :: "settings \<Rightarrow> bool" where
  "settings_ok s \<longleftrightarrow>
     length (initial_joints s) = 6 \<and> length (joint_min s) = 6 \<and> length (joint_max s) = 6
     \<and> list_all finite_number (initial_joints s) \<and> list_all finite_number (joint_min s)
     \<and> list_all finite_number (joint_max s)
     \<and> (\<forall>i < 6. exact (joint_min s ! i) < exact (joint_max s ! i)
          \<and> exact (joint_min s ! i) \<le> exact (initial_joints s ! i)
          \<and> exact (initial_joints s ! i) \<le> exact (joint_max s ! i))
     \<and> Fin 0 < maximum_force s \<and> isfinite (maximum_force s)
     \<and> isfinite (plan_timeout s) \<and> plan_timeout s \<le> Fin 600"

lemma not_finite_number_False: "not_finite_number v = Inr False \<longleftrightarrow> finite_number v"
  by (cases v)
    (auto simp: not_finite_number_def num_isfinite_def finite_number_def res_simps isfinite_iff)

lemma rany_False: "rany f xs = Inr False \<longleftrightarrow> list_all (\<lambda>x. f x = Inr False) xs"
  by (induction xs) (auto simp: res_simps split: if_splits)

lemma check_vector_Inr [res_simps]:
  "check_vector v = Inr vs \<longleftrightarrow> v = PList vs \<and> length vs = 6 \<and> list_all finite_number vs"
  by (cases v) (auto simp: check_vector_def res_simps rany_False not_finite_number_False split: if_splits)

lemma not_bad_limit:
  "\<not> bad_limit (a, l, h) \<Longrightarrow> finite_number l \<Longrightarrow> finite_number h \<Longrightarrow>
   exact l < exact h \<and> exact l \<le> exact a \<and> exact a \<le> exact h"
  by (auto simp: bad_limit_def finite_number_def not_le_finite)

lemma rat_max_pos:
  assumes "Fin 0 < exact v" "to_float v = Inr f" "isfinite f" "is_number v"
  shows "Fin 0 < f"
proof (cases v)
  case (PInt i)
  then have "0 < i" using assms by simp
  then have "round53 (of_int i) \<ge> round53 1" by (intro round53_mono) simp
  moreover have "round53 1 = 1" using round53_exact [of 1 1 0] ilog_eqI [of 2 0 1] by (simp add: ulp_exp_def)
  ultimately have "1 \<le> round53 (of_int i)" by simp
  then show ?thesis using assms PInt \<open>0 < i\<close>
    by (auto simp: f64_def Let_def split: if_splits)
qed (use assms in auto)

lemma check_force_Inr:
  assumes "check_force v = Inr f"
  shows "Fin 0 < f \<and> isfinite f"
proof -
  have v: "finite_number v" "Fin 0 < exact v" "to_float v = Inr f"
    using assms by (auto simp: check_force_def res_simps not_finite_number_False split: if_splits)
  then have "isfinite f" "is_number v" by (auto simp: finite_number_def)
  with v show ?thesis using rat_max_pos by blast
qed

lemma timeout_to_float:
  assumes "is_number v" "Fin 0 < exact v" "exact v \<le> Fin 600" "to_float v = Inr f"
  shows "isfinite f \<and> f \<le> Fin 600 \<and> Fin 0 < f"
proof (cases v)
  case (PInt i)
  then have "0 < i" "i \<le> 600" using assms by simp_all
  then have "f64 (of_int i) = Fin (of_int i)" by (intro f64_of_int) simp
  then have "f = Fin (of_int i)" using assms(4) PInt by simp
  then show ?thesis using assms PInt by simp
next
  case (PFloat g)
  then show ?thesis using assms by (cases g) auto
qed (use assms in auto)

text \<open>
  Everything the start-up checks guarantee: the settings are within range and the configuration
  asks for planning only.
\<close>

lemma from_config_InrD:
  assumes "from_config fs environ repo_root config = Inr s"
  shows "settings_ok s" and "Fin 0 < plan_timeout s"
    and "dget config ''enable_hardware'' = Some (PBool False)"
    and "\<exists>gw. dget config ''gateway'' = Some gw \<and> subscript gw ''execution_mode'' = Inr (PStr ''plan_only'')"
proof -
  obtain gw tmo v0 v1 v2 ini mn mx force where A:
    "dget config ''gateway'' = Some gw" "is_false (dget config ''enable_hardware'')"
    "subscript gw ''execution_mode'' = Inr (PStr ''plan_only'')"
    "is_number tmo" "Fin 0 < exact tmo" "exact tmo \<le> Fin 600"
    "check_vector v0 = Inr ini" "check_vector v1 = Inr mn" "check_vector v2 = Inr mx"
    "\<not> list_ex bad_limit (zip ini (zip mn mx))" "\<exists>v. check_force v = Inr force"
    "to_float tmo = Inr (plan_timeout s)" "maximum_force s = force" "initial_joints s = ini"
    "joint_min s = mn" "joint_max s = mx"
    using assms unfolding from_config_def res_simps
    by (clarsimp simp: res_simps split_beta split: if_splits) blast
  note B = A(7-9) [unfolded check_vector_Inr]
  have "exact (mn ! i) < exact (mx ! i) \<and> exact (mn ! i) \<le> exact (ini ! i) \<and> exact (ini ! i) \<le> exact (mx ! i)"
    if "i < 6" for i
  proof (rule not_bad_limit)
    have "(ini ! i, mn ! i, mx ! i) \<in> set (zip ini (zip mn mx))"
      using B that by (force simp: set_zip)
    then show "\<not> bad_limit (ini ! i, mn ! i, mx ! i)" using A(10) by (auto simp: list_ex_iff)
    show "finite_number (mn ! i)" "finite_number (mx ! i)"
      using B that by (auto simp: list_all_length)
  qed
  then show "settings_ok s"
    using A B check_force_Inr timeout_to_float [OF A(4-6) A(12)] by (auto simp: settings_ok_def)
  show "Fin 0 < plan_timeout s" using timeout_to_float [OF A(4-6) A(12)] by simp
  show "dget config ''enable_hardware'' = Some (PBool False)" using A by (simp add: is_false_def)
  show "\<exists>gw. dget config ''gateway'' = Some gw \<and> subscript gw ''execution_mode'' = Inr (PStr ''plan_only'')"
    using A by blast
qed

section \<open>Where the limits come from\<close>

text \<open>Where the gateway finds the arm's model: next to the motion configuration, which names it.\<close>

definition config_model_path :: "files \<Rightarrow> string option \<Rightarrow> string \<Rightarrow> pydict \<Rightarrow> string res" where
  "config_model_path fs environ repo_root config =
     rbind (getitem config ''gateway'') (\<lambda>gateway.
     rbind (rbind (subscript gateway ''motion_config_file'') (path_div repo_root)) (\<lambda>motion_path.
     rbind (load_config fs environ (path_parent motion_path) (env_text (get_or config ''env'' (PStr ''sim'')))) (\<lambda>motion.
     rbind (getitem motion ''model_file'') (path_div (path_parent motion_path)))))"

lemma from_config_model:
  assumes "from_config fs environ repo_root config = Inr S" "config_model_path fs environ repo_root config = Inr p"
  shows "\<exists>body model. fs p = Some body \<and> load_object body = Inr model
    \<and> dget model ''joint_min'' = Some (PList (joint_min S)) \<and> dget model ''joint_max'' = Some (PList (joint_max S))"
proof -
  obtain gw motion model v1 v2 where A: "dget config ''gateway'' = Some gw"
    "read_motion fs environ repo_root config gw = Inr (motion, model)"
    "dget model ''joint_min'' = Some v1" "dget model ''joint_max'' = Some v2"
    "check_vector v1 = Inr (joint_min S)" "check_vector v2 = Inr (joint_max S)"
    using assms(1) unfolding from_config_def res_simps
    by (clarsimp simp: res_simps split_beta split: if_splits)
  have "\<exists>body. fs p = Some body \<and> load_object body = Inr model"
    using A(1,2) assms(2) unfolding read_motion_def config_model_path_def
    by (auto simp: res_simps split: if_splits option.splits)
  then show ?thesis using A(3-6) by (auto simp: check_vector_Inr)
qed

end
