(* ===== verification/RobotService.thy ===== *)
theory RobotService
  imports KinematicsAdapter RobotRequest Settings
begin

text \<open>
  \<open>backend/app/service/robot_service.py\<close>: the only entry to planning. Submission, the worker
  that runs one plan, and closing are coroutines; each is split at its \<open>await\<close>s into steps that
  run without interruption, and what the coroutine holds between two steps is part of the state.
  What the environment decides (did a database thread succeed, was a send drained) is an argument.
\<close>

section \<open>State\<close>

text \<open>\<open>GatewayError\<close>, an exception of the database or a library, or cancellation.\<close>

datatype gexc = GatewayError int int string | PyError pyexc | Cancelled

text \<open>
  Where the worker \<open>_run\<close> is: created, waiting for the send lock of the motion module's connection
  (future, connection, message), for the drain of its send, for the future, for
  \<open>repository.finish\<close>, for \<open>repository.get\<close>, or over.
\<close>

datatype phase =
    WCreated
  | WQueued nat nat message
  | WSending nat nat
  | WWaiting nat
  | WSaving string "pydict option" "pydict option"
  | WNotifying
  | WDone

text \<open>The worker with its arguments; \<open>w_cb\<close> is the detection task \<open>on_finished\<close> closes over.\<close>

record run =
  w_task :: string
  w_payload :: pydict
  w_cb :: "nat option"
  w_phase :: phase

text \<open>
  The submission lock and what its holder waits for: \<open>create\<close> (with a flag, whether the caller
  was cancelled), \<open>finish\<close> of a cancelled submission, or the steps of \<open>close\<close>.
\<close>

datatype submission =
    LFree
  | LCreating string pydict "nat option" bool
  | LAborting string "nat option"
  | LClosing

record robot = adapter +
  active_id :: "string option"
  worker :: "run option"
  closing :: bool
  sub_lock :: submission
  db :: table

definition TEXT_FORCE :: string where (* grip force above the configured maximum *)
  "TEXT_FORCE = utf8 [0x5939, 0x6301, 0x529B, 0x8D85, 0x8FC7, 0x914D, 0x7F6E, 0x4E0A, 0x9650]"
definition TEXT_LIMIT :: string where (* joint angle outside the limits of the model *)
  "TEXT_LIMIT = utf8 [0x5173, 0x8282, 0x89D2, 0x8D85, 0x8FC7, 0x6A21, 0x578B, 0x9650, 0x4F4D]"
definition TEXT_CLOSING :: string where (* gateway is closing *)
  "TEXT_CLOSING = utf8 [0x7F51, 0x5173, 0x6B63, 0x5728, 0x5173, 0x95ED]"
definition TEXT_BUSY :: string where (* a planning task is already running *)
  "TEXT_BUSY = utf8 [0x5DF2, 0x6709, 0x89C4, 0x5212, 0x4EFB, 0x52A1, 0x6B63, 0x5728, 0x8FD0, 0x884C]"
definition TEXT_NO_MOTION :: string where (* motion planning service not connected *)
  "TEXT_NO_MOTION = utf8 [0x8FD0, 0x52A8, 0x89C4, 0x5212, 0x670D, 0x52A1, 0x672A, 0x8FDE, 0x63A5]"
definition TEXT_CANCELLED :: string where (* submission cancelled, nothing was sent *)
  "TEXT_CANCELLED = utf8 [0x63D0, 0x4EA4, 0x8BF7, 0x6C42, 0x5DF2, 0x53D6, 0x6D88, 0xFF0C, 0x672A, 0x4E0B, 0x53D1, 0x89C4, 0x5212]"
definition TEXT_PLAN_STOPPED :: string where (* gateway closed, planning interrupted; not sent again *)
  "TEXT_PLAN_STOPPED = utf8 [0x7F51, 0x5173, 0x5173, 0x95ED, 0xFF0C, 0x89C4, 0x5212, 0x4E2D, 0x65AD, 0xFF1B, 0x672A, 0x91CD, 0x65B0, 0x4E0B, 0x53D1]"
definition TEXT_PLAN_TIMEOUT :: string where (* timed out waiting for the planning result *)
  "TEXT_PLAN_TIMEOUT = utf8 [0x7B49, 0x5F85, 0x89C4, 0x5212, 0x7ED3, 0x679C, 0x8D85, 0x65F6]"
definition TEXT_BAD_RESULT :: string where (* invalid planning result or internal error *)
  "TEXT_BAD_RESULT = utf8 [0x89C4, 0x5212, 0x7ED3, 0x679C, 0x6821, 0x9A8C, 0x5931, 0x8D25, 0x6216, 0x5185, 0x90E8, 0x5F02, 0x5E38]"
definition TEXT_STOPPED :: string where (* gateway closed, task interrupted; not sent again *)
  "TEXT_STOPPED = utf8 [0x7F51, 0x5173, 0x5173, 0x95ED, 0xFF0C, 0x4EFB, 0x52A1, 0x4E2D, 0x65AD, 0xFF1B, 0x672A, 0x91CD, 0x65B0, 0x4E0B, 0x53D1]"
definition TEXT_NO_TASK :: string where (* no such task *)
  "TEXT_NO_TASK = utf8 [0x4EFB, 0x52A1, 0x4E0D, 0x5B58, 0x5728]"

section \<open>Validation\<close>

text \<open>A number of the settings in float arithmetic; the settings hold none that overflows.\<close>

definition num :: "pyval \<Rightarrow> pyfloat" where
  "num v = (case to_float v of Inr f \<Rightarrow> f | Inl _ \<Rightarrow> NaN)"

definition LIMIT_EPS :: pyfloat where
  "LIMIT_EPS = f64 (1 / 10 ^ 9)"

definition outside :: "pyfloat \<Rightarrow> pyval \<times> pyval \<Rightarrow> bool" where
  "outside v = (\<lambda>(minimum, maximum).
     \<not> isfinite v \<or> v < num minimum - LIMIT_EPS \<or> num maximum + LIMIT_EPS < v)"

text \<open>\<open>_validate_limits\<close>: whether it returns without raising.\<close>

definition within_limits :: "settings \<Rightarrow> pyfloat list \<Rightarrow> bool" where
  "within_limits S angles \<longleftrightarrow> \<not> any_zip outside angles (zip (joint_min S) (joint_max S))"

definition MATCH_EPS :: pyfloat where
  "MATCH_EPS = f64 (1 / 10 ^ 7)"

definition differs :: "pyfloat \<Rightarrow> pyfloat \<Rightarrow> bool" where
  "differs x y \<longleftrightarrow> MATCH_EPS < \<bar>x - y\<bar>"

text \<open>\<open>payload.get("current\_joint\_angles", initial\_joints)\<close>.\<close>

definition reference_joints :: "settings \<Rightarrow> pydict \<Rightarrow> pyval list" where
  "reference_joints S payload =
     (case dget payload ''current_joint_angles'' of Some (PList vs) \<Rightarrow> vs | _ \<Rightarrow> initial_joints S)"

text \<open>\<open>_validate_result\<close>; every exception is a refusal for its caller.\<close>

definition validate_result ::
  "'l lib_scheme \<Rightarrow> settings \<Rightarrow> pydict \<Rightarrow> pydict \<Rightarrow> pydict res" where
  "validate_result L S d payload =
     rbind (validate_plan_result L d) (\<lambda>r.
     let expected_source = (if dget payload ''current_joint_angles'' \<noteq> None then ''request'' else ''config'');
         traj = pr_joint_trajectory r
     in if pr_reference_source r \<noteq> expected_source then Inl ValueError
        else if list_ex (\<lambda>p. \<not> within_limits S p) (pr_joint_target r # traj) then Inl ValueError
        else if any_zip differs (hd traj) (map num (reference_joints S payload)) then Inl ValueError
        else if any_zip differs (last traj) (pr_joint_target r) then Inl ValueError
        else rbind (fdiv (pr_duration_sec r) (f64 (of_nat (length traj - 1)))) (\<lambda>expected_period.
          if \<not> isclose expected_period (pr_sample_period_sec r) (f64 (1 / 10 ^ 7)) (f64 (1 / 10 ^ 9))
          then Inl ValueError
          else if \<not> feq (pr_force_limit r) (num (get_or payload ''force_limit'' PNone)) then Inl ValueError
          else Inr (dump_result r)))"

section \<open>status\<close>

definition robot_status :: "settings \<Rightarrow> 'a robot_scheme \<Rightarrow> pydict" where
  "robot_status S s =
     [(''motion_online'', PBool (motion_online s)), (''controller_connected'', PBool False),
      (''execution_mode'', PStr ''plan_only''), (''busy'', PBool (active_id s \<noteq> None)),
      (''active_task_id'', case active_id s of None \<Rightarrow> PNone | Some t \<Rightarrow> PStr t),
      (''current_joint_angles'', PNone), (''feedback_source'', PStr ''unavailable''),
      (''planning_reference'', PList (initial_joints S))]"

section \<open>submit\<close>

text \<open>The checks before the lock.\<close>

definition submit_check :: "settings \<Rightarrow> plan_request \<Rightarrow> gexc + unit" where
  "submit_check S rq =
     (if maximum_force S < rq_force_limit rq then Inl (GatewayError 422 INVALID_PARAM TEXT_FORCE)
      else case rq_joint_angles rq of
             None \<Rightarrow> Inr ()
           | Some js \<Rightarrow>
               if within_limits S js then Inr () else Inl (GatewayError 422 INVALID_PARAM TEXT_LIMIT))"

text \<open>With the lock, up to the \<open>await\<close> of \<open>create\<close>. A refusal leaves the lock as it entered.\<close>

definition submit_enter ::
  "string \<Rightarrow> plan_request \<Rightarrow> nat option \<Rightarrow> 'a robot_scheme \<Rightarrow> 'a robot_scheme \<times> (gexc + unit)" where
  "submit_enter tid rq cb s =
     (if closing s then (s, Inl (GatewayError 503 TARGET_OFFLINE TEXT_CLOSING))
      else if active_id s \<noteq> None then (s, Inl (GatewayError 409 ROBOT_BUSY TEXT_BUSY))
      else if \<not> motion_online s then (s, Inl (GatewayError 503 TARGET_OFFLINE TEXT_NO_MOTION))
      else (s\<lparr>active_id := Some tid, sub_lock := LCreating tid (dump_request rq) cb False\<rparr>, Inr ()))"

text \<open>A database thread: \<open>dbok\<close> is false when the database itself fails.\<close>

definition db_create :: "bool \<Rightarrow> int \<Rightarrow> string \<Rightarrow> pydict \<Rightarrow> table \<Rightarrow> table res" where
  "db_create dbok now tid rq t = (if dbok then create now tid rq t else Inl DatabaseError)"

definition db_finish ::
  "bool \<Rightarrow> int \<Rightarrow> string \<Rightarrow> string \<Rightarrow> pydict option \<Rightarrow> pydict option \<Rightarrow> table \<Rightarrow> table res" where
  "db_finish dbok now tid st rs er t =
     (if dbok then rmap_snd (finish now tid st rs er t) else Inl DatabaseError)"

text \<open>The submission leaves without a worker: \<open>_active_id\<close> is cleared, the lock released.\<close>

definition release_submission :: "'a robot_scheme \<Rightarrow> 'a robot_scheme" where
  "release_submission s = s\<lparr>active_id := None, sub_lock := LFree\<rparr>"

text \<open>\<open>create\<close> ended. The result is \<open>None\<close> when a cancelled caller now waits for \<open>finish\<close>.\<close>

definition submit_created ::
  "bool \<Rightarrow> int \<Rightarrow> 'a robot_scheme \<Rightarrow> 'a robot_scheme \<times> (gexc + string) option" where
  "submit_created dbok now s =
     (case sub_lock s of
        LCreating tid payload cb cancelled \<Rightarrow>
          (case db_create dbok now tid payload (db s) of
             Inl e \<Rightarrow> (release_submission s, Some (Inl (PyError e)))
           | Inr t \<Rightarrow>
               if cancelled then (s\<lparr>db := t, sub_lock := LAborting tid cb\<rparr>, None)
               else (s\<lparr>db := t, sub_lock := LFree,
                       worker := Some \<lparr>w_task = tid, w_payload = payload, w_cb = cb, w_phase = WCreated\<rparr>\<rparr>,
                     Some (Inr tid)))
      | _ \<Rightarrow> (s, None))"

text \<open>The caller is cancelled while \<open>create\<close> runs: \<open>shield\<close> keeps the thread.\<close>

definition submit_cancel :: "'a robot_scheme \<Rightarrow> 'a robot_scheme" where
  "submit_cancel s =
     (case sub_lock s of
        LCreating tid payload cb _ \<Rightarrow> s\<lparr>sub_lock := LCreating tid payload cb True\<rparr> | _ \<Rightarrow> s)"

text \<open>\<open>finish\<close> of a cancelled submission ended.\<close>

definition submit_aborted ::
  "bool \<Rightarrow> int \<Rightarrow> 'a robot_scheme \<Rightarrow> 'a robot_scheme \<times> (gexc + string) option" where
  "submit_aborted dbok now s =
     (case sub_lock s of
        LAborting tid cb \<Rightarrow>
          (case db_finish dbok now tid INTERRUPTED None (Some (error_dict 3001 TEXT_CANCELLED)) (db s) of
             Inl e \<Rightarrow> (release_submission s, Some (Inl (PyError e)))
           | Inr t \<Rightarrow> (release_submission (s\<lparr>db := t\<rparr>), Some (Inl Cancelled)))
      | _ \<Rightarrow> (s, None))"

text \<open>
  A second cancellation, in \<open>await operation\<close> or in the \<open>finish\<close> that follows it. The
  submission ends at once; the abandoned thread may still do its work (\<open>thr\<close>).
\<close>

definition submit_abandoned ::
  "bool \<Rightarrow> int \<Rightarrow> 'a robot_scheme \<Rightarrow> 'a robot_scheme \<times> (gexc + string) option" where
  "submit_abandoned thr now s =
     (case sub_lock s of
        LCreating tid payload cb True \<Rightarrow>
          (release_submission (case db_create thr now tid payload (db s) of
             Inl _ \<Rightarrow> s | Inr t \<Rightarrow> s\<lparr>db := t\<rparr>), Some (Inl Cancelled))
      | LAborting tid cb \<Rightarrow>
          (release_submission
             (case db_finish thr now tid INTERRUPTED None (Some (error_dict 3001 TEXT_CANCELLED)) (db s) of
                Inl _ \<Rightarrow> s | Inr t \<Rightarrow> s\<lparr>db := t\<rparr>), Some (Inl Cancelled))
      | _ \<Rightarrow> (s, None))"

section \<open>The worker\<close>

definition set_phase :: "phase \<Rightarrow> 'a robot_scheme \<Rightarrow> 'a robot_scheme" where
  "set_phase p s = s\<lparr>worker := map_option (\<lambda>w. w\<lparr>w_phase := p\<rparr>) (worker s)\<rparr>"

text \<open>The status, result and error the first \<open>try\<close> of \<open>_run\<close> leaves.\<close>

definition run_outcome ::
  "'l lib_scheme \<Rightarrow> settings \<Rightarrow> pydict \<Rightarrow> plan_exc + pydict \<Rightarrow> string \<times> pydict option \<times> pydict option" where
  "run_outcome L S payload r =
     (case r of
        Inr d \<Rightarrow>
          (case validate_result L S d payload of
             Inr v \<Rightarrow> (PLANNED, Some v, None)
           | Inl _ \<Rightarrow> (FAILED, None, Some (error_dict 3001 TEXT_BAD_RESULT)))
      | Inl PlanCancelled \<Rightarrow> (INTERRUPTED, None, Some (error_dict 3001 TEXT_PLAN_STOPPED))
      | Inl PlanTimeout \<Rightarrow> (FAILED, None, Some (error_dict REQUEST_TIMEOUT TEXT_PLAN_TIMEOUT))
      | Inl (MotionError c t) \<Rightarrow> (FAILED, None, Some (error_dict c t))
      | Inl (PlanExc _) \<Rightarrow> (FAILED, None, Some (error_dict 3001 TEXT_BAD_RESULT)))"

text \<open>\<open>plan\<close> is over (its \<open>finally\<close> runs), and \<open>finish\<close> is on its way.\<close>

definition run_save ::
  "'l lib_scheme \<Rightarrow> settings \<Rightarrow> run \<Rightarrow> nat \<Rightarrow> plan_exc + pydict \<Rightarrow> 'a robot_scheme \<Rightarrow> 'a robot_scheme" where
  "run_save L S w r res s =
     (case run_outcome L S (w_payload w) res of
        (st, rs, er) \<Rightarrow> set_phase (WSaving st rs er) (plan_end (w_task w) r s))"

text \<open>The outermost \<open>finally\<close>.\<close>

definition run_end :: "'a robot_scheme \<Rightarrow> 'a robot_scheme" where
  "run_end s = set_phase WDone (s\<lparr>active_id := None\<rparr>)"

text \<open>The first schedule of the worker, up to the send lock, when it is not \<open>free\<close>, or the drain.\<close>

definition run_start ::
  "bool \<Rightarrow> 'l lib_scheme \<Rightarrow> settings \<Rightarrow> int \<Rightarrow> run \<Rightarrow> 'a robot_scheme \<Rightarrow> 'a robot_scheme" where
  "run_start free L S now w s =
     (case plan_begin free now (w_task w) (w_payload w) s of
        (s1, r, Inl e) \<Rightarrow> run_save L S w r (Inl (PlanExc e)) s1
      | (s1, r, Inr Offline) \<Rightarrow> run_save L S w r (Inl (MotionError TARGET_OFFLINE TEXT_SEND_FAILED)) s1
      | (s1, r, Inr (Queued c m)) \<Rightarrow> set_phase (WQueued r c m) s1
      | (s1, r, Inr (Written c)) \<Rightarrow> set_phase (WSending r c) s1)"

text \<open>The send lock is granted: the message is written, to a connection that may have closed.\<close>

definition run_queued ::
  "'l lib_scheme \<Rightarrow> settings \<Rightarrow> run \<Rightarrow> nat \<Rightarrow> nat \<Rightarrow> message \<Rightarrow> 'a robot_scheme \<Rightarrow> 'a robot_scheme" where
  "run_queued L S w r c m s =
     (case send_write c m s of
        (s1, Inl e) \<Rightarrow> run_save L S w r (Inl (PlanExc e)) s1
      | (s1, Inr _) \<Rightarrow> set_phase (WSending r c) s1)"

text \<open>The drain ended; a failed one closes the connection, and \<open>send_to\<close> returned \<open>False\<close>.\<close>

definition run_sent ::
  "(string \<Rightarrow> 'a robot_scheme \<Rightarrow> 'a robot_scheme) \<Rightarrow> 'l lib_scheme \<Rightarrow> settings \<Rightarrow> bool \<Rightarrow> run
     \<Rightarrow> nat \<Rightarrow> nat \<Rightarrow> 'a robot_scheme \<Rightarrow> 'a robot_scheme" where
  "run_sent on_disc L S drained w r c s =
     (let s1 = send_finish on_disc drained c s
      in if drained then set_phase (WWaiting r) s1
         else run_save L S w r (Inl (MotionError TARGET_OFFLINE TEXT_SEND_FAILED)) s1)"

text \<open>The future is done; the timeout of \<open>wait_for\<close>; a cancellation.\<close>

definition run_reply :: "'l lib_scheme \<Rightarrow> settings \<Rightarrow> run \<Rightarrow> nat \<Rightarrow> 'a robot_scheme \<Rightarrow> 'a robot_scheme" where
  "run_reply L S w r s = run_save L S w r (plan_outcome s r) s"

definition run_timeout :: "'l lib_scheme \<Rightarrow> settings \<Rightarrow> run \<Rightarrow> nat \<Rightarrow> 'a robot_scheme \<Rightarrow> 'a robot_scheme" where
  "run_timeout L S w r s = run_save L S w r (Inl PlanTimeout) s"

text \<open>
  Cancelled before its first schedule the coroutine never runs, its \<open>finally\<close> included; cancelled
  while a database thread works, it ends and the thread may still do its work (\<open>thr\<close>).
\<close>

definition run_cancel ::
  "'l lib_scheme \<Rightarrow> settings \<Rightarrow> bool \<Rightarrow> int \<Rightarrow> run \<Rightarrow> 'a robot_scheme \<Rightarrow> 'a robot_scheme" where
  "run_cancel L S thr now w s =
     (case w_phase w of
        WCreated \<Rightarrow> set_phase WDone s
      | WQueued r c m \<Rightarrow> run_save L S w r (Inl PlanCancelled) s
      | WSending r c \<Rightarrow> run_save L S w r (Inl PlanCancelled) s
      | WWaiting r \<Rightarrow> run_save L S w r (Inl PlanCancelled) s
      | WSaving st rs er \<Rightarrow>
          run_end (case db_finish thr now (w_task w) st rs er (db s) of Inl _ \<Rightarrow> s | Inr t \<Rightarrow> s\<lparr>db := t\<rparr>)
      | WNotifying \<Rightarrow> run_end s
      | WDone \<Rightarrow> s)"

text \<open>\<open>finish\<close> ended: with a callback the worker reads the record back, else it is over.\<close>

definition run_saved ::
  "bool \<Rightarrow> int \<Rightarrow> run \<Rightarrow> string \<Rightarrow> pydict option \<Rightarrow> pydict option \<Rightarrow> 'a robot_scheme \<Rightarrow> 'a robot_scheme" where
  "run_saved dbok now w st rs er s =
     (case db_finish dbok now (w_task w) st rs er (db s) of
        Inl _ \<Rightarrow> run_end s
      | Inr t \<Rightarrow> if w_cb w = None then run_end (s\<lparr>db := t\<rparr>) else set_phase WNotifying (s\<lparr>db := t\<rparr>))"

text \<open>\<open>get\<close> ended: the callback runs on the record; an exception is logged.\<close>

definition run_notified ::
  "(nat \<Rightarrow> task_view \<Rightarrow> 'a robot_scheme \<Rightarrow> 'a robot_scheme) \<Rightarrow> bool \<Rightarrow> run \<Rightarrow> 'a robot_scheme
     \<Rightarrow> 'a robot_scheme" where
  "run_notified on_finished dbok w s =
     run_end (case (w_cb w, if dbok then get (db s) (w_task w) else Inl DatabaseError) of
                (Some k, Inr (Some v)) \<Rightarrow> on_finished k v s
              | _ \<Rightarrow> s)"

section \<open>get\_task and close\<close>

definition get_task :: "bool \<Rightarrow> string \<Rightarrow> 'a robot_scheme \<Rightarrow> gexc + task_view" where
  "get_task dbok tid s =
     (case (if dbok then get (db s) tid else Inl DatabaseError) of
        Inl e \<Rightarrow> Inl (PyError e)
      | Inr None \<Rightarrow> Inl (GatewayError 404 TASK_NOT_FOUND TEXT_NO_TASK)
      | Inr (Some v) \<Rightarrow> Inr v)"

definition close_request :: "'a robot_scheme \<Rightarrow> 'a robot_scheme" where
  "close_request s = s\<lparr>closing := True\<rparr>"

text \<open>
  With the lock: the worker is cancelled. \<open>wait_for\<close> before Python 3.12 returns a result that is
  already there in spite of the cancellation; then \<open>delivered\<close> is false.
\<close>

definition close_enter ::
  "'l lib_scheme \<Rightarrow> settings \<Rightarrow> bool \<Rightarrow> bool \<Rightarrow> int \<Rightarrow> 'a robot_scheme \<Rightarrow> 'a robot_scheme" where
  "close_enter L S delivered thr now s =
     (let s1 = s\<lparr>sub_lock := LClosing\<rparr>
      in case worker s of
           None \<Rightarrow> s1
         | Some w \<Rightarrow> if delivered then run_cancel L S thr now w s1 else s1)"

text \<open>The worker is over: a task whose worker never ran is closed here, and the lock released.\<close>

definition close_finish :: "bool \<Rightarrow> int \<Rightarrow> 'a robot_scheme \<Rightarrow> 'a robot_scheme" where
  "close_finish dbok now s =
     (case active_id s of
        None \<Rightarrow> s\<lparr>sub_lock := LFree\<rparr>
      | Some tid \<Rightarrow>
          (case db_finish dbok now tid INTERRUPTED None (Some (error_dict 3001 TEXT_STOPPED)) (db s) of
             Inl _ \<Rightarrow> s\<lparr>sub_lock := LFree\<rparr>
           | Inr t \<Rightarrow> s\<lparr>db := t, active_id := None, sub_lock := LFree\<rparr>))"

section \<open>What validation establishes about the numbers\<close>

lemma LIMIT_EPS_bounds: obtains e where "LIMIT_EPS = Fin e" "1 / (2 * 10 ^ 9) \<le> e" "e \<le> 11 / 10 ^ 10"
  by (rule f64_small [of "1 / 10 ^ 9"]) (simp_all add: LIMIT_EPS_def)

lemma MATCH_EPS_bounds: obtains e where "MATCH_EPS = Fin e" "1 / (2 * 10 ^ 7) \<le> e" "e \<le> 11 / 10 ^ 8"
  by (rule f64_small [of "1 / 10 ^ 7"]) (simp_all add: MATCH_EPS_def)

lemma outside_bounds:
  assumes "\<not> outside v (lo, hi)" "fval (num lo) = Some l" "fval (num hi) = Some h" "\<bar>l\<bar> \<le> 1000" "\<bar>h\<bar> \<le> 1000"
  obtains q where "fval v = Some q" "l - 2 / 10 ^ 9 \<le> q" "q \<le> h + 2 / 10 ^ 9"
proof -
  obtain e where e: "LIMIT_EPS = Fin e" "1 / (2 * 10 ^ 9) \<le> e" "e \<le> 11 / 10 ^ 10" by (rule LIMIT_EPS_bounds)
  have "0 < e" using e(2) by (rule less_le_trans [rotated]) simp
  obtain q where q: "fval v = Some q" using assms(1) by (auto simp: outside_def isfinite_iff)
  have s: "num lo - LIMIT_EPS = f64 (l - e)" "num hi + LIMIT_EPS = f64 (h + e)"
    using minus_fval [OF assms(2), of LIMIT_EPS e] plus_fval [OF assms(3), of LIMIT_EPS e] \<open>0 < e\<close> by (simp_all add: e(1))
  have n: "\<not> Fin q < f64 (l - e)" "\<not> f64 (h + e) < Fin q"
    using assms(1) q unfolding outside_def s prod.case by (cases v; cases "f64 (l - e)"; cases "f64 (h + e)"; simp)+
  have r: "max (\<bar>x\<bar> / 2 ^ 53) (2 powi -1075) \<le> (1 / 10 ^ 12 :: rat)" "\<bar>x\<bar> \<le> 2 powi 100"
    if "\<bar>x\<bar> \<le> 1001" for x :: rat
  proof -
    have "(2 powi -1075 :: rat) \<le> 2 powi - 100" by (rule power_int_increasing) simp_all
    then show "max (\<bar>x\<bar> / 2 ^ 53) (2 powi -1075) \<le> (1 / 10 ^ 12 :: rat)"
      using that by simp
    have "(1001 :: rat) \<le> 2 powi 100" by simp
    with that show "\<bar>x\<bar> \<le> 2 powi 100" by (rule order_trans)
  qed
  have b: "\<bar>l - e\<bar> \<le> 1001" "\<bar>h + e\<bar> \<le> 1001"
    using assms(4,5) e(2,3) by (simp_all add: abs_le_iff)
  have "l - e - 1 / 10 ^ 12 \<le> q" "q \<le> h + e + 1 / 10 ^ 12"
    using not_less_f64D [OF n(1) r(2) [OF b(1)]] not_greater_f64D [OF n(2) r(2) [OF b(2)]]
      r(1) [OF b(1)] r(1) [OF b(2)] by linarith+
  then show ?thesis using e(3) by (intro that [OF q]) simp_all
qed

lemma not_outside:
  assumes "num lo = Fin l" "num hi = Fin h" "l \<le> q" "q \<le> h"
    and "f64 l = Fin l" "f64 h = Fin h" "\<bar>l\<bar> \<le> 1000" "\<bar>h\<bar> \<le> 1000"
  shows "\<not> outside (Fin q) (lo, hi)"
proof -
  obtain e where e: "LIMIT_EPS = Fin e" "1 / (2 * 10 ^ 9) \<le> e" "e \<le> 11 / 10 ^ 10" by (rule LIMIT_EPS_bounds)
  have b: "\<bar>l - e\<bar> \<le> 1001" "\<bar>h + e\<bar> \<le> 1001" using assms(7,8) e(2,3) by (simp_all add: abs_le_iff)
  have "(1001 :: rat) \<le> 2 powi 100" by simp
  then have B: "\<bar>l - e\<bar> \<le> 2 powi 100" "\<bar>h + e\<bar> \<le> 2 powi 100" using b by linarith+
  have "0 < e" using e(2) by (rule less_le_trans [rotated]) simp
  then obtain v w where "f64 (l - e) = Fin v" "v \<le> l" "f64 (h + e) = Fin w" "h \<le> w"
    using f64_le_Fin [of "l - e" l] f64_ge_Fin [of h "h + e"] assms(5,6) B by auto
  then show ?thesis
    using assms(3,4) unfolding outside_def prod.case assms(1,2) e(1) by simp
qed

lemma within_limits_bounds:
  assumes S: "settings_ok S" and w: "within_limits S js" and n: "length js = 6" and i: "i < 6"
    and l: "fval (num (joint_min S ! i)) = Some l" "\<bar>l\<bar> \<le> 1000"
    and h: "fval (num (joint_max S ! i)) = Some h" "\<bar>h\<bar> \<le> 1000"
  obtains q where "fval (js ! i) = Some q" "l - 2 / 10 ^ 9 \<le> q" "q \<le> h + 2 / 10 ^ 9"
proof -
  have "length (joint_min S) = 6" "length (joint_max S) = 6" using S by (auto simp: settings_ok_def)
  then have "\<not> outside (js ! i) (joint_min S ! i, joint_max S ! i)"
    using not_any_zipD [OF w [unfolded within_limits_def], of i] n i by simp
  then show ?thesis using outside_bounds [OF _ l(1) h(1) l(2) h(2)] that by blast
qed

lemma not_differs:
  assumes "\<not> differs x y" "fval x = Some p" "fval y = Some q"
  shows "\<bar>p - q\<bar> \<le> 3 / 10 ^ 7"
proof -
  obtain e where e: "MATCH_EPS = Fin e" "1 / (2 * 10 ^ 7) \<le> e" "e \<le> 11 / 10 ^ 8" by (rule MATCH_EPS_bounds)
  have "(2 powi - 1000 :: rat) \<le> 2 powi - 30" by (rule power_int_increasing) simp_all
  also have "\<dots> \<le> e" using e(2) by simp
  finally show ?thesis using abs_diff_bound [OF _ _ assms(2,3), of e] assms(1) e by (simp add: differs_def)
qed

text \<open>Every way the result of a plan is accepted.\<close>

lemma validate_result_InrD:
  assumes "validate_result L S d payload = Inr v"
  obtains r where "validate_plan_result L d = Inr r" "v = dump_result r"
    and "pr_reference_source r = (if dget payload ''current_joint_angles'' \<noteq> None then ''request'' else ''config'')"
    and "\<And>p. p \<in> set (pr_joint_target r # pr_joint_trajectory r) \<Longrightarrow> within_limits S p"
    and "\<not> any_zip differs (hd (pr_joint_trajectory r)) (map num (reference_joints S payload))"
    and "\<not> any_zip differs (last (pr_joint_trajectory r)) (pr_joint_target r)"
    and "\<exists>period. fdiv (pr_duration_sec r) (f64 (of_nat (length (pr_joint_trajectory r) - 1))) = Inr period
           \<and> isclose period (pr_sample_period_sec r) (f64 (1 / 10 ^ 7)) (f64 (1 / 10 ^ 9))"
    and "feq (pr_force_limit r) (num (get_or payload ''force_limit'' PNone))"
proof -
  obtain r where r: "validate_plan_result L d = Inr r"
    using assms by (auto simp: validate_result_def res_simps)
  note A = assms [unfolded validate_result_def r rbind.simps Let_def]
  show ?thesis
    by (rule that [of r]) (use A r in \<open>auto simp: res_simps list_ex_iff split: if_splits\<close>)
qed
section \<open>The invariant of submission and worker\<close>

text \<open>What the invariant reads of the state, and that the components below leave it alone.\<close>

definition robot_part where
  "robot_part s = (active_id s, worker s, closing s, sub_lock s, db s)"

lemma robot_cong: "adapter.more s' = adapter.more s \<Longrightarrow> robot_part s' = robot_part s"
  by (cases s; cases s') (simp add: robot_part_def)

lemma robot_part_eq:
  "robot_part s' = robot_part s \<longleftrightarrow>
     active_id s' = active_id s \<and> worker s' = worker s \<and> closing s' = closing s
     \<and> sub_lock s' = sub_lock s \<and> db s' = db s"
  by (auto simp: robot_part_def)

definition idle :: "run option \<Rightarrow> bool" where
  "idle wk \<longleftrightarrow> (case wk of None \<Rightarrow> True | Some w \<Rightarrow> w_phase w = WDone)"

text \<open>At most one submission or worker, and \<open>_active_id\<close> is its task.\<close>

fun flight_ok :: "submission \<Rightarrow> run option \<Rightarrow> string option \<Rightarrow> bool \<Rightarrow> bool" where
  "flight_ok (LCreating t p k c) wk act cl = (act = Some t \<and> idle wk)"
| "flight_ok (LAborting t k) wk act cl = (act = Some t \<and> idle wk)"
| "flight_ok lk wk act cl =
     ((if idle wk then act = None \<or> cl else act = Some (w_task (the wk))) \<and> (lk = LClosing \<longrightarrow> cl))"

text \<open>The row of the running task is \<open>planning\<close> until its worker has saved the outcome.\<close>

fun phase_row_ok :: "phase \<Rightarrow> string option \<Rightarrow> bool" where
  "phase_row_ok WNotifying st = (st \<noteq> Some PLANNING)"
| "phase_row_ok WDone st = True"
| "phase_row_ok (WSaving p rs er) st = (st = Some PLANNING \<and> p \<in> {PLANNED, FAILED, INTERRUPTED})"
| "phase_row_ok _ st = (st = Some PLANNING)"

definition worker_row_ok :: "run option \<Rightarrow> table \<Rightarrow> bool" where
  "worker_row_ok wk t = (case wk of None \<Rightarrow> True | Some w \<Rightarrow> phase_row_ok (w_phase w) (status_of t (w_task w)))"

fun lock_row_ok :: "string set \<Rightarrow> submission \<Rightarrow> table \<Rightarrow> bool" where
  "lock_row_ok A (LAborting i k) t = (status_of t i = Some PLANNING)"
| "lock_row_ok A (LCreating i p k c) t = (status_of t i = Some PLANNING \<longrightarrow> i \<in> A)"
| "lock_row_ok A _ t = True"

text \<open>The adapter knows exactly the request the worker waits for.\<close>

fun phase_pending :: "phase \<Rightarrow> string \<Rightarrow> (string \<times> nat) list" where
  "phase_pending (WQueued r c m) t = [(t, r)]"
| "phase_pending (WSending r c) t = [(t, r)]"
| "phase_pending (WWaiting r) t = [(t, r)]"
| "phase_pending _ t = []"

definition expected_pending :: "run option \<Rightarrow> (string \<times> nat) list" where
  "expected_pending wk = (case wk of None \<Rightarrow> [] | Some w \<Rightarrow> phase_pending (w_phase w) (w_task w))"

text \<open>
  The whole invariant. \<open>A\<close> collects the tasks whose row was given up while \<open>planning\<close>: a
  database failure, or a cancellation that reaches a database thread.
\<close>

definition robot_inv :: "string set \<Rightarrow> 'a robot_scheme \<Rightarrow> bool" where
  "robot_inv A s \<longleftrightarrow>
     flight_ok (sub_lock s) (worker s) (active_id s) (closing s)
     \<and> table_ok (db s)
     \<and> (\<forall>t. status_of (db s) t = Some PLANNING \<longrightarrow> active_id s = Some t \<or> t \<in> A)
     \<and> worker_row_ok (worker s) (db s) \<and> lock_row_ok A (sub_lock s) (db s)
     \<and> pending s = expected_pending (worker s)"

lemma robot_inv_cong:
  "robot_part s' = robot_part s \<Longrightarrow> pending s' = pending s \<Longrightarrow> robot_inv A s' = robot_inv A s"
  by (simp add: robot_inv_def robot_part_eq)

lemma idle_simps [simp]:
  "idle None" "idle (Some w) = (w_phase w = WDone)"
  by (simp_all add: idle_def)

lemma expected_pending_simps [simp]:
  "expected_pending None = []" "expected_pending (Some w) = phase_pending (w_phase w) (w_task w)"
  by (simp_all add: expected_pending_def)

lemma worker_row_simps [simp]:
  "worker_row_ok None t" "worker_row_ok (Some w) t = phase_row_ok (w_phase w) (status_of t (w_task w))"
  by (simp_all add: worker_row_ok_def)

lemma idle_row [simp]: "idle wk \<Longrightarrow> worker_row_ok wk t"
  by (cases wk) simp_all

lemma idle_pending [simp]: "idle wk \<Longrightarrow> expected_pending wk = []"
  by (cases wk) simp_all

section \<open>Submission keeps the invariant\<close>

lemma inv_submit_enter:
  assumes "robot_inv A s" "sub_lock s = LFree"
  shows "robot_inv A (fst (submit_enter tid rq cb s))"
  using assms by (auto simp: robot_inv_def submit_enter_def split: if_splits)

lemma db_create_InrD:
  assumes "db_create dbok now tid rq t = Inr t'"
  shows "dbok" "create now tid rq t = Inr t'" "status_of t' = (status_of t)(tid \<mapsto> PLANNING)"
    "status_of t tid = None" "table_ok t \<Longrightarrow> table_ok t'"
  using assms by (auto simp: db_create_def status_simps create_fresh table_ok_create split: if_splits)

lemma db_finish_InrD:
  assumes "db_finish dbok now tid st rs er t = Inr t'"
  shows "dbok" "st \<in> {PLANNED, FAILED, INTERRUPTED}"
    "status_of t' = (if status_of t tid = Some PLANNING then (status_of t)(tid \<mapsto> st) else status_of t)"
    "table_ok t \<Longrightarrow> table_ok t'"
  using assms status_of_finish finish_InrD(1) table_ok_finish
  by (auto simp: db_finish_def res_simps split: if_splits) blast+

lemma PLANNING_not_terminal [simp]: "PLANNING \<notin> {PLANNED, FAILED, INTERRUPTED}"
  by (simp add: status_consts)

lemma inv_submit_cancel: "robot_inv A s \<Longrightarrow> robot_inv A (submit_cancel s)"
  by (cases "sub_lock s") (auto simp: robot_inv_def submit_cancel_def)

lemma inv_submit_created:
  assumes I: "robot_inv A s" and l: "sub_lock s = LCreating tid payload cb c"
  shows "robot_inv A (fst (submit_created dbok now s))"
proof (cases "db_create dbok now tid payload (db s)")
  case (Inl e)
  then show ?thesis using I l by (auto simp: robot_inv_def submit_created_def release_submission_def)
next
  case (Inr t)
  then show ?thesis using I l db_create_InrD [OF Inr]
    by (auto simp: robot_inv_def submit_created_def)
qed

text \<open>A submission that ends without a worker gives its task up if the row is left \<open>planning\<close>.\<close>

lemma inv_release:
  assumes "robot_inv A s" "active_id s = Some tid" "idle (worker s)"
    and "table_ok t'" "\<And>i. status_of t' i = Some PLANNING \<Longrightarrow> i \<noteq> tid \<Longrightarrow> status_of (db s) i = Some PLANNING"
    and "status_of t' tid = Some PLANNING \<Longrightarrow> tid \<in> B" "A \<subseteq> B"
  shows "robot_inv B (release_submission (s\<lparr>db := t'\<rparr>))"
  using assms by (auto simp: robot_inv_def release_submission_def)

lemma inv_submit_aborted:
  assumes I: "robot_inv A s" and l: "sub_lock s = LAborting tid cb"
  shows "robot_inv (if snd (submit_aborted dbok now s) = Some (Inl Cancelled) then A else insert tid A)
    (fst (submit_aborted dbok now s))"
proof -
  have s: "active_id s = Some tid" "idle (worker s)" "table_ok (db s)" "status_of (db s) tid = Some PLANNING"
    using I l by (auto simp: robot_inv_def)
  show ?thesis
  proof (cases "db_finish dbok now tid INTERRUPTED None (Some (error_dict 3001 TEXT_CANCELLED)) (db s)")
    case (Inl e)
    then show ?thesis
      using inv_release [OF I s(1,2,3), of "insert tid A"] l by (auto simp: submit_aborted_def)
  next
    case (Inr t)
    then show ?thesis
      using inv_release [OF I s(1,2), of t A] l s db_finish_InrD [OF Inr]
      by (auto simp: submit_aborted_def status_consts split: if_splits)
  qed
qed

lemma inv_submit_abandoned:
  assumes I: "robot_inv A s" and l: "sub_lock s = LCreating tid p cb True \<or> sub_lock s = LAborting tid cb"
  shows "robot_inv (insert tid A) (fst (submit_abandoned thr now s))"
proof -
  have s: "active_id s = Some tid" "idle (worker s)" "table_ok (db s)"
    using I l by (auto simp: robot_inv_def)
  have rel: "robot_inv (insert tid A) (release_submission (s\<lparr>db := t\<rparr>))"
    if "table_ok t" "\<And>i. i \<noteq> tid \<Longrightarrow> status_of t i = status_of (db s) i" for t
    using inv_release [OF I s(1,2) that(1), of "insert tid A"] that(2) by auto
  show ?thesis
    using l
  proof
    assume l: "sub_lock s = LCreating tid p cb True"
    show ?thesis
      using rel [of "db s"] rel s db_create_InrD [of thr now tid p "db s"] l
      by (auto simp: submit_abandoned_def split: sum.split)
  next
    assume l: "sub_lock s = LAborting tid cb"
    show ?thesis
      using rel [of "db s"] rel s db_finish_InrD [of thr now tid INTERRUPTED None _ "db s"] l
      by (auto simp: submit_abandoned_def split: sum.split)
  qed
qed

section \<open>The worker keeps the invariant\<close>

lemma set_phase_fields [simp]:
  "worker (set_phase p s) = map_option (\<lambda>w. w\<lparr>w_phase := p\<rparr>) (worker s)"
  "active_id (set_phase p s) = active_id s" "closing (set_phase p s) = closing s"
  "sub_lock (set_phase p s) = sub_lock s" "db (set_phase p s) = db s" "pending (set_phase p s) = pending s"
  "adapter.truncate (set_phase p s) = adapter.truncate s"
  by (simp_all add: set_phase_def adapter.defs)

lemma run_outcome_status: "fst (run_outcome L S payload r) \<in> {PLANNED, FAILED, INTERRUPTED}"
  by (simp add: run_outcome_def split: sum.split plan_exc.split)

lemma inv_run_save:
  assumes I: "robot_inv A s" and w: "worker s = Some w" and p: "w_phase w \<notin> {WNotifying, WDone}"
    and s': "robot_part s' = robot_part s" "ddel (w_task w) (pending s') = []"
  shows "robot_inv A (run_save L S w r res s')"
proof -
  obtain st rs er where o': "run_outcome L S (w_payload w) res = (st, rs, er)" by (cases "run_outcome L S (w_payload w) res")
  have "st \<in> {PLANNED, FAILED, INTERRUPTED}"
    using run_outcome_status [of L S "w_payload w" res] o' by simp
  moreover have "status_of (db s) (w_task w) = Some PLANNING"
    using I w p by (cases "w_phase w") (auto simp: robot_inv_def)
  moreover have "robot_part (plan_end (w_task w) r s') = robot_part s"
    using robot_cong [OF adapter_more(2)] s'(1) by metis
  then have f: "worker (plan_end (w_task w) r s') = worker s" "active_id (plan_end (w_task w) r s') = active_id s"
    "closing (plan_end (w_task w) r s') = closing s" "sub_lock (plan_end (w_task w) r s') = sub_lock s"
    "db (plan_end (w_task w) r s') = db s" by (simp_all add: robot_part_eq)
  moreover have "flight_ok (sub_lock s) (Some (w\<lparr>w_phase := WSaving st rs er\<rparr>)) (active_id s) (closing s)"
    using I w p by (cases "sub_lock s") (auto simp: robot_inv_def)
  moreover have "lock_row_ok A (sub_lock s) (db s)" using I by (simp add: robot_inv_def)
  ultimately show ?thesis
    using I w s'(2) by (simp add: robot_inv_def run_save_def o' plan_end_adapter)
qed

lemma inv_set_phase:
  assumes I: "robot_inv A s" and w: "worker s = Some w" and a: "w_phase w \<noteq> WDone" "p \<noteq> WDone"
    and r: "phase_row_ok p (status_of (db s) (w_task w))"
    and s': "robot_part s' = robot_part s" "pending s' = phase_pending p (w_task w)"
  shows "robot_inv A (set_phase p s')"
proof -
  have "flight_ok (sub_lock s) (Some (w\<lparr>w_phase := p\<rparr>)) (active_id s) (closing s)"
    using I w a by (cases "sub_lock s") (auto simp: robot_inv_def)
  then show ?thesis using assms by (simp add: robot_inv_def robot_part_eq)
qed

lemma inv_run_start:
  assumes I: "robot_inv A s" and w: "worker s = Some w" "w_phase w = WCreated"
  shows "robot_inv A (run_start free L S now w s)"
proof -
  obtain s1 r res where b: "plan_begin free now (w_task w) (w_payload w) s = (s1, r, res)"
    by (cases "plan_begin free now (w_task w) (w_payload w) s") auto
  have p0: "pending s = []" and st: "status_of (db s) (w_task w) = Some PLANNING"
    using I w by (auto simp: robot_inv_def)
  have p1: "pending s1 = [(w_task w, r)]" using plan_begin_fields(3) [OF b] p0 by simp
  have part: "robot_part s1 = robot_part s" by (rule robot_cong) (rule plan_begin_fields(4) [OF b])
  have sv: "robot_inv A (run_save L S w r x s1)" for x
    by (rule inv_run_save [OF I w(1) _ part]) (simp_all add: w(2) p1 ddel_def)
  have "robot_inv A (set_phase (WSending r c) s1)" "robot_inv A (set_phase (WQueued r c m) s1)" for c m
    by (rule inv_set_phase [OF I w(1) _ _ _ part]; simp add: w(2) st p1)+
  then show ?thesis using sv by (simp add: run_start_def b split: sum.split sending.split)
qed

lemma send_write_view: "server.more s' = server.more s \<Longrightarrow> robot_part s' = robot_part s \<and> pending s' = pending s"
  using adapter_cong [of s' s] robot_cong [of s' s] by simp

lemma inv_run_queued:
  assumes I: "robot_inv A s" and w: "worker s = Some w" "w_phase w = WQueued r c m"
  shows "robot_inv A (run_queued L S w r c m s)"
proof -
  obtain s1 res where q: "send_write c m s = (s1, res)" by (cases "send_write c m s")
  have v: "robot_part s1 = robot_part s" "pending s1 = [(w_task w, r)]"
    using send_write_view [of s1 s] server_more(7) [of c m s] I w by (simp_all add: q robot_inv_def)
  have "status_of (db s) (w_task w) = Some PLANNING" using I w by (simp add: robot_inv_def)
  then have "robot_inv A (set_phase (WSending r c) s1)"
    by (intro inv_set_phase [OF I w(1) _ _ _ v(1)]) (simp_all add: w(2) v(2))
  moreover have "robot_inv A (run_save L S w r x s1)" for x
    by (intro inv_run_save [OF I w(1) _ v(1)]) (simp_all add: w(2) v(2) ddel_def)
  ultimately show ?thesis by (simp add: run_queued_def q split: sum.split)
qed

lemma inv_run_finish_wait:
  assumes "robot_inv A s" "worker s = Some w" "phase_pending (w_phase w) (w_task w) = [(w_task w, r)]"
  shows "robot_inv A (run_save L S w r x s)"
  using assms by (intro inv_run_save [OF assms(1,2)]) (cases "w_phase w"; auto simp: robot_inv_def ddel_def)+

text \<open>The end of the worker: its row is settled, or the task given up.\<close>

lemma inv_run_end:
  assumes I: "robot_inv A s" and w: "worker s = Some w" "w_phase w \<noteq> WDone" "phase_pending (w_phase w) (w_task w) = []"
    and t: "table_ok t" "\<And>i. status_of t i = Some PLANNING \<Longrightarrow> i \<noteq> w_task w \<Longrightarrow> status_of (db s) i = Some PLANNING"
    and B: "status_of t (w_task w) = Some PLANNING \<Longrightarrow> w_task w \<in> B" "A \<subseteq> B"
  shows "robot_inv B (run_end (s\<lparr>db := t\<rparr>))"
proof -
  have "active_id s = Some (w_task w)" using I w by (cases "sub_lock s") (auto simp: robot_inv_def)
  moreover have "flight_ok (sub_lock s) (Some (w\<lparr>w_phase := WDone\<rparr>)) None (closing s)"
    "lock_row_ok B (sub_lock s) t"
    using I w by (cases "sub_lock s"; auto simp: robot_inv_def)+
  ultimately show ?thesis
    using I w t B by (auto simp: robot_inv_def run_end_def)
qed

lemma inv_run_saved:
  assumes I: "robot_inv A s" and w: "worker s = Some w" "w_phase w = WSaving st rs er"
  shows "robot_inv (case db_finish dbok now (w_task w) st rs er (db s) of Inl _ \<Rightarrow> insert (w_task w) A | Inr _ \<Rightarrow> A)
    (run_saved dbok now w st rs er s)"
proof (cases "db_finish dbok now (w_task w) st rs er (db s)")
  case (Inl e)
  have "table_ok (db s)" using I by (simp add: robot_inv_def)
  then have "robot_inv (insert (w_task w) A) (run_end (s\<lparr>db := db s\<rparr>))"
    by (intro inv_run_end [OF I w(1)]) (auto simp: w(2))
  then show ?thesis by (simp add: run_saved_def Inl)
next
  case (Inr t)
  note F = db_finish_InrD [OF Inr]
  have st: "table_ok (db s)" "status_of (db s) (w_task w) = Some PLANNING" "st \<noteq> PLANNING"
    "active_id s = Some (w_task w)" "lock_row_ok A (sub_lock s) (db s)"
    "\<And>p. p \<noteq> WDone \<Longrightarrow> flight_ok (sub_lock s) (Some (w\<lparr>w_phase := p\<rparr>)) (active_id s) (closing s)"
    using I w F(2) by (cases "sub_lock s"; auto simp: robot_inv_def status_consts)+
  have "robot_inv A (run_end (s\<lparr>db := t\<rparr>))"
    by (intro inv_run_end [OF I w(1)]) (use F st w in \<open>auto split: if_splits\<close>)
  moreover have "lock_row_ok A (sub_lock s) t"
    using I w by (cases "sub_lock s") (auto simp: robot_inv_def)
  then have "robot_inv A (set_phase WNotifying (s\<lparr>db := t\<rparr>))"
    using I w F st by (auto simp: robot_inv_def split: if_splits)
  ultimately show ?thesis by (simp add: run_saved_def Inr)
qed

lemma inv_run_notified:
  assumes I: "robot_inv A s" and w: "worker s = Some w" "w_phase w = WNotifying"
    and keep: "\<And>k v. robot_part (on_fin k v s) = robot_part s \<and> pending (on_fin k v s) = pending s"
  shows "robot_inv A (run_notified on_fin dbok w s)"
proof -
  have *: "robot_inv A (run_end x)" if "robot_part x = robot_part s" "pending x = pending s" for x
  proof -
    have J: "robot_inv A x" "worker x = Some w" "db x = db s"
      using I w that robot_inv_cong [of x s A] by (simp_all add: robot_part_eq)
    have "status_of (db s) (w_task w) \<noteq> Some PLANNING" using I w by (simp add: robot_inv_def)
    then have "robot_inv A (run_end (x\<lparr>db := db x\<rparr>))"
      using J by (intro inv_run_end [OF J(1,2)]) (auto simp: w(2) robot_inv_def)
    then show ?thesis by simp
  qed
  show ?thesis
    unfolding run_notified_def using * keep
    by (auto split: option.split sum.split prod.split)
qed

lemma inv_run_cancel:
  assumes I: "robot_inv A s" and w: "worker s = Some w" and c: "closing s" "sub_lock s = LClosing"
  shows "robot_inv (case w_phase w of
      WSaving st rs er \<Rightarrow> (case db_finish thr now (w_task w) st rs er (db s) of Inl _ \<Rightarrow> insert (w_task w) A | Inr _ \<Rightarrow> A)
    | _ \<Rightarrow> A) (run_cancel L S thr now w s)"
proof (cases "w_phase w")
  case WCreated
  then show ?thesis using I w c by (auto simp: robot_inv_def run_cancel_def)
next
  case (WQueued r d m)
  then show ?thesis by (simp add: run_cancel_def inv_run_finish_wait [OF I w])
next
  case (WSending r d)
  then show ?thesis by (simp add: run_cancel_def inv_run_finish_wait [OF I w])
next
  case (WWaiting r)
  then show ?thesis by (simp add: run_cancel_def inv_run_finish_wait [OF I w])
next
  case (WSaving st rs er)
  have t: "table_ok (db s)" using I by (simp add: robot_inv_def)
  show ?thesis
  proof (cases "db_finish thr now (w_task w) st rs er (db s)")
    case (Inl e)
    have "robot_inv (insert (w_task w) A) (run_end (s\<lparr>db := db s\<rparr>))"
      using t by (intro inv_run_end [OF I w]) (auto simp: WSaving)
    then show ?thesis by (simp add: run_cancel_def WSaving Inl)
  next
    case (Inr t')
    note F = db_finish_InrD [OF Inr]
    have "status_of (db s) (w_task w) = Some PLANNING" "st \<noteq> PLANNING"
      using I w WSaving F(2) by (auto simp: robot_inv_def status_consts)
    then have "robot_inv A (run_end (s\<lparr>db := t'\<rparr>))"
      using F t by (intro inv_run_end [OF I w]) (auto simp: WSaving split: if_splits)
    then show ?thesis by (simp add: run_cancel_def WSaving Inr)
  qed
next
  case WNotifying
  have "status_of (db s) (w_task w) \<noteq> Some PLANNING" using I w WNotifying by (simp add: robot_inv_def)
  then have "robot_inv A (run_end (s\<lparr>db := db s\<rparr>))"
    using I by (intro inv_run_end [OF I w]) (auto simp: WNotifying robot_inv_def)
  then show ?thesis by (simp add: run_cancel_def WNotifying)
next
  case WDone
  then show ?thesis using I by (simp add: run_cancel_def)
qed

section \<open>Closing keeps the invariant\<close>

lemma inv_close_request: "robot_inv A s \<Longrightarrow> robot_inv A (close_request s)"
  by (cases "sub_lock s") (auto simp: robot_inv_def close_request_def)

text \<open>The task a cancelled worker gives up: the thread that saved its outcome did not run.\<close>

definition given_up :: "bool \<Rightarrow> int \<Rightarrow> 'a robot_scheme \<Rightarrow> string set" where
  "given_up thr now s =
     (case worker s of None \<Rightarrow> {}
      | Some w \<Rightarrow>
          (case w_phase w of
             WSaving st rs er \<Rightarrow>
               (case db_finish thr now (w_task w) st rs er (db s) of Inl _ \<Rightarrow> {w_task w} | Inr _ \<Rightarrow> {})
           | _ \<Rightarrow> {}))"

lemma inv_close_enter:
  assumes I: "robot_inv A s" and c: "closing s" "sub_lock s = LFree"
  shows "robot_inv (A \<union> (if delivered then given_up thr now s else {})) (close_enter L S delivered thr now s)"
proof -
  have J: "robot_inv A (s\<lparr>sub_lock := LClosing\<rparr>)" using I c by (simp add: robot_inv_def)
  show ?thesis
  proof (cases "worker s")
    case None
    then show ?thesis using J by (simp add: close_enter_def given_up_def)
  next
    case (Some w)
    show ?thesis
      using J inv_run_cancel [OF J, of w thr now L S] Some c
      by (cases "w_phase w") (auto simp: close_enter_def given_up_def Let_def split: sum.splits)
  qed
qed

lemma inv_close_finish:
  assumes I: "robot_inv A s" and c: "sub_lock s = LClosing" "idle (worker s)"
  shows "robot_inv A (close_finish dbok now s)"
proof (cases "active_id s")
  case None
  then show ?thesis using I c by (simp add: close_finish_def robot_inv_def)
next
  case (Some tid)
  then show ?thesis
    using I c db_finish_InrD [of dbok now tid INTERRUPTED None _ "db s"]
    by (cases "db_finish dbok now tid INTERRUPTED None (Some (error_dict 3001 TEXT_STOPPED)) (db s)")
      (auto simp: close_finish_def robot_inv_def status_consts split: if_splits)
qed

section \<open>The interface to the callbacks\<close>

text \<open>What submission and worker need of the callbacks: they leave this component alone.\<close>

definition robot_view where
  "robot_view s = (pending s, robot_part s)"

lemma robot_view_more: "server.more s' = server.more s \<Longrightarrow> robot_view s' = robot_view s"
  using adapter_cong [of s' s] robot_cong [of s' s] by (simp add: robot_view_def)

lemma robot_inv_view: "robot_view s' = robot_view s \<Longrightarrow> robot_inv A s' = robot_inv A s"
  by (rule robot_inv_cong) (simp_all add: robot_view_def)

locale robot_callbacks = server_callbacks on_biz on_disc
  for on_biz :: "message \<Rightarrow> ('a robot_scheme, message option) sx"
    and on_disc :: "string \<Rightarrow> 'a robot_scheme \<Rightarrow> 'a robot_scheme" +
  fixes on_fin :: "nat \<Rightarrow> task_view \<Rightarrow> 'a robot_scheme \<Rightarrow> 'a robot_scheme"
  assumes biz_view: "robot_view (fst (on_biz m s)) = robot_view s"
    and disc_view: "robot_view (on_disc md s) = robot_view s"
    and fin_view: "robot_view (on_fin k v s) = robot_view s"
    and fin_frame: "server.truncate (on_fin k v s) = server.truncate s"
begin

lemma above_view: "above_server (\<lambda>s. robot_view s = x) on_biz on_disc"
  by unfold_locales (drule robot_view_more, simp_all add: biz_view disc_view)

lemma view_send_finish: "robot_view (send_finish on_disc ok c s) = robot_view s"
  by (rule above_server.above_send_finish [OF above_view]) (rule refl)

lemma view_server:
  "robot_view (connect tick c s) = robot_view s"
  "robot_view (handle_line on_biz on_disc now tick c line s) = robot_view s"
  "robot_view (end_client on_disc c s) = robot_view s"
  "robot_view (heartbeat_patrol on_disc now' s) = robot_view s"
  "robot_view (close_clients on_disc s) = robot_view s"
  "robot_view (close_listener s) = robot_view s"
proof -
  show "robot_view (connect tick c s) = robot_view s" by (rule robot_view_more) (simp add: connect_def)
  show "robot_view (handle_line on_biz on_disc now tick c line s) = robot_view s"
    by (rule above_server.above_handle_line [OF above_view]) (rule refl)
  show "robot_view (end_client on_disc c s) = robot_view s"
    by (rule above_server.above_end_client [OF above_view]) (rule refl)
  show "robot_view (heartbeat_patrol on_disc now' s) = robot_view s"
    by (rule above_server.above_patrol [OF above_view]) (rule refl)
  show "robot_view (close_clients on_disc s) = robot_view s"
    by (rule above_server.above_close_clients [OF above_view]) (rule refl)
  show "robot_view (close_listener s) = robot_view s" by (rule robot_view_more) (simp add: more_simps)
qed

text \<open>Whatever the server does keeps the invariant, and so does the end of a send.\<close>

lemma robot_inv_server:
  "robot_inv A (connect tick c s) = robot_inv A s"
  "robot_inv A (handle_line on_biz on_disc now tick c line s) = robot_inv A s"
  "robot_inv A (end_client on_disc c s) = robot_inv A s"
  "robot_inv A (heartbeat_patrol on_disc now' s) = robot_inv A s"
  "robot_inv A (close_clients on_disc s) = robot_inv A s"
  "robot_inv A (send_finish on_disc ok c s) = robot_inv A s"
  "robot_inv A (close_listener s) = robot_inv A s"
  by (rule robot_inv_view, simp add: view_server view_send_finish)+

lemma inv_run_sent:
  assumes I: "robot_inv A s" and w: "worker s = Some w" "w_phase w = WSending r c"
  shows "robot_inv A (run_sent on_disc L S drained w r c s)"
proof -
  let ?s = "send_finish on_disc drained c s"
  have v: "robot_part ?s = robot_part s" "pending ?s = [(w_task w, r)]"
    using view_send_finish [of drained c s] I w by (simp_all add: robot_view_def robot_inv_def)
  have "status_of (db s) (w_task w) = Some PLANNING" using I w by (simp add: robot_inv_def)
  then have "robot_inv A (set_phase (WWaiting r) ?s)"
    by (intro inv_set_phase [OF I w(1) _ _ _ v(1)]) (simp_all add: w(2) v(2))
  moreover have "robot_inv A (run_save L S w r (Inl (MotionError TARGET_OFFLINE TEXT_SEND_FAILED)) ?s)"
    by (intro inv_run_save [OF I w(1) _ v(1)]) (simp_all add: w(2) v(2) ddel_def)
  ultimately show ?thesis by (cases drained) (simp_all add: run_sent_def)
qed

lemma inv_run_notify:
  "robot_inv A s \<Longrightarrow> worker s = Some w \<Longrightarrow> w_phase w = WNotifying \<Longrightarrow>
   robot_inv A (run_notified on_fin dbok w s)"
  using inv_run_notified fin_view by (metis robot_view_def prod.inject)

end

end
