(* ===== verification/DispatchService.thy ===== *)
theory DispatchService
  imports RobotService
begin

text \<open>
  \<open>backend/app/service/dispatch_service.py\<close>: sorting tasks driven by detections. A task object
  is shared by the dictionary of tasks, by the coroutine that plans its target and by the callback
  \<open>finished\<close>, so task objects live in a heap. Every coroutine in \<open>_background\<close> is an entry of
  \<open>background\<close> that tells where it waits.
\<close>

section \<open>State\<close>

text \<open>\<open>TaskState\<close>; the attributes set later are optional, with the default \<open>getattr\<close> gives them.\<close>

record task_state =
  t_id :: string
  t_category :: pyval
  t_sorted :: int
  t_finished :: bool
  t_awaiting :: bool
  t_phase :: string
  t_error :: pyval
  t_planning_id :: pyval

text \<open>
  A scheduled \<open>send_to\<close> (not started, waiting for the send lock, waiting for its drain), and \<open>_plan_target\<close> (not started,
  waiting for the submission lock, waiting for \<open>create\<close> or what follows it inside \<open>submit\<close>).
\<close>

datatype coroutine =
    BgSend string message
  | BgQueued nat message
  | BgDrain nat
  | BgPlan nat pyval
  | BgSubmit nat plan_request
  | BgCreating nat

record dispatch = robot +
  tasks :: "(string, nat) dict"
  task_objs :: "task_state list"
  background :: "(nat, coroutine) dict"
  next_bg :: nat
  has_robot :: bool
  bound :: bool

definition TEXT_NO_TASK_ID :: string where (* task_id must not be empty *)
  "TEXT_NO_TASK_ID = ''task_id '' @ utf8 [0x4E0D, 0x5141, 0x8BB8, 0x4E3A, 0x7A7A]"
definition TEXT_TASK_RUNNING :: string where (* a task is already running *)
  "TEXT_TASK_RUNNING = utf8 [0x5DF2, 0x6709, 0x4EFB, 0x52A1, 0x6B63, 0x5728, 0x8FD0, 0x884C]"
definition TEXT_NO_ALGORITHM :: string where (* algorithm module offline *)
  "TEXT_NO_ALGORITHM = utf8 [0x7B97, 0x6CD5, 0x6A21, 0x5757, 0x79BB, 0x7EBF]"
definition TEXT_ALGORITHM_LOST :: string where (* algorithm module disconnected *)
  "TEXT_ALGORITHM_LOST = utf8 [0x7B97, 0x6CD5, 0x6A21, 0x5757, 0x65AD, 0x5F00]"
definition TEXT_UNSUPPORTED :: string where (* unsupported message type *)
  "TEXT_UNSUPPORTED = utf8 [0x672A, 0x652F, 0x6301, 0x7684, 0x62A5, 0x6587, 0x7C7B, 0x578B] @ '' ''"

definition new_task :: "string \<Rightarrow> pyval \<Rightarrow> task_state" where
  "new_task tid cat =
     \<lparr>t_id = tid, t_category = cat, t_sorted = 0, t_finished = False, t_awaiting = False,
      t_phase = ''sorting'', t_error = PNone, t_planning_id = PNone\<rparr>"

text \<open>\<open>bind_server\<close>: before it nothing can be sent.\<close>

definition bind_server :: "'a dispatch_scheme \<Rightarrow> 'a dispatch_scheme" where
  "bind_server s = s\<lparr>bound := True\<rparr>"

section \<open>Scheduling and sending\<close>

definition schedule :: "coroutine \<Rightarrow> 'a dispatch_scheme \<Rightarrow> 'a dispatch_scheme" where
  "schedule b s = s\<lparr>background := dset (next_bg s) b (background s), next_bg := Suc (next_bg s)\<rparr>"

definition discard :: "nat \<Rightarrow> 'a dispatch_scheme \<Rightarrow> 'a dispatch_scheme" where
  "discard i s = s\<lparr>background := ddel i (background s)\<rparr>"

definition await_at :: "nat \<Rightarrow> coroutine \<Rightarrow> 'a dispatch_scheme \<Rightarrow> 'a dispatch_scheme" where
  "await_at i b s = s\<lparr>background := dset i b (background s)\<rparr>"

text \<open>\<open>_send_async(module, build_message(...))\<close>: the arguments are evaluated first.\<close>

definition send_async :: "string \<Rightarrow> message res \<Rightarrow> ('a dispatch_scheme, unit) sx" where
  "send_async md r s =
     (case r of
        Inl e \<Rightarrow> (s, Inl e)
      | Inr m \<Rightarrow> (if bound s then schedule (BgSend md m) s else s, Inr ()))"

definition task_obj :: "'a dispatch_scheme \<Rightarrow> nat \<Rightarrow> task_state" where
  "task_obj s k = (if k < length (task_objs s) then task_objs s ! k else new_task [] PNone)"

definition upd_task :: "nat \<Rightarrow> (task_state \<Rightarrow> task_state) \<Rightarrow> 'a dispatch_scheme \<Rightarrow> 'a dispatch_scheme" where
  "upd_task k f s = s\<lparr>task_objs := (task_objs s)[k := f (task_obj s k)]\<rparr>"

text \<open>\<open>_push_task_result\<close>; the message is well built, so it never raises.\<close>

definition task_result :: "'a dispatch_scheme \<Rightarrow> task_state \<Rightarrow> pydict" where
  "task_result s t =
     [(''task_id'', PStr (t_id t)), (''sorted_count'', PInt (t_sorted t)),
      (''is_finished'', PBool (t_finished t)), (''phase'', PStr (t_phase t)),
      (''executed'', if has_robot s then PBool False else PNone),
      (''planning_task_id'', t_planning_id t), (''error'', t_error t)]"

definition push_task_result :: "int \<Rightarrow> nat \<Rightarrow> 'a dispatch_scheme \<Rightarrow> 'a dispatch_scheme" where
  "push_task_result now k s =
     fst (send_async FRONTEND
       (build_message TASK_RESULT BACKEND FRONTEND (Some (task_result s (task_obj s k))) SUCCESS ''success'' now) s)"

definition capture_cmd :: "int \<Rightarrow> pyval \<Rightarrow> message res" where
  "capture_cmd now tid =
     build_message CAPTURE_CMD BACKEND ALGORITHM (Some [(''task_id'', tid)]) SUCCESS ''success'' now"

section \<open>Business messages\<close>

definition refuse :: "int \<Rightarrow> message \<Rightarrow> int \<Rightarrow> string \<Rightarrow> 'a dispatch_scheme \<Rightarrow> 'a dispatch_scheme \<times> message option res" where
  "refuse now m c txt s =
     (s, rbind (build_message ERROR_REPORT BACKEND (source m) None c txt now) (\<lambda>r. Inr (Some r)))"

definition on_task_start :: "int \<Rightarrow> message \<Rightarrow> ('a dispatch_scheme, message option) sx" where
  "on_task_start now m s =
     (let v = get_or (data m) ''task_id'' (PStr []); tid = str_of (Some v)
      in if \<not> is_str v \<or> tid = [] \<or> 256 < py_len tid then refuse now m INVALID_PARAM TEXT_NO_TASK_ID s
         else if has_robot s \<and> (active_id s \<noteq> None
                 \<or> list_ex (\<lambda>(_, k). \<not> t_finished (task_obj s k)) (tasks s)) then
           refuse now m ROBOT_BUSY TEXT_TASK_RUNNING s
         else if has_robot s \<and> \<not> bound s then (s, Inl AttributeError)
         else if has_robot s \<and> \<not> is_online s ALGORITHM then refuse now m TARGET_OFFLINE TEXT_NO_ALGORITHM s
         else
           (let k = length (task_objs s);
                s1 = s\<lparr>task_objs := task_objs s @ [new_task tid (get_or (data m) ''category'' (PStr []))],
                       tasks := dset tid k (tasks s)\<rparr>
            in case send_async ALGORITHM (capture_cmd now v) s1 of
                 (s2, Inl e) \<Rightarrow> (s2, Inl e) | (s2, Inr _) \<Rightarrow> (s2, Inr None)))"

text \<open>\<open>self._tasks.get(task_id)\<close> with a key of any type.\<close>

definition find_task :: "pyval \<Rightarrow> 'a dispatch_scheme \<Rightarrow> nat option res" where
  "find_task v s =
     (if \<not> hashable v then Inl TypeError
      else Inr (case v of PStr t \<Rightarrow> dget (tasks s) t | _ \<Rightarrow> None))"

text \<open>Without a robot service, the legacy mode, the target goes straight to the motion module.\<close>

definition legacy_grasp :: "int \<Rightarrow> pyval \<Rightarrow> pyval \<Rightarrow> message res" where
  "legacy_grasp now tid obj =
     rbind (val_get obj ''label'' (PStr [])) (\<lambda>l.
     rbind (val_get obj ''grasp_pose'' (PDict [])) (\<lambda>p.
     rbind (val_get obj ''force_limit'' (PFloat (Fin 0))) (\<lambda>f.
       build_message GRASP_COMMAND BACKEND MOTION
         (Some [(''task_id'', tid), (''label'', l), (''grasp_pose'', p), (''force_limit'', f)])
         SUCCESS ''success'' now)))"

definition on_detection_result :: "int \<Rightarrow> message \<Rightarrow> ('a dispatch_scheme, message option) sx" where
  "on_detection_result now m s =
     (let v = get_or (data m) ''task_id'' (PStr []); objects = get_or (data m) ''objects'' (PList [])
      in case find_task v s of
           Inl e \<Rightarrow> (s, Inl e)
         | Inr None \<Rightarrow> (s, Inr None)
         | Inr (Some k) \<Rightarrow>
             if t_finished (task_obj s k) then (s, Inr None)
             else if has_robot s \<and> t_awaiting (task_obj s k) then (s, Inr None)
             else if \<not> truthy objects then
               (push_task_result now k (upd_task k (\<lambda>t. t\<lparr>t_finished := True\<rparr>) s), Inr None)
             else
               (case item0 objects of
                  Inl e \<Rightarrow> (s, Inl e)
                | Inr obj \<Rightarrow>
                    if has_robot s then
                      (schedule (BgPlan k obj) (upd_task k (\<lambda>t. t\<lparr>t_awaiting := True\<rparr>) s), Inr None)
                    else (case send_async MOTION (legacy_grasp now v obj) s of
                            (s1, Inl e) \<Rightarrow> (s1, Inl e) | (s1, Inr _) \<Rightarrow> (s1, Inr None))))"

definition on_motion_status :: "int \<Rightarrow> message \<Rightarrow> ('a dispatch_scheme, message option) sx" where
  "on_motion_status now m s =
     (if has_robot s then (s, Inr None)
      else
        (let v = get_or (data m) ''task_id'' (PStr [])
         in case find_task v s of
              Inl e \<Rightarrow> (s, Inl e)
            | Inr None \<Rightarrow> (s, Inr None)
            | Inr (Some k) \<Rightarrow>
                if get_or (data m) ''phase'' (PStr []) \<noteq> PStr ''placed'' then (s, Inr None)
                else
                  (let s1 = (if truthy (get_or (data m) ''is_success'' (PBool False))
                             then upd_task k (\<lambda>t. t\<lparr>t_sorted := t_sorted t + 1\<rparr>) s else s)
                   in case send_async ALGORITHM (capture_cmd now v) (push_task_result now k s1) of
                        (s2, Inl e) \<Rightarrow> (s2, Inl e) | (s2, Inr _) \<Rightarrow> (s2, Inr None))))"

text \<open>\<open>for task in self._tasks.values()\<close>.\<close>

definition for_tasks :: "(nat \<Rightarrow> 'a dispatch_scheme \<Rightarrow> 'a dispatch_scheme) \<Rightarrow> 'a dispatch_scheme \<Rightarrow> 'a dispatch_scheme" where
  "for_tasks f s = foldl (\<lambda>s k. f k s) s (map snd (tasks s))"

definition on_error_report :: "message \<Rightarrow> ('a dispatch_scheme, message option) sx" where
  "on_error_report m s =
     (if code m = EMERGENCY_STOP then for_tasks (\<lambda>k. upd_task k (\<lambda>t. t\<lparr>t_finished := True\<rparr>)) s else s,
      Inr None)"

definition dispatch_on_message :: "int \<Rightarrow> message \<Rightarrow> ('a dispatch_scheme, message option) sx" where
  "dispatch_on_message now m s =
     (if msg_type m = TASK_START then on_task_start now m s
      else if msg_type m = DETECTION_RESULT then on_detection_result now m s
      else if msg_type m = MOTION_STATUS then on_motion_status now m s
      else if msg_type m = ERROR_REPORT then on_error_report m s
      else refuse now m INVALID_PARAM (TEXT_UNSUPPORTED @ msg_type m) s)"

text \<open>A task fails, and the frontend is told.\<close>

definition fail_task :: "int \<Rightarrow> int \<Rightarrow> string \<Rightarrow> nat \<Rightarrow> 'a dispatch_scheme \<Rightarrow> 'a dispatch_scheme" where
  "fail_task now c txt k s =
     push_task_result now k
       (upd_task k (\<lambda>t. t\<lparr>t_finished := True, t_phase := ''failed'', t_error := PDict (error_dict c txt)\<rparr>) s)"

definition dispatch_on_disconnect :: "int \<Rightarrow> string \<Rightarrow> 'a dispatch_scheme \<Rightarrow> 'a dispatch_scheme" where
  "dispatch_on_disconnect now md s =
     (if has_robot s \<and> md = ALGORITHM
      then for_tasks (\<lambda>k s. if \<not> t_finished (task_obj s k) \<and> \<not> t_awaiting (task_obj s k)
                            then fail_task now TARGET_OFFLINE TEXT_ALGORITHM_LOST k s else s) s
      else s)"

section \<open>\_plan\_target\<close>

text \<open>The callback \<open>finished\<close>, and the \<open>except\<close> clause.\<close>

definition dispatch_on_finished :: "int \<Rightarrow> nat \<Rightarrow> task_view \<Rightarrow> 'a dispatch_scheme \<Rightarrow> 'a dispatch_scheme" where
  "dispatch_on_finished now k v s =
     push_task_result now k
       (upd_task k (\<lambda>t. t\<lparr>t_finished := True, t_phase := v_status v,
                        t_error := (case v_error v of None \<Rightarrow> PNone | Some e \<Rightarrow> e),
                        t_planning_id := PStr (v_task_id v)\<rparr>) s)"

definition plan_refused :: "'l lib_scheme \<Rightarrow> int \<Rightarrow> gexc \<Rightarrow> nat \<Rightarrow> 'a dispatch_scheme \<Rightarrow> 'a dispatch_scheme" where
  "plan_refused L now e k s =
     (case e of
        GatewayError st c txt \<Rightarrow> fail_task now c txt k s
      | PyError x \<Rightarrow> fail_task now 1000 (lib_text L x) k s
      | Cancelled \<Rightarrow> s)"

definition target_request :: "'l lib_scheme \<Rightarrow> pyval \<Rightarrow> plan_request res" where
  "target_request L obj =
     rbind (val_get obj ''grasp_pose'' (PDict [])) (\<lambda>p.
     rbind (val_get obj ''force_limit'' (PFloat (Fin 5))) (\<lambda>f.
       validate_request L (PDict [(''grasp_pose'', p), (''force_limit'', f)])))"

text \<open>The first schedule: the request is built and checked, then the lock is awaited.\<close>

definition plan_target_start ::
  "'l lib_scheme \<Rightarrow> settings \<Rightarrow> int \<Rightarrow> nat \<Rightarrow> nat \<Rightarrow> pyval \<Rightarrow> 'a dispatch_scheme \<Rightarrow> 'a dispatch_scheme" where
  "plan_target_start L S now i k obj s =
     (case target_request L obj of
        Inl e \<Rightarrow> discard i (plan_refused L now (PyError e) k s)
      | Inr rq \<Rightarrow>
          (case submit_check S rq of
             Inl e \<Rightarrow> discard i (plan_refused L now e k s)
           | Inr _ \<Rightarrow> await_at i (BgSubmit k rq) s))"

text \<open>The lock is granted.\<close>

definition plan_target_enter ::
  "'l lib_scheme \<Rightarrow> int \<Rightarrow> nat \<Rightarrow> nat \<Rightarrow> plan_request \<Rightarrow> string \<Rightarrow> 'a dispatch_scheme \<Rightarrow> 'a dispatch_scheme" where
  "plan_target_enter L now i k rq tid s =
     (case submit_enter tid rq (Some k) s of
        (s1, Inl e) \<Rightarrow> discard i (plan_refused L now e k s1)
      | (s1, Inr _) \<Rightarrow> await_at i (BgCreating k) s1)"

text \<open>\<open>submit\<close> returned or raised.\<close>

definition plan_target_done ::
  "'l lib_scheme \<Rightarrow> int \<Rightarrow> nat \<Rightarrow> nat \<Rightarrow> gexc + string \<Rightarrow> 'a dispatch_scheme \<Rightarrow> 'a dispatch_scheme" where
  "plan_target_done L now i k r s =
     (case r of
        Inr tid \<Rightarrow> discard i (upd_task k (\<lambda>t. t\<lparr>t_planning_id := PStr tid\<rparr>) s)
      | Inl e \<Rightarrow> discard i (plan_refused L now e k s))"

section \<open>Background sends and close\<close>

definition background_send ::
  "bool \<Rightarrow> nat \<Rightarrow> string \<Rightarrow> message \<Rightarrow> 'a dispatch_scheme \<Rightarrow> 'a dispatch_scheme" where
  "background_send free i md m s =
     (case send_start free md m s of
        (s1, Inr (Queued c m)) \<Rightarrow> await_at i (BgQueued c m) s1
      | (s1, Inr (Written c)) \<Rightarrow> await_at i (BgDrain c) s1
      | (s1, _) \<Rightarrow> discard i s1)"

text \<open>The send lock is granted.\<close>

definition background_queued :: "nat \<Rightarrow> nat \<Rightarrow> message \<Rightarrow> 'a dispatch_scheme \<Rightarrow> 'a dispatch_scheme" where
  "background_queued i c m s =
     (case send_write c m s of
        (s1, Inl _) \<Rightarrow> discard i s1 | (s1, Inr _) \<Rightarrow> await_at i (BgDrain c) s1)"

definition background_sent ::
  "(string \<Rightarrow> 'a dispatch_scheme \<Rightarrow> 'a dispatch_scheme) \<Rightarrow> bool \<Rightarrow> nat \<Rightarrow> nat \<Rightarrow> 'a dispatch_scheme
     \<Rightarrow> 'a dispatch_scheme" where
  "background_sent on_disc drained i c s = discard i (send_finish on_disc drained c s)"

text \<open>
  \<open>close\<close> cancels every coroutine. Cancellation ends it where it waits, except inside
  \<open>submit\<close>, which shields the database thread and ends by itself.
\<close>

definition background_cancel :: "'a dispatch_scheme \<Rightarrow> nat \<times> coroutine \<Rightarrow> 'a dispatch_scheme" where
  "background_cancel s = (\<lambda>(i, b). case b of BgCreating k \<Rightarrow> submit_cancel s | _ \<Rightarrow> discard i s)"

definition dispatch_close :: "'a dispatch_scheme \<Rightarrow> 'a dispatch_scheme" where
  "dispatch_close s = foldl background_cancel s (background s)"

section \<open>Frames\<close>

text \<open>What dispatching changes lies above the robot service.\<close>

lemma robot_truncateD:
  assumes "robot.truncate s' = robot.truncate s"
  shows "server.truncate s' = server.truncate s" "robot_view s' = robot_view s" "futures s' = futures s"
  using assms by (auto simp: robot.defs server.defs robot_view_def robot_part_def)

lemma dispatch_fields [simp]:
  "robot.truncate (schedule b s) = robot.truncate s"
  "robot.truncate (discard i s) = robot.truncate s"
  "robot.truncate (await_at i b s) = robot.truncate s"
  "robot.truncate (upd_task k f s) = robot.truncate s"
  "robot.truncate (fst (send_async md r s)) = robot.truncate s"
  by (simp_all add: schedule_def discard_def await_at_def upd_task_def send_async_def robot.defs split: sum.split)

lemma push_fields [simp]:
  "robot.truncate (push_task_result now k s) = robot.truncate s"
  "robot.truncate (fail_task now c txt k s) = robot.truncate s"
  "robot.truncate (plan_refused L now e k s) = robot.truncate s"
  "robot.truncate (plan_target_done L now i k r s) = robot.truncate s"
  "robot.truncate (plan_target_start L S now i k obj s) = robot.truncate s"
  "robot.truncate (dispatch_on_finished now k v s) = robot.truncate s"
  by (simp_all add: push_task_result_def fail_task_def plan_refused_def plan_target_done_def
      plan_target_start_def dispatch_on_finished_def split: gexc.split sum.split)

lemma for_tasks_frame:
  assumes "\<And>k s. robot.truncate (f k s) = robot.truncate s"
  shows "robot.truncate (for_tasks f s) = robot.truncate s"
proof -
  have "robot.truncate (foldl (\<lambda>s k. f k s) s ks) = robot.truncate s" for ks
    by (induction ks arbitrary: s) (simp_all add: assms)
  then show ?thesis by (simp add: for_tasks_def)
qed

lemma dispatch_on_disconnect_frame [simp]:
  "robot.truncate (dispatch_on_disconnect now md s) = robot.truncate s"
  by (simp add: dispatch_on_disconnect_def for_tasks_frame)

lemma fst_returning [simp]:
  "fst (case x of (s1, Inl e) \<Rightarrow> (s1, Inl e) | (s1, Inr u) \<Rightarrow> (s1, Inr v)) = fst x"
  by (cases x; cases "snd x") auto

lemma new_task_frame [simp]:
  "robot.truncate (s\<lparr>task_objs := x, tasks := y\<rparr>) = robot.truncate s"
  by (simp add: robot.defs)

lemma dispatch_handlers_frame [simp]:
  "robot.truncate (fst (refuse now m c y s)) = robot.truncate s"
  "robot.truncate (fst (on_task_start now m s)) = robot.truncate s"
  "robot.truncate (fst (on_detection_result now m s)) = robot.truncate s"
  "robot.truncate (fst (on_motion_status now m s)) = robot.truncate s"
  "robot.truncate (fst (on_error_report m s)) = robot.truncate s"
proof -
  have R: "robot.truncate (fst (refuse now m c x s)) = robot.truncate s" for c x by (simp add: refuse_def)
  then show "robot.truncate (fst (refuse now m c y s)) = robot.truncate s" .
  show "robot.truncate (fst (on_task_start now m s)) = robot.truncate s"
    by (simp add: on_task_start_def Let_def R)
  show "robot.truncate (fst (on_detection_result now m s)) = robot.truncate s"
    by (simp add: on_detection_result_def Let_def split: sum.split option.split)
  show "robot.truncate (fst (on_motion_status now m s)) = robot.truncate s"
    by (simp add: on_motion_status_def Let_def split: sum.split option.split)
  show "robot.truncate (fst (on_error_report m s)) = robot.truncate s"
    by (simp add: on_error_report_def for_tasks_frame)
qed

lemma dispatch_on_message_frame [simp]:
  "robot.truncate (fst (dispatch_on_message now m s)) = robot.truncate s"
  by (simp add: dispatch_on_message_def)

end
