(* ===== verification/Application.thy ===== *)
theory Application
  imports DispatchService
begin

text \<open>
  \<open>backend/app/api/application.py\<close>, the callbacks by which \<open>create_app\<close> joins the components to
  the TCP server, and the proof that they are callbacks the server and the robot service may rely on.
\<close>

section \<open>The callbacks\<close>

text \<open>\<open>on_message\<close> and \<open>on_disconnect\<close>: the adapter first.\<close>

definition gateway_on_message :: "int \<Rightarrow> message \<Rightarrow> ('a dispatch_scheme, message option) sx" where
  "gateway_on_message now m s =
     (case adapter_on_message m s of
        (s1, True) \<Rightarrow> (s1, Inr None) | (s1, False) \<Rightarrow> dispatch_on_message now m s1)"

definition gateway_on_disconnect :: "int \<Rightarrow> string \<Rightarrow> 'a dispatch_scheme \<Rightarrow> 'a dispatch_scheme" where
  "gateway_on_disconnect now md s = dispatch_on_disconnect now md (adapter_on_disconnect md s)"

lemma adapter_part:
  assumes "adapter.more s' = adapter.more s" "pending s' = pending s"
  shows "robot_view s' = robot_view s"
  using assms robot_cong [of s' s] by (simp add: robot_view_def)

lemma refuse_reply: "snd (refuse now m c y s) = Inr (Some r) \<Longrightarrow> msg_type r = ERROR_REPORT"
  by (auto simp: refuse_def res_simps dest: build_message_fields)

lemma no_reply:
  "snd (case x of (s1, Inl e) \<Rightarrow> (s1, Inl e) | (s1, Inr u) \<Rightarrow> (s1, Inr None)) \<noteq> Inr (Some r)"
  by (cases x; cases "snd x") auto

lemma on_task_start_reply: "snd (on_task_start now m s) = Inr (Some r) \<Longrightarrow> msg_type r = ERROR_REPORT"
  by (auto simp: on_task_start_def Let_def no_reply split: if_splits dest: refuse_reply)

lemma dispatch_reply: "snd (dispatch_on_message now m s) = Inr (Some r) \<Longrightarrow> msg_type r = ERROR_REPORT"
  using on_task_start_reply refuse_reply
  by (auto simp: dispatch_on_message_def on_detection_result_def on_motion_status_def on_error_report_def
      Let_def no_reply split: if_splits sum.splits option.splits)

lemma gateway_on_message_fst:
  "fst (gateway_on_message now m s) =
     (if snd (adapter_on_message m s) then fst (adapter_on_message m s)
      else fst (dispatch_on_message now m (fst (adapter_on_message m s))))"
  by (cases "adapter_on_message m s"; cases "snd (adapter_on_message m s)")
    (simp_all add: gateway_on_message_def)

lemma gateway_frames:
  "server.truncate (fst (gateway_on_message now m s)) = server.truncate s"
  "robot_view (fst (gateway_on_message now m s)) = robot_view s"
  "server.truncate (gateway_on_disconnect now md s) = server.truncate s"
  "robot_view (gateway_on_disconnect now md s) = robot_view s"
  "server.truncate (dispatch_on_finished now k v s) = server.truncate s"
  "robot_view (dispatch_on_finished now k v s) = robot_view s"
proof -
  let ?a = "fst (adapter_on_message m s)"
  note D = robot_truncateD [OF dispatch_on_message_frame, of now m ?a]
  have a: "robot_view ?a = robot_view s" by (rule adapter_part) (simp_all add: more_simps)
  show "server.truncate (fst (gateway_on_message now m s)) = server.truncate s"
    by (simp add: gateway_on_message_fst D(1))
  show "robot_view (fst (gateway_on_message now m s)) = robot_view s"
    by (simp add: gateway_on_message_fst D(2) a)
  note E = robot_truncateD [OF dispatch_on_disconnect_frame, of now md "adapter_on_disconnect md s"]
  have b: "robot_view (adapter_on_disconnect md s) = robot_view s" by (rule adapter_part) (simp_all add: more_simps)
  show "server.truncate (gateway_on_disconnect now md s) = server.truncate s"
    by (simp add: gateway_on_disconnect_def E(1))
  show "robot_view (gateway_on_disconnect now md s) = robot_view s"
    by (simp add: gateway_on_disconnect_def E(2) b)
  note F = robot_truncateD [OF push_fields(6), of now k v s]
  show "server.truncate (dispatch_on_finished now k v s) = server.truncate s"
    "robot_view (dispatch_on_finished now k v s) = robot_view s" by (simp_all add: F)
qed

lemma gateway_reply:
  "snd (gateway_on_message now m s) = Inr (Some r) \<Longrightarrow> msg_type r = ERROR_REPORT"
  by (cases "adapter_on_message m s"; cases "snd (adapter_on_message m s)")
    (auto simp: gateway_on_message_def dest: dispatch_reply)

text \<open>The server and the robot service may rely on these callbacks.\<close>

interpretation gw: robot_callbacks "gateway_on_message now" "gateway_on_disconnect now"
  "dispatch_on_finished now" for now
  by unfold_locales (simp_all add: gateway_frames gateway_reply)

end
