(* ===== verification/GatewaySteps.thy ===== *)
theory GatewaySteps
  imports Application
begin

text \<open>
  The gateway as a transition system. One step is one uninterrupted stretch of some coroutine,
  with the environment's choices (lines received, drains and database threads that end or fail,
  timeouts, cancellations) as its parameters. The invariants of the server and of the robot
  service hold in every reachable state.
\<close>

section \<open>The gateway as a transition system\<close>

type_synonym gateway = dispatch

text \<open>The caller that \<open>submit\<close> returns to: the coroutine of a detection task, or an HTTP request.\<close>

fun lock_cb :: "submission \<Rightarrow> nat option" where
  "lock_cb (LCreating tid p cb c) = cb"
| "lock_cb (LAborting tid cb) = cb"
| "lock_cb _ = None"

definition creating_key :: "nat \<Rightarrow> 'a dispatch_scheme \<Rightarrow> nat option" where
  "creating_key k s = map_option fst (find (\<lambda>p. snd p = BgCreating k) (background s))"

definition after_submit ::
  "'l lib_scheme \<Rightarrow> int \<Rightarrow> nat option \<Rightarrow> 'a dispatch_scheme \<times> (gexc + string) option \<Rightarrow> 'a dispatch_scheme" where
  "after_submit L now cb p =
     (case p of
        (s, Some r) \<Rightarrow>
          (case cb of None \<Rightarrow> s
           | Some k \<Rightarrow> (case creating_key k s of None \<Rightarrow> s | Some i \<Rightarrow> plan_target_done L now i k r s))
      | (s, None) \<Rightarrow> s)"

text \<open>The send lock of a connection is held during a drain, by a coroutine or by the worker.\<close>

definition send_busy :: "'a dispatch_scheme \<Rightarrow> nat \<Rightarrow> bool" where
  "send_busy s c \<longleftrightarrow>
     list_ex (\<lambda>p. snd p = BgDrain c) (background s)
     \<or> (case worker s of None \<Rightarrow> False
        | Some w \<Rightarrow> (case w_phase w of WSending r d \<Rightarrow> d = c | _ \<Rightarrow> False))"

text \<open>A send finds the lock of its target \<open>free\<close> only when nobody holds it.\<close>

definition may_send :: "bool \<Rightarrow> string \<Rightarrow> 'a dispatch_scheme \<Rightarrow> bool" where
  "may_send free md s \<longleftrightarrow>
     \<not> free \<or> (case dget (sessions s) md of None \<Rightarrow> True | Some c \<Rightarrow> \<not> send_busy s c)"

text \<open>
  The first argument of a step collects the tasks it gives up while their row is \<open>planning\<close>.
  A closed transport (\<open>lost\<close>) can precede the end of its connection's handler (\<open>ended\<close>).
\<close>

inductive gstep :: "'l lib_scheme \<Rightarrow> settings \<Rightarrow> string set \<Rightarrow> gateway \<Rightarrow> gateway \<Rightarrow> bool"
  for L :: "'l lib_scheme" and S :: settings where
  connected: "c = next_conn s \<Longrightarrow> listening s \<Longrightarrow> gstep L S {} s (connect tick c s)"
| line: "conns s c \<noteq> None \<Longrightarrow>
    gstep L S {} s (handle_line (gateway_on_message now) (gateway_on_disconnect now) now tick c l s)"
| lost: "gstep L S {} s (close_writer c s)"
| ended: "conns s c \<noteq> None \<Longrightarrow> gstep L S {} s (end_client (gateway_on_disconnect now) c s)"
| patrol: "gstep L S {} s (heartbeat_patrol (gateway_on_disconnect now) tick s)"
| send: "dget (background s) i = Some (BgSend md m) \<Longrightarrow> may_send free md s \<Longrightarrow>
    gstep L S {} s (background_send free i md m s)"
| granted: "dget (background s) i = Some (BgQueued c m) \<Longrightarrow> \<not> send_busy s c \<Longrightarrow>
    gstep L S {} s (background_queued i c m s)"
| sent: "dget (background s) i = Some (BgDrain c) \<Longrightarrow>
    gstep L S {} s (background_sent (gateway_on_disconnect now) drained i c s)"
| plan_start: "dget (background s) i = Some (BgPlan k obj) \<Longrightarrow> gstep L S {} s (plan_target_start L S now i k obj s)"
| plan_enter: "dget (background s) i = Some (BgSubmit k rq) \<Longrightarrow> sub_lock s = LFree \<Longrightarrow>
    gstep L S {} s (plan_target_enter L now i k rq tid s)"
| http_enter: "submit_check S rq = Inr () \<Longrightarrow> sub_lock s = LFree \<Longrightarrow> gstep L S {} s (fst (submit_enter tid rq None s))"
| http_cancel: "sub_lock s = LCreating tid p None c \<Longrightarrow> gstep L S {} s (submit_cancel s)"
| created: "sub_lock s = LCreating tid p cb c \<Longrightarrow>
    gstep L S {} s (after_submit L now cb (submit_created dbok now s))"
| aborted: "sub_lock s = LAborting tid cb \<Longrightarrow>
    gstep L S (if snd (submit_aborted dbok now s) = Some (Inl Cancelled) then {} else {tid}) s
      (after_submit L now cb (submit_aborted dbok now s))"
| abandoned: "sub_lock s = LCreating tid p cb True \<or> sub_lock s = LAborting tid cb \<Longrightarrow>
    gstep L S {tid} s (after_submit L now cb (submit_abandoned thr now s))"
| started: "worker s = Some w \<Longrightarrow> w_phase w = WCreated \<Longrightarrow> may_send free MOTION s \<Longrightarrow>
    gstep L S {} s (run_start free L S now w s)"
| queued: "worker s = Some w \<Longrightarrow> w_phase w = WQueued r c m \<Longrightarrow> \<not> send_busy s c \<Longrightarrow>
    gstep L S {} s (run_queued L S w r c m s)"
| drained: "worker s = Some w \<Longrightarrow> w_phase w = WSending r c \<Longrightarrow>
    gstep L S {} s (run_sent (gateway_on_disconnect now) L S ok w r c s)"
| replied: "worker s = Some w \<Longrightarrow> w_phase w = WWaiting r \<Longrightarrow> future_done s r \<Longrightarrow> gstep L S {} s (run_reply L S w r s)"
| timed_out: "worker s = Some w \<Longrightarrow> phase_pending (w_phase w) (w_task w) = [(w_task w, r)] \<Longrightarrow>
    gstep L S {} s (run_timeout L S w r s)"
| saved: "worker s = Some w \<Longrightarrow> w_phase w = WSaving st rs er \<Longrightarrow>
    gstep L S (case db_finish dbok now (w_task w) st rs er (db s) of Inl _ \<Rightarrow> {w_task w} | Inr _ \<Rightarrow> {}) s
      (run_saved dbok now w st rs er s)"
| notified: "worker s = Some w \<Longrightarrow> w_phase w = WNotifying \<Longrightarrow>
    gstep L S {} s (run_notified (dispatch_on_finished now) dbok w s)"
| close_requested: "gstep L S {} s (close_request s)"
| close_entered: "closing s \<Longrightarrow> sub_lock s = LFree \<Longrightarrow>
    (delivered \<or> (\<exists>w r. worker s = Some w \<and> w_phase w = WWaiting r \<and> future_done s r)) \<Longrightarrow>
    gstep L S (if delivered then given_up thr now s else {}) s (close_enter L S delivered thr now s)"
| close_finished: "sub_lock s = LClosing \<Longrightarrow> idle (worker s) \<Longrightarrow> gstep L S {} s (close_finish dbok now s)"
| dispatch_closed: "closing s \<Longrightarrow> gstep L S {} s (dispatch_close s)"
| listener_closed: "closing s \<Longrightarrow> gstep L S {} s (close_listener s)"
| clients_closed: "closing s \<Longrightarrow> gstep L S {} s (close_clients (gateway_on_disconnect now) s)"

text \<open>The state after the start of \<open>lifespan\<close>, on the database file found.\<close>

definition gateway_start :: "int \<Rightarrow> table option \<Rightarrow> gateway" where
  "gateway_start now disk =
     \<lparr>conns = \<lambda>_. None, clients = [], sessions = [], sent = [], listening = True, next_conn = 0,
      futures = [], pending = [],
      active_id = None, worker = None, closing = False, sub_lock = LFree,
      db = snd (recover_interrupted now (initialize disk)),
      tasks = [], task_objs = [], background = [], next_bg = 0, has_robot = True, bound = True\<rparr>"

inductive reachable :: "'l lib_scheme \<Rightarrow> settings \<Rightarrow> table option \<Rightarrow> string set \<Rightarrow> gateway \<Rightarrow> bool"
  for L :: "'l lib_scheme" and S :: settings and disk :: "table option" where
  start: "reachable L S disk {} (gateway_start now disk)"
| step: "reachable L S disk A s \<Longrightarrow> gstep L S B s s' \<Longrightarrow> reachable L S disk (A \<union> B) s'"

section \<open>The invariants of every reachable state\<close>

lemma robot_inv_mono: "robot_inv A s \<Longrightarrow> A \<subseteq> B \<Longrightarrow> robot_inv B s"
  by (cases "sub_lock s") (auto simp: robot_inv_def)

lemma robot_inv_dispatch: "robot.truncate s' = robot.truncate s \<Longrightarrow> robot_inv A s' = robot_inv A s"
  by (rule robot_inv_view) (rule robot_truncateD(2))

lemma server_inv_truncate: "server.truncate s' = server.truncate s \<Longrightarrow> server_inv s' = server_inv s"
  by (rule server_inv_cong) (auto simp: server.defs)

lemma after_submit_frame: "robot.truncate (after_submit L now cb p) = robot.truncate (fst p)"
  by (simp add: after_submit_def split: prod.split option.split)

lemma robot_inv_after_submit: "robot_inv A (after_submit L now cb p) = robot_inv A (fst p)"
  by (rule robot_inv_dispatch) (rule after_submit_frame)

lemma robot_inv_start: 
  assumes "\<And>t. disk = Some t \<Longrightarrow> table_ok t"
  shows "robot_inv A (gateway_start now disk)"
proof -
  have "table_ok (initialize disk)" using assms by (cases disk) (auto simp: initialize_def table_ok_def)
  then show ?thesis
    by (auto simp: robot_inv_def gateway_start_def table_ok_recover status_simps status_consts)
qed

lemma robot_inv_background [simp]:
  "robot_inv A (discard i s) = robot_inv A s"
  "robot_inv A (await_at i b s) = robot_inv A s"
  "robot_inv A (plan_refused L now e k s) = robot_inv A s"
  "robot_inv A (plan_target_start L S now i k obj s) = robot_inv A s"
  by (rule robot_inv_dispatch, simp)+

lemma background_send_view:
  "robot_view (background_send free i md m s) = robot_view s"
  "robot_view (background_queued i c m s) = robot_view s"
proof -
  have v: "robot_view (discard i x) = robot_view x" "robot_view (await_at i b x) = robot_view x"
    for x :: "'a dispatch_scheme" and b by (rule robot_truncateD(2), simp)+
  have "robot_view (fst (send_start free md m s)) = robot_view s"
    by (rule robot_view_more) (simp add: more_simps)
  then show "robot_view (background_send free i md m s) = robot_view s"
    by (cases "send_start free md m s") (simp add: background_send_def v split: sum.split sending.split)
  have "robot_view (fst (send_write c m s)) = robot_view s"
    by (rule robot_view_more) (simp add: more_simps)
  then show "robot_view (background_queued i c m s) = robot_view s"
    by (cases "send_write c m s") (simp add: background_queued_def v split: sum.split)
qed

lemma dispatch_close_inv: "robot_inv A s \<Longrightarrow> robot_inv A (dispatch_close s)"
proof -
  have one: "robot_inv A s \<Longrightarrow> robot_inv A (background_cancel s p)" for p and s :: "'a dispatch_scheme"
    by (cases p; cases "snd p")
      (simp_all add: background_cancel_def inv_submit_cancel)
  have "robot_inv A s \<Longrightarrow> robot_inv A (foldl background_cancel s ps)" for ps and s :: "'a dispatch_scheme"
    by (induction ps arbitrary: s) (simp_all add: one)
  then show "robot_inv A s \<Longrightarrow> ?thesis" by (simp add: dispatch_close_def)
qed

lemma plan_target_enter_inv:
  "robot_inv A s \<Longrightarrow> sub_lock s = LFree \<Longrightarrow> robot_inv A (plan_target_enter L now i k rq tid s)"
  using inv_submit_enter [of A s tid rq "Some k"]
  by (cases "submit_enter tid rq (Some k) s") (simp add: plan_target_enter_def split: sum.split)

text \<open>Every step keeps the invariant of submission and worker, up to the tasks it gives up.\<close>

lemma gstep_robot_inv:
  assumes "gstep L S B s s'" and I: "robot_inv A s"
  shows "robot_inv (A \<union> B) s'"
  using assms(1)
proof cases
  case (send i md m free)
  then show ?thesis using I robot_inv_view [OF background_send_view(1), of A free i md m s] by simp
next
  case (granted i c m)
  then show ?thesis using I robot_inv_view [OF background_send_view(2), of A i c m s] by simp
next
  case (sent i c now drained)
  have "robot_inv A s'"
    using I gw.robot_inv_server(6) [of A now drained c s]
    by (simp add: sent background_sent_def)
  then show ?thesis using sent by simp
next
  case (plan_start i k obj now)
  then show ?thesis using I by simp
next
  case (plan_enter i k rq now tid)
  then show ?thesis using I by (simp add: plan_target_enter_inv)
next
  case (http_enter rq tid)
  then show ?thesis using I by (simp add: inv_submit_enter)
next
  case (http_cancel tid p c)
  then show ?thesis using I by (simp add: inv_submit_cancel)
next
  case (created tid p cb c now dbok)
  then show ?thesis using inv_submit_created [OF I] by (simp add: robot_inv_after_submit)
next
  case (aborted tid cb dbok now)
  then show ?thesis
    using inv_submit_aborted [OF I aborted(3), of dbok now] by (simp add: robot_inv_after_submit split: if_splits)
next
  case (abandoned tid p cb now thr)
  then show ?thesis using inv_submit_abandoned [OF I] by (simp add: robot_inv_after_submit)
next
  case (started w free now)
  then show ?thesis using I by (simp add: inv_run_start)
next
  case (queued w r c m)
  then show ?thesis using I by (simp add: inv_run_queued)
next
  case (drained w r c now ok)
  then show ?thesis by (simp add: gw.inv_run_sent [OF I])
next
  case (replied w r)
  then show ?thesis by (auto simp: run_reply_def intro: inv_run_finish_wait [OF I])
next
  case (timed_out w r)
  then show ?thesis by (auto simp: run_timeout_def intro: inv_run_finish_wait [OF I])
next
  case (saved w st rs er dbok now)
  then show ?thesis using inv_run_saved [OF I saved(3,4), of dbok now] by (simp split: sum.splits)
next
  case (notified w now dbok)
  then show ?thesis using gw.inv_run_notify [OF I] by simp
next
  case close_requested
  then show ?thesis using I by (simp add: inv_close_request)
next
  case (close_entered delivered thr now)
  then show ?thesis using inv_close_enter [OF I close_entered(3,4), of delivered thr now L S] by (simp only: close_entered(1,2))
next
  case (close_finished dbok now)
  then show ?thesis using inv_close_finish [OF I] by simp
next
  case dispatch_closed
  then show ?thesis using I by (simp add: dispatch_close_inv)
next
  case (lost c)
  have "robot_view s' = robot_view s" by (rule robot_view_more) (simp add: lost more_simps)
  then show ?thesis using I lost robot_inv_view [of s' s] by simp
qed (use I in \<open>simp_all add: gw.robot_inv_server\<close>)

text \<open>Every step keeps the registry's invariant.\<close>

lemma robot_ops_truncate:
  "server.truncate (set_phase p s) = server.truncate s"
  "server.truncate (run_end s) = server.truncate s"
  "server.truncate (s\<lparr>db := t\<rparr>) = server.truncate s"
  "server.truncate (release_submission s) = server.truncate s"
  by (simp_all add: run_end_def release_submission_def set_phase_def server.defs)

lemma run_save_truncate: "server.truncate (run_save L S w r x s) = server.truncate s"
  by (simp add: run_save_def robot_ops_truncate more_simps split: prod.split)

lemma server_inv_ops [simp]:
  "server_inv (set_phase p s) = server_inv s" "server_inv (run_end s) = server_inv s"
  "server_inv (s\<lparr>db := t\<rparr>) = server_inv s" "server_inv (release_submission s) = server_inv s"
  "server_inv (run_save L S w r x s) = server_inv s"
  by (rule server_inv_truncate, rule robot_ops_truncate run_save_truncate)+

lemma server_inv_more_ops [simp]:
  "server_inv (submit_cancel s) = server_inv s" "server_inv (fst (submit_enter tid rq cb s)) = server_inv s"
  "server_inv (close_request s) = server_inv s" "server_inv (close_finish dbok now s) = server_inv s"
  "server_inv (fst (submit_created dbok now s)) = server_inv s"
  "server_inv (fst (submit_aborted dbok now s)) = server_inv s"
  "server_inv (fst (submit_abandoned thr now s)) = server_inv s"
  by (rule server_inv_cong;
      simp add: submit_cancel_def submit_enter_def close_request_def
        close_finish_def submit_created_def submit_aborted_def submit_abandoned_def
        release_submission_def split: submission.split option.split sum.split bool.split)+

lemma server_inv_dispatch_ops [simp]:
  "server_inv (discard i s) = server_inv s" "server_inv (await_at i b s) = server_inv s"
  "server_inv (plan_refused L now e k s) = server_inv s"
  "server_inv (plan_target_start L S now i k obj s) = server_inv s"
  "server_inv (dispatch_on_finished now k v s) = server_inv s"
  "server_inv (after_submit L now cb p) = server_inv (fst p)"
  by (rule server_inv_truncate [OF robot_truncateD(1)], simp add: after_submit_frame)+

lemma server_inv_run_start: "server_inv (run_start free L S now w s) = server_inv s"
proof -
  obtain s1 r res where b: "plan_begin free now (w_task w) (w_payload w) s = (s1, r, res)"
    by (cases "plan_begin free now (w_task w) (w_payload w) s") auto
  have "server_inv s1 = server_inv s" by (rule server_inv_cong) (rule plan_begin_fields [OF b])+
  then show ?thesis by (simp add: run_start_def b split: sum.split sending.split)
qed

lemma server_inv_send_write: "server_inv (fst (send_write c m s)) = server_inv s"
  by (rule server_inv_cong) (simp_all add: server_simps)

lemma server_inv_run_queued: "server_inv (run_queued L S w r c m s) = server_inv s"
  using server_inv_send_write [of c m s]
  by (cases "send_write c m s") (simp add: run_queued_def split: sum.split)

lemma server_inv_run_cancel: "server_inv (run_cancel L S thr now w s) = server_inv s"
  by (simp add: run_cancel_def split: phase.split sum.split)

lemma server_inv_background_send:
  "server_inv (background_send free i md m s) = server_inv s"
  "server_inv (background_queued i c m s) = server_inv s"
proof -
  have "server_inv (fst (send_start free md m s)) = server_inv s"
    by (rule server_inv_cong) (simp_all add: server_simps)
  then show "server_inv (background_send free i md m s) = server_inv s"
    by (cases "send_start free md m s") (simp add: background_send_def split: sum.split sending.split)
  show "server_inv (background_queued i c m s) = server_inv s"
    using server_inv_send_write [of c m s]
    by (cases "send_write c m s") (simp add: background_queued_def split: sum.split)
qed

lemma server_inv_dispatch_close: "server_inv (dispatch_close s) = server_inv s"
proof -
  have one: "server_inv (background_cancel s p) = server_inv s" for p and s :: "'a dispatch_scheme"
    by (cases p; cases "snd p") (simp_all add: background_cancel_def)
  have "server_inv (foldl background_cancel s ps) = server_inv s" for ps and s :: "'a dispatch_scheme"
    by (induction ps arbitrary: s) (simp_all add: one)
  then show ?thesis by (simp add: dispatch_close_def)
qed

lemma server_inv_close_enter: "server_inv (close_enter L S delivered thr now s) = server_inv s"
proof -
  have "server_inv (s\<lparr>sub_lock := x\<rparr>) = server_inv s" for x by (rule server_inv_cong) simp_all
  then show ?thesis by (simp add: close_enter_def Let_def server_inv_run_cancel split: option.split)
qed

lemma gstep_server_inv:
  assumes "gstep L S B s s'" and I: "server_inv s"
  shows "server_inv s'"
  using assms(1)
proof cases
  case (plan_enter i k rq now tid)
  then show ?thesis
    using I server_inv_more_ops(2) [of tid rq "Some k" s]
    by (cases "submit_enter tid rq (Some k) s") (simp add: plan_target_enter_def split: sum.split)
next
  case (notified w now dbok)
  then show ?thesis
    using I by (simp add: run_notified_def split: prod.split option.split sum.split)
next
  case (drained w r c now ok)
  then show ?thesis using gw.inv_send_finish [OF I, of now ok c] by (cases ok) (simp_all add: run_sent_def Let_def)
next
  case (saved w st rs er dbok now)
  then show ?thesis using I by (simp add: run_saved_def split: sum.split)
qed (use I in \<open>simp_all add: inv_connect inv_close_writer server_inv_run_start server_inv_run_queued
      gw.inv_handle_line gw.inv_end_client gw.inv_heartbeat_patrol gw.inv_close_clients inv_close_listener
      server_inv_background_send background_sent_def gw.inv_send_finish run_reply_def run_timeout_def
      server_inv_dispatch_close server_inv_close_enter\<close>)

end
