(* ===== verification/GatewayRuns.thy ===== *)
theory GatewayRuns
  imports GatewaySteps
begin

text \<open>
  What the steps of the gateway do to the worker and the database, and what follows for whole
  runs: rows in a terminal status never change, a planned row holds a result validated against its
  own request, a task is sent at most once, and a worker always comes to its end.
\<close>

section \<open>How a step changes the worker and the database\<close>

text \<open>One thread's transaction: nothing, one \<open>create\<close>, or one \<open>finish\<close>.\<close>

definition db_step :: "table \<Rightarrow> table \<Rightarrow> bool" where
  "db_step t t' \<longleftrightarrow> t' = t \<or> (\<exists>now tid rq. create now tid rq t = Inr t')
     \<or> (\<exists>now tid st rs er b. finish now tid st rs er t = Inr (b, t'))"

text \<open>How far a worker is from its end.\<close>

fun phase_rank :: "phase \<Rightarrow> nat" where
  "phase_rank WCreated = 6"
| "phase_rank (WQueued r c m) = 5"
| "phase_rank (WSending r c) = 4"
| "phase_rank (WWaiting r) = 3"
| "phase_rank (WSaving st rs er) = 2"
| "phase_rank WNotifying = 1"
| "phase_rank WDone = 0"

text \<open>
  The same with its cause: \<open>planned\<close> is written for the running task only, with the outcome its
  worker is saving; a new worker comes with the row of its request. A command waiting for the send
  lock carries the identifier of its worker's task.
\<close>

fun own_command :: "string \<Rightarrow> phase \<Rightarrow> bool" where
  "own_command tid (WQueued r c m) = (dget (data m) ''task_id'' = Some (PStr tid))"
| "own_command tid _ = True"

inductive phase_change :: "'l lib_scheme \<Rightarrow> settings \<Rightarrow> run option \<Rightarrow> run option \<Rightarrow> bool"
  for L :: "'l lib_scheme" and S :: settings where
  pc_same: "phase_change L S wk wk"
| pc_move: "phase_rank p < phase_rank (w_phase w) \<Longrightarrow> (\<And>st rs er. p \<noteq> WSaving st rs er) \<Longrightarrow> own_command (w_task w) p \<Longrightarrow>
    phase_change L S (Some w) (Some (w\<lparr>w_phase := p\<rparr>))"
| pc_save: "2 < phase_rank (w_phase w) \<Longrightarrow> run_outcome L S (w_payload w) x = (st, rs, er) \<Longrightarrow>
    phase_change L S (Some w) (Some (w\<lparr>w_phase := WSaving st rs er\<rparr>))"

inductive worker_step ::
  "'l lib_scheme \<Rightarrow> settings \<Rightarrow> run option \<Rightarrow> table \<Rightarrow> run option \<Rightarrow> table \<Rightarrow> bool"
  for L :: "'l lib_scheme" and S :: settings where
  ws_same: "phase_change L S wk wk' \<Longrightarrow> worker_step L S wk t wk' t"
| ws_finish: "finish now tid st rs er t = Inr (b, t') \<Longrightarrow> phase_change L S wk wk' \<Longrightarrow>
    (st = PLANNED \<Longrightarrow> \<exists>w. wk = Some w \<and> w_phase w = WSaving st rs er \<and> tid = w_task w) \<Longrightarrow>
    worker_step L S wk t wk' t'"
| ws_create: "create now tid rq t = Inr t' \<Longrightarrow> worker_step L S wk t wk t'"
| ws_new: "create now tid rq t = Inr t' \<Longrightarrow>
    worker_step L S wk t (Some \<lparr>w_task = tid, w_payload = rq, w_cb = cb, w_phase = WCreated\<rparr>) t'"

lemma worker_step_db: "worker_step L S wk t wk' t' \<Longrightarrow> db_step t t'"
  by (induction rule: worker_step.induct) (unfold db_step_def, blast+)

abbreviation robot_step :: "'l lib_scheme \<Rightarrow> settings \<Rightarrow> 'a robot_scheme \<Rightarrow> 'b robot_scheme \<Rightarrow> bool" where
  "robot_step L S s s' \<equiv> worker_step L S (worker s) (db s) (worker s') (db s')"

lemma worker_step_refl [simp]: "worker_step L S wk t wk t"
  by (intro ws_same pc_same)

lemma view_step: "robot_view s' = robot_view s \<Longrightarrow> robot_step L S s s'"
  by (simp add: robot_view_def robot_part_def)

lemma worker_step_phase:
  "phase_rank p < phase_rank (w_phase w) \<Longrightarrow> (\<And>st rs er. p \<noteq> WSaving st rs er) \<Longrightarrow> own_command (w_task w) p \<Longrightarrow>
   worker_step L S (Some w) t (Some (w\<lparr>w_phase := p\<rparr>)) t"
  by (intro ws_same pc_move) simp_all

lemma worker_step_create:
  "db_create ok now tid rq t = Inr t' \<Longrightarrow> worker_step L S wk t wk t'"
  "db_create ok now tid rq t = Inr t' \<Longrightarrow>
   worker_step L S wk t (Some \<lparr>w_task = tid, w_payload = rq, w_cb = cb, w_phase = WCreated\<rparr>) t'"
  by (rule ws_create ws_new, erule db_create_InrD(2))+

lemma worker_step_finish:
  assumes "db_finish ok now tid st rs er t = Inr t'" "phase_change L S wk wk'"
    and "st = PLANNED \<Longrightarrow> \<exists>w. wk = Some w \<and> w_phase w = WSaving st rs er \<and> tid = w_task w"
  shows "worker_step L S wk t wk' t'"
proof -
  obtain b where "finish now tid st rs er t = Inr (b, t')"
    using assms(1) by (auto simp: db_finish_def res_simps split: if_splits)
  then show ?thesis using assms(2,3) by (rule ws_finish)
qed

lemma INTERRUPTED_not_planned [simp]: "INTERRUPTED \<noteq> PLANNED"
  by (simp add: status_consts)

lemma robot_fields_ops [simp]:
  "db (run_end s) = db s" "worker (run_end s) = map_option (\<lambda>w. w\<lparr>w_phase := WDone\<rparr>) (worker s)"
  "db (release_submission s) = db s" "worker (release_submission s) = worker s"
  "db (submit_cancel s) = db s" "worker (submit_cancel s) = worker s"
  "db (fst (submit_enter tid rq cb s)) = db s" "worker (fst (submit_enter tid rq cb s)) = worker s"
  "db (close_request s) = db s" "worker (close_request s) = worker s"
  by (simp_all add: run_end_def release_submission_def submit_cancel_def submit_enter_def close_request_def
      split: submission.split)

lemma run_save_step:
  assumes "worker s = Some w" "robot_part s' = robot_part s" "2 < phase_rank (w_phase w)"
  shows "robot_step L S s (run_save L S w r x s')"
proof -
  obtain st rs er where o': "run_outcome L S (w_payload w) x = (st, rs, er)"
    by (cases "run_outcome L S (w_payload w) x")
  have "robot_part (plan_end (w_task w) r s') = robot_part s"
    using robot_cong [OF adapter_more(2)] assms(2) by metis
  then show ?thesis
    using o' assms(1,3) by (simp add: run_save_def robot_part_eq ws_same pc_save)
qed

lemma run_start_step:
  assumes w: "worker s = Some w" and p: "w_phase w = WCreated"
  shows "robot_step L S s (run_start free L S now w s)"
proof -
  obtain s1 r res where b: "plan_begin free now (w_task w) (w_payload w) s = (s1, r, res)"
    by (cases "plan_begin free now (w_task w) (w_payload w) s") auto
  have part: "robot_part s1 = robot_part s" by (rule robot_cong) (rule plan_begin_fields(4) [OF b])
  then have "robot_step L S s (set_phase (WSending r c) s1)"
    "own_command (w_task w) (WQueued r c m) \<Longrightarrow> robot_step L S s (set_phase (WQueued r c m) s1)"
    for c m using w p by (simp_all add: robot_part_eq worker_step_phase)
  moreover have "res = Inr (Queued c m) \<Longrightarrow> own_command (w_task w) (WQueued r c m)" for c m
    by (cases rule: plan_begin_cases [OF b]) simp_all
  ultimately show ?thesis
    by (simp add: run_start_def b run_save_step [OF w part] p split: sum.split sending.split)
qed

lemma run_queued_step:
  assumes w: "worker s = Some w" and p: "w_phase w = WQueued r c m"
  shows "robot_step L S s (run_queued L S w r c m s)"
proof -
  obtain s1 res where q: "send_write c m s = (s1, res)" by (cases "send_write c m s")
  have part: "robot_part s1 = robot_part s"
    using send_write_view [of s1 s] server_more(7) [of c m s] by (simp add: q)
  then have "robot_step L S s (set_phase (WSending r c) s1)"
    using w p by (simp add: robot_part_eq worker_step_phase)
  then show ?thesis
    by (simp add: run_queued_def q run_save_step [OF w part] p split: sum.split)
qed

lemma submission_steps:
  "robot_step L S s (fst (submit_created dbok now s))"
  "robot_step L S s (fst (submit_aborted dbok now s))"
  "robot_step L S s (fst (submit_abandoned dbok now s))"
  "robot_step L S s (close_finish dbok now s)"
  by (auto simp: submit_created_def submit_aborted_def submit_abandoned_def close_finish_def
      intro: worker_step_create worker_step_finish pc_same
      split: submission.split sum.split bool.split option.split)

lemma run_saved_step:
  "worker s = Some w \<Longrightarrow> w_phase w = WSaving st rs er \<Longrightarrow> robot_step L S s (run_saved dbok now w st rs er s)"
  by (auto simp: run_saved_def worker_step_phase split: sum.split intro!: worker_step_finish pc_move)

lemma run_cancel_step:
  assumes w: "worker s = Some w"
  shows "robot_step L S s (run_cancel L S thr now w s)"
proof (cases "w_phase w")
  case (WSaving st rs er)
  then show ?thesis using w
    by (auto simp: run_cancel_def worker_step_phase split: sum.split intro!: worker_step_finish pc_move)
qed (use w run_save_step [OF w, of s] in \<open>simp_all add: run_cancel_def worker_step_phase\<close>)

lemma close_enter_step: "robot_step L S s (close_enter L S delivered thr now s)"
  using run_cancel_step [of "s\<lparr>sub_lock := LClosing\<rparr>" _ L S thr now]
  by (simp add: close_enter_def Let_def split: option.split)

lemma dispatch_close_step: "db (dispatch_close s) = db s" "worker (dispatch_close s) = worker s"
proof -
  have d: "db (discard i s) = db s" "worker (discard i s) = worker s" for i and s :: "'a dispatch_scheme"
    by (simp_all add: discard_def)
  have one: "db (background_cancel s p) = db s \<and> worker (background_cancel s p) = worker s"
    for p and s :: "'a dispatch_scheme"
    by (cases p; cases "snd p") (simp_all add: background_cancel_def d)
  have "db (foldl background_cancel s ps) = db s \<and> worker (foldl background_cancel s ps) = worker s"
    for ps and s :: "'a dispatch_scheme"
    by (induction ps arbitrary: s) (simp_all add: one)
  then show "db (dispatch_close s) = db s" "worker (dispatch_close s) = worker s"
    by (simp_all add: dispatch_close_def)
qed

lemma gstep_worker:
  assumes "gstep L S B s s'"
  shows "robot_step L S s s'"
  using assms
proof cases
  case (plan_enter i k rq now tid)
  have "robot_view (discard i x) = robot_view x" "robot_view (await_at i b x) = robot_view x"
    "robot_view (plan_refused L now e k x) = robot_view x" for x :: gateway and b e
    by (rule robot_truncateD(2), simp)+
  then have "db (plan_target_enter L now i k rq tid s) = db s"
      "worker (plan_target_enter L now i k rq tid s) = worker s"
    using robot_fields_ops(7,8) [of tid rq "Some k" s]
    by (cases "submit_enter tid rq (Some k) s";
        simp add: plan_target_enter_def robot_view_def robot_part_eq split: sum.split)+
  then show ?thesis using plan_enter by simp
next
  case (notified w now dbok)
  have "worker (dispatch_on_finished now k v s) = worker s" "db (dispatch_on_finished now k v s) = db s" for k v
    using gw.fin_view [of now k v s] by (simp_all add: robot_view_def robot_part_eq)
  then show ?thesis
    using notified
    by (simp add: run_notified_def worker_step_phase split: prod.split option.split sum.split)
next
  case (drained w r c now ok)
  have "robot_part (send_finish (gateway_on_disconnect now) ok c s) = robot_part s"
    using gw.view_send_finish [of now ok c s] by (simp add: robot_view_def)
  then show ?thesis
    using drained run_save_step [OF drained(3), of "send_finish (gateway_on_disconnect now) ok c s"]
    by (cases ok) (simp_all add: run_sent_def Let_def robot_part_eq worker_step_phase)
next
  case (send i md m free)
  then show ?thesis using view_step background_send_view(1) by blast
next
  case (granted i c m)
  then show ?thesis using view_step background_send_view(2) by blast
next
  case (sent i c now drained)
  have "robot_view (discard i x) = robot_view x" for x :: gateway by (rule robot_truncateD(2)) simp
  then show ?thesis using sent by (intro view_step) (simp add: background_sent_def gw.view_send_finish)
next
  case (lost c)
  then show ?thesis by (intro view_step robot_view_more) (simp add: more_simps)
next
  case (plan_start i k obj now)
  then show ?thesis by (intro view_step robot_truncateD(2)) simp
next
  case (created tid p cb c now dbok)
  have "robot_view s' = robot_view (fst (submit_created dbok now s))"
    using created by (intro robot_truncateD(2)) (simp add: after_submit_frame)
  then show ?thesis
    using submission_steps(1) [of L S s dbok now] by (simp add: robot_view_def robot_part_eq)
next
  case (aborted tid cb dbok now)
  have "robot_view s' = robot_view (fst (submit_aborted dbok now s))"
    using aborted by (intro robot_truncateD(2)) (simp add: after_submit_frame)
  then show ?thesis
    using submission_steps(2) [of L S s dbok now] by (simp add: robot_view_def robot_part_eq)
next
  case (abandoned tid p cb now thr)
  have "robot_view s' = robot_view (fst (submit_abandoned thr now s))"
    using abandoned by (intro robot_truncateD(2)) (simp add: after_submit_frame)
  then show ?thesis
    using submission_steps(3) [of L S s thr now] by (simp add: robot_view_def robot_part_eq)
next
  case (started w free now)
  show ?thesis unfolding started(2) by (rule run_start_step [OF started(3,4)])
next
  case (queued w r c m)
  show ?thesis unfolding queued(2) by (rule run_queued_step [OF queued(3,4)])
next
  case (replied w r)
  show ?thesis unfolding replied(2) run_reply_def by (rule run_save_step [OF replied(3) refl]) (simp add: replied(4))
next
  case (timed_out w r)
  show ?thesis unfolding timed_out(2) run_timeout_def
    by (rule run_save_step [OF timed_out(3) refl]) (use timed_out(4) in \<open>cases "w_phase w"; simp\<close>)
next
  case (saved w st rs er dbok now)
  show ?thesis unfolding saved(2) by (rule run_saved_step [OF saved(3,4)])
qed (simp_all add: submission_steps close_enter_step dispatch_close_step view_step gw.view_server)

lemma gstep_db: "gstep L S B s s' \<Longrightarrow> db_step (db s) (db s')"
  by (rule worker_step_db) (rule gstep_worker)

lemma db_step_row:
  assumes "db_step t t'" "dget t tid = Some r" "status r \<noteq> PLANNING"
  shows "dget t' tid = Some r"
  using assms(1) unfolding db_step_def
proof (elim disjE exE)
  fix now i rq assume "create now i rq t = Inr t'"
  then show ?thesis using assms(2) by (auto simp: create_Inr_iff map_add_def)
next
  fix now i st rs er b assume f: "finish now i st rs er t = Inr (b, t')"
  show ?thesis
  proof (cases b)
    case True
    then obtain q where q: "dget t' = (dget t)(i \<mapsto> q)" using finish_InrD(4) [OF f True] by (auto simp: dict_simps)
    have "i \<noteq> tid" using finish_InrD(2) [OF f] True assms(2,3) by (auto simp: status_of_def)
    then show ?thesis using q assms(2) by simp
  next
    case False
    then show ?thesis using finish_InrD(3) [OF f] assms(2) by simp
  qed
qed (simp add: assms(2))

section \<open>What a planned row says\<close>

text \<open>A row never loses the request it was created with.\<close>

definition request_of :: "table \<Rightarrow> string \<Rightarrow> string option" where
  "request_of t tid = map_option request_json (dget t tid)"

lemma request_of_create:
  "create now tid rq t = Inr t' \<Longrightarrow> request_of t' = (request_of t)(tid \<mapsto> dumps (PDict rq))"
  by (auto simp: create_Inr_iff request_of_def fun_eq_iff map_add_def json_dumps_def simp del: dumps.simps split: option.splits if_splits)

lemma request_of_finish:
  assumes "finish now tid st rs er t = Inr (b, t')"
  shows "request_of t' = request_of t"
proof (cases b)
  case True
  then show ?thesis
    using finish_InrD(4) [OF assms True] by (auto simp: request_of_def fun_eq_iff dict_simps)
qed (use finish_InrD(3) [OF assms] in simp)

lemma request_of_step: "db_step t t' \<Longrightarrow> request_of t tid = Some js \<Longrightarrow> request_of t' tid = Some js"
  unfolding db_step_def using create_fresh
  by (elim disjE exE) (auto simp: request_of_finish request_of_create request_of_def status_of_def)

text \<open>Every planned row holds a result that passed validation against the row's own request.\<close>

definition rows_valid :: "'l lib_scheme \<Rightarrow> settings \<Rightarrow> table \<Rightarrow> bool" where
  "rows_valid L S t \<longleftrightarrow>
     (\<forall>tid r. dget t tid = Some r \<longrightarrow> status r = PLANNED \<longrightarrow>
        (\<exists>d payload v. validate_result L S d payload = Inr v \<and> request_json r = dumps (PDict payload)
           \<and> result_json r = Some (dumps (PDict v)) \<and> error_json r = None))"

definition run_valid :: "'l lib_scheme \<Rightarrow> settings \<Rightarrow> run option \<Rightarrow> table \<Rightarrow> bool" where
  "run_valid L S wk t \<longleftrightarrow>
     (\<forall>w. wk = Some w \<longrightarrow>
        request_of t (w_task w) = Some (dumps (PDict (w_payload w)))
        \<and> (\<forall>rs er. w_phase w = WSaving PLANNED rs er \<longrightarrow>
             er = None \<and> (\<exists>d v. rs = Some v \<and> validate_result L S d (w_payload w) = Inr v)))"

lemma rows_valid_create:
  "rows_valid L S t \<Longrightarrow> create now tid rq t = Inr t' \<Longrightarrow> rows_valid L S t'"
  by (auto simp: rows_valid_def create_Inr_iff map_add_def status_consts split: option.splits if_splits)

lemma rows_valid_finish:
  assumes V: "rows_valid L S t" and f: "finish now tid st rs er t = Inr (b, t')"
    and p: "st = PLANNED \<Longrightarrow> er = None \<and> (\<exists>d v payload. rs = Some v \<and> validate_result L S d payload = Inr v
              \<and> request_of t tid = Some (dumps (PDict payload)))"
  shows "rows_valid L S t'"
proof (cases b)
  case True
  obtain r rj ej where r: "dget t tid = Some r" "encode_opt rs = Inr rj" "encode_opt er = Inr ej"
    "t' = dset tid (r\<lparr>status := st, result_json := rj, error_json := ej, updated_at := now\<rparr>) t"
    using finish_InrD(4) [OF f True] by blast
  show ?thesis
    unfolding rows_valid_def r(4) dget_dset
  proof (intro allI impI)
    fix i q assume q: "((dget t)(tid \<mapsto> r\<lparr>status := st, result_json := rj, error_json := ej, updated_at := now\<rparr>)) i = Some q"
      "status q = PLANNED"
    show "\<exists>d payload v. validate_result L S d payload = Inr v \<and> request_json q = dumps (PDict payload)
           \<and> result_json q = Some (dumps (PDict v)) \<and> error_json q = None"
    proof (cases "i = tid")
      case True
      then have "st = PLANNED" using q by auto
      then obtain d v payload where v: "er = None" "rs = Some v" "validate_result L S d payload = Inr v"
        "request_json r = dumps (PDict payload)"
        using p r(1) by (auto simp: request_of_def simp del: dumps.simps)
      then have "rj = Some (dumps (PDict v))" "ej = None"
        using r(2,3) by (auto simp: res_simps json_dumps_def simp del: dumps.simps split: if_splits)
      then show ?thesis using q(1) True v
        by (intro exI [of _ d] exI [of _ payload] exI [of _ v]) (auto simp del: dumps.simps)
    next
      case False
      then show ?thesis using V q by (simp add: rows_valid_def)
    qed
  qed
qed (use V finish_InrD(3) [OF f] in simp)

lemma run_outcome_planned:
  assumes "run_outcome L S payload x = (PLANNED, rs, er)"
  shows "er = None \<and> (\<exists>d v. rs = Some v \<and> validate_result L S d payload = Inr v)"
  using assms by (auto simp: run_outcome_def status_consts split: sum.splits plan_exc.splits)

lemma phase_change_valid:
  "phase_change L S wk wk' \<Longrightarrow> run_valid L S wk t \<Longrightarrow> run_valid L S wk' t"
  by (induction rule: phase_change.induct) (auto simp: run_valid_def dest: run_outcome_planned)

lemma worker_step_valid:
  assumes "worker_step L S wk t wk' t'" "rows_valid L S t" "run_valid L S wk t"
  shows "rows_valid L S t' \<and> run_valid L S wk' t'"
  using assms
proof (induction rule: worker_step.induct)
  case (ws_same wk wk' t)
  then show ?case using phase_change_valid by blast
next
  case (ws_finish now tid st rs er t b t' wk wk')
  have "rows_valid L S t'"
  proof (rule rows_valid_finish [OF ws_finish(4) ws_finish(1)])
    assume "st = PLANNED"
    with ws_finish(3,5) show "er = None \<and> (\<exists>d v payload. rs = Some v \<and> validate_result L S d payload = Inr v
              \<and> request_of t tid = Some (dumps (PDict payload)))" unfolding run_valid_def by blast
  qed
  moreover have "run_valid L S wk' t'"
    using phase_change_valid [OF ws_finish(2,5)] request_of_finish [OF ws_finish(1)] by (simp add: run_valid_def)
  ultimately show ?case by simp
next
  case (ws_create now tid rq t t' wk)
  have s: "db_step t t'" using ws_create(1) unfolding db_step_def by blast
  then have "run_valid L S wk t'" using ws_create(3) request_of_step [OF s] by (simp add: run_valid_def)
  then show ?case using rows_valid_create [OF ws_create(2,1)] by simp
next
  case (ws_new now tid rq t t' cb wk)
  then show ?case using rows_valid_create request_of_create [OF ws_new(1)] by (auto simp: run_valid_def)
qed

section \<open>Runs\<close>

lemma reachable_invs:
  assumes "reachable L S disk A s" "\<And>t. disk = Some t \<Longrightarrow> table_ok t"
  shows "robot_inv A s \<and> server_inv s"
  using assms(1)
proof induction
  case (start now)
  have "server_inv (gateway_start now disk)"
    by (simp add: server_inv_def gateway_start_def ident_def)
  then show ?case using robot_inv_start assms(2) by blast
next
  case (step A s B s')
  then show ?case using gstep_robot_inv gstep_server_inv by blast
qed

lemma recover_row:
  assumes "dget (snd (recover_interrupted now t)) tid = Some r" "status r = PLANNED"
  shows "dget t tid = Some r"
  using assms by (cases "dget t tid") (auto simp: recover_interrupted_def Let_def dict_simps status_consts split: if_splits)

lemma reachable_rows:
  assumes "reachable L S disk A s" "\<And>t. disk = Some t \<Longrightarrow> rows_valid L S t"
  shows "rows_valid L S (db s) \<and> run_valid L S (worker s) (db s)"
  using assms(1)
proof induction
  case (start now)
  have "rows_valid L S (initialize disk)"
    using assms(2) by (cases disk) (simp_all add: initialize_def rows_valid_def)
  then have "rows_valid L S (snd (recover_interrupted now (initialize disk)))"
    unfolding rows_valid_def using recover_row by blast
  moreover have "db (gateway_start now disk) = snd (recover_interrupted now (initialize disk))"
    "worker (gateway_start now disk) = None" by (simp_all only: gateway_start_def dispatch.simps adapter.simps robot.simps server.simps)
  ultimately show ?case by (simp add: run_valid_def)
next
  case (step A s B s')
  then show ?case using worker_step_valid [OF gstep_worker] by blast
qed

section \<open>What the gateway sends\<close>

text \<open>The coroutines send only captures and results; the robot service is present.\<close>

definition sends_ok :: "'a dispatch_scheme \<Rightarrow> bool" where
  "sends_ok s \<longleftrightarrow> has_robot s
     \<and> (\<forall>i md c m. dget (background s) i = Some (BgSend md m) \<or> dget (background s) i = Some (BgQueued c m) \<longrightarrow>
          msg_type m \<in> {CAPTURE_CMD, TASK_RESULT})"

lemma sends_ok_simps [simp]:
  "sends_ok (upd_task k f s) = sends_ok s"
  "sends_ok s \<Longrightarrow> sends_ok (discard i s)"
  "sends_ok s \<Longrightarrow> msg_type m \<in> {CAPTURE_CMD, TASK_RESULT} \<Longrightarrow> sends_ok (schedule (BgSend md m) s)"
  "sends_ok s \<Longrightarrow> sends_ok (schedule (BgPlan k obj) s)"
  "sends_ok s \<Longrightarrow> sends_ok (await_at i (BgDrain c) s)"
  "sends_ok s \<Longrightarrow> msg_type m \<in> {CAPTURE_CMD, TASK_RESULT} \<Longrightarrow> sends_ok (await_at i (BgQueued c m) s)"
  "sends_ok s \<Longrightarrow> sends_ok (await_at i (BgSubmit k rq) s)"
  "sends_ok s \<Longrightarrow> sends_ok (await_at i (BgCreating k) s)"
  by (auto simp: sends_ok_def upd_task_def discard_def schedule_def await_at_def dict_simps)

lemma sends_ok_send_async:
  "sends_ok s \<Longrightarrow> (\<And>m. r = Inr m \<Longrightarrow> msg_type m \<in> {CAPTURE_CMD, TASK_RESULT}) \<Longrightarrow>
   sends_ok (fst (send_async md r s))"
  by (simp add: send_async_def split: sum.split)

lemma sends_ok_push [simp]: "sends_ok s \<Longrightarrow> sends_ok (push_task_result now k s)"
  unfolding push_task_result_def by (rule sends_ok_send_async) (auto dest: build_message_fields)

lemma sends_ok_capture: "sends_ok s \<Longrightarrow> sends_ok (fst (send_async md (capture_cmd now v) s))"
  unfolding capture_cmd_def by (rule sends_ok_send_async) (auto dest: build_message_fields)

lemma sends_ok_fail [simp]:
  "sends_ok s \<Longrightarrow> sends_ok (fail_task now c x k s)"
  "sends_ok s \<Longrightarrow> sends_ok (plan_refused L now e k s)"
  "sends_ok s \<Longrightarrow> sends_ok (dispatch_on_finished now k v s)"
  "sends_ok s \<Longrightarrow> sends_ok (plan_target_done L now i k r s)"
  "sends_ok s \<Longrightarrow> sends_ok (plan_target_start L S now i k obj s)"
  by (simp_all add: fail_task_def plan_refused_def dispatch_on_finished_def plan_target_done_def
      plan_target_start_def split: gexc.split sum.split)

lemma sends_ok_for_tasks:
  "(\<And>k s. sends_ok s \<Longrightarrow> sends_ok (f k s)) \<Longrightarrow> sends_ok s \<Longrightarrow> sends_ok (for_tasks f s)"
proof -
  assume f: "\<And>k s. sends_ok s \<Longrightarrow> sends_ok (f k s)"
  have "sends_ok s \<Longrightarrow> sends_ok (foldl (\<lambda>s k. f k s) s ks)" for ks s
    by (induction ks arbitrary: s) (simp_all add: f)
  then show "sends_ok s \<Longrightarrow> sends_ok (for_tasks f s)" by (simp add: for_tasks_def)
qed

lemma sends_ok_more: "adapter.more s' = adapter.more s \<Longrightarrow> sends_ok s' = sends_ok s"
  by (cases s; cases s') (simp add: sends_ok_def)

lemma sends_ok_on_message:
  assumes s: "sends_ok s"
  shows "sends_ok (fst (dispatch_on_message now m s))"
proof -
  have r: "has_robot s" using s by (simp add: sends_ok_def)
  have n: "sends_ok (s\<lparr>task_objs := x, tasks := y\<rparr>) = sends_ok s" for x y by (simp add: sends_ok_def)
  have "sends_ok (fst (on_task_start now m s))"
    using s by (simp add: on_task_start_def Let_def refuse_def sends_ok_capture n)
  moreover have "sends_ok (fst (on_detection_result now m s))"
    using s r by (simp add: on_detection_result_def Let_def split: sum.split option.split)
  moreover have "sends_ok (fst (on_error_report m s))"
    using s by (simp add: on_error_report_def sends_ok_for_tasks)
  ultimately show ?thesis
    using s r by (simp add: dispatch_on_message_def refuse_def on_motion_status_def)
qed

lemma sends_ok_on_disconnect: "sends_ok s \<Longrightarrow> sends_ok (dispatch_on_disconnect now md s)"
  by (simp add: dispatch_on_disconnect_def sends_ok_for_tasks)

interpretation sends: above_server sends_ok "gateway_on_message now" "gateway_on_disconnect now" for now
proof unfold_locales
  fix s s' :: "'a dispatch_scheme" assume "server.more s' = server.more s"
  then show "sends_ok s' = sends_ok s" using adapter_cong sends_ok_more by blast
next
  fix s :: "'a dispatch_scheme" and m assume s: "sends_ok s"
  then have "sends_ok (fst (adapter_on_message m s))" using sends_ok_more [OF adapter_on_message_more] by blast
  then show "sends_ok (fst (gateway_on_message now m s))"
    by (simp add: gateway_on_message_fst sends_ok_on_message)
next
  fix s :: "'a dispatch_scheme" and md assume s: "sends_ok s"
  then have "sends_ok (adapter_on_disconnect md s)" using sends_ok_more [OF adapter_on_disconnect_more] by blast
  then show "sends_ok (gateway_on_disconnect now md s)"
    by (simp add: gateway_on_disconnect_def sends_ok_on_disconnect)
qed

text \<open>The robot service's operations leave the coroutines and the messages sent alone.\<close>

lemma sends_ok_robot:
  "sends_ok (set_phase p s) = sends_ok s" "sends_ok (run_end s) = sends_ok s"
  "sends_ok (s\<lparr>db := t\<rparr>) = sends_ok s" "sends_ok (release_submission s) = sends_ok s"
  "sends_ok (submit_cancel s) = sends_ok s" "sends_ok (fst (submit_enter tid rq cb s)) = sends_ok s"
  "sends_ok (close_request s) = sends_ok s" "sends_ok (close_finish dbok now s) = sends_ok s"
  "sends_ok (fst (submit_created dbok now s)) = sends_ok s"
  "sends_ok (fst (submit_aborted dbok now s)) = sends_ok s"
  "sends_ok (fst (submit_abandoned dbok now s)) = sends_ok s"
  "sends_ok (s\<lparr>sub_lock := l\<rparr>) = sends_ok s"
  by (simp_all add: sends_ok_def set_phase_def run_end_def release_submission_def submit_cancel_def
      submit_enter_def close_request_def close_finish_def submit_created_def submit_aborted_def
      submit_abandoned_def split: submission.split option.split sum.split bool.split)

lemma sends_ok_run_save: "sends_ok (run_save L S w r x s) = sends_ok s"
  by (simp add: run_save_def sends_ok_robot sends_ok_more [OF adapter_more(2)] split: prod.split)

lemma sends_ok_run_start: "sends_ok (run_start free L S now w s) = sends_ok s"
proof -
  obtain s1 r res where b: "plan_begin free now (w_task w) (w_payload w) s = (s1, r, res)"
    by (cases "plan_begin free now (w_task w) (w_payload w) s") auto
  have "sends_ok s1 = sends_ok s" by (rule sends_ok_more) (rule plan_begin_fields(4) [OF b])
  then show ?thesis
    by (simp add: run_start_def b sends_ok_run_save sends_ok_robot split: sum.split sending.split)
qed

lemma sends_ok_send_write: "sends_ok (fst (send_write c m s)) = sends_ok s"
  by (rule sends_ok_more) (simp add: adapter_cong [OF server_more(7)])

lemma sends_ok_run_queued: "sends_ok (run_queued L S w r c m s) = sends_ok s"
  using sends_ok_send_write [of c m s]
  by (cases "send_write c m s") (simp add: run_queued_def sends_ok_run_save sends_ok_robot split: sum.split)

lemma sends_ok_run_cancel: "sends_ok (run_cancel L S thr now w s) = sends_ok s"
  by (simp add: run_cancel_def sends_ok_run_save sends_ok_robot split: phase.split sum.split)

lemma sends_ok_close_enter: "sends_ok (close_enter L S delivered thr now s) = sends_ok s"
  by (simp add: close_enter_def Let_def sends_ok_run_cancel sends_ok_robot split: option.split)

lemma sends_ok_dispatch_close: "sends_ok s \<Longrightarrow> sends_ok (dispatch_close s)"
proof -
  have one: "sends_ok s \<Longrightarrow> sends_ok (background_cancel s p)" for p and s :: "'a dispatch_scheme"
    by (cases p; cases "snd p") (simp_all add: background_cancel_def sends_ok_robot)
  have "sends_ok s \<Longrightarrow> sends_ok (foldl background_cancel s ps)" for ps and s :: "'a dispatch_scheme"
    by (induction ps arbitrary: s) (simp_all add: one)
  then show "sends_ok s \<Longrightarrow> sends_ok (dispatch_close s)" by (simp add: dispatch_close_def)
qed

lemma sends_ok_after_submit: "sends_ok (fst p) \<Longrightarrow> sends_ok (after_submit L now cb p)"
  by (cases p) (simp add: after_submit_def split: option.split)

lemma gstep_sends_ok:
  assumes "gstep L S B s s'" and I: "sends_ok s"
  shows "sends_ok s'"
  using assms(1)
proof cases
  case (plan_enter i k rq now tid)
  then show ?thesis
    using I sends_ok_robot(6) [of tid rq "Some k" s]
    by (cases "submit_enter tid rq (Some k) s") (simp add: plan_target_enter_def split: sum.split)
next
  case (notified w now dbok)
  then show ?thesis
    using I by (simp add: run_notified_def sends_ok_robot split: prod.split option.split sum.split)
next
  case (drained w r c now ok)
  then show ?thesis
    using sends.above_send_finish [OF I, of now ok c]
    by (cases ok) (simp_all add: run_sent_def Let_def sends_ok_robot sends_ok_run_save)
next
  case (saved w st rs er dbok now)
  then show ?thesis using I by (simp add: run_saved_def sends_ok_robot split: sum.split)
next
  case (send i md m free)
  have "sends_ok (fst (send_start free md m s))" using I sends.above_fields(6) by blast
  moreover have m: "msg_type m \<in> {CAPTURE_CMD, TASK_RESULT}" using I send(3) unfolding sends_ok_def by blast
  moreover have "snd (send_start free md m s) = Inr (Queued c x) \<Longrightarrow> x = m" for c x
    by (cases rule: send_start_cases [of free md m s]) auto
  ultimately show ?thesis
    using send by (cases "send_start free md m s") (auto simp: background_send_def split: sum.split sending.split)
next
  case (granted i c m)
  have "sends_ok (fst (send_write c m s))" using I by (simp add: sends_ok_send_write)
  then show ?thesis
    using granted by (cases "send_write c m s") (simp add: background_queued_def split: sum.split)
qed (use I in \<open>simp_all add: sends_ok_robot sends_ok_run_save sends_ok_run_start sends_ok_run_queued sends_ok_close_enter
      sends_ok_dispatch_close sends_ok_after_submit run_reply_def run_timeout_def background_sent_def
      sends.above_connect sends.above_handle_line sends.above_fields sends.above_end_client
      sends.above_patrol sends.above_send_finish sends.above_close_clients\<close>)

end
