(* ===== verification/CommandRuns.thy ===== *)
theory CommandRuns
  imports GatewayRuns
begin

text \<open>
  Whole runs of the gateway: what each step writes, that a task's command is written at most
  once, and that a worker, wherever it waits, can always be brought to its end.
\<close>

section \<open>What a step writes\<close>

definition is_command :: "string \<Rightarrow> nat \<times> message \<Rightarrow> bool" where
  "is_command tid p \<longleftrightarrow>
     msg_type (snd p) = GRASP_COMMAND \<and> dget (data (snd p)) ''task_id'' = Some (PStr tid)"

definition commands :: "string \<Rightarrow> 'a server_scheme \<Rightarrow> nat" where
  "commands tid s = length (filter (is_command tid) (sent s))"

text \<open>Messages were written, none of them a grasp command.\<close>

definition adds_quietly :: "'a server_scheme \<Rightarrow> 'a server_scheme \<Rightarrow> bool" where
  "adds_quietly s s' \<longleftrightarrow>
     (\<exists>ms. sent s' = sent s @ ms \<and> list_all (\<lambda>p. msg_type (snd p) \<noteq> GRASP_COMMAND) ms)"

lemma quietly_same [simp]: "sent s' = sent s \<Longrightarrow> adds_quietly s s'"
  by (simp add: adds_quietly_def)

lemma quietly_answers: "answers c s s' \<Longrightarrow> adds_quietly s s'"
  by (auto simp: answers_def adds_quietly_def ANSWERS_def type_consts)

lemma quietly_commands: "adds_quietly s s' \<Longrightarrow> commands tid s' = commands tid s"
  by (auto simp: adds_quietly_def commands_def list_all_iff is_command_def filter_empty_conv)

lemma sent_truncate: "server.truncate s' = server.truncate s \<Longrightarrow> sent s' = sent s"
  by (simp add: server.defs)

lemma sent_robot_ops:
  "sent (set_phase p s) = sent s" "sent (run_end s) = sent s" "sent (s\<lparr>db := t\<rparr>) = sent s"
  "sent (run_save L S w r x s) = sent s" "sent (release_submission s) = sent s"
  by (rule sent_truncate, rule robot_ops_truncate run_save_truncate)+

lemma sent_submission:
  "sent (submit_cancel s) = sent s" "sent (fst (submit_enter tid rq cb s)) = sent s"
  "sent (close_request s) = sent s" "sent (close_finish dbok now s) = sent s"
  "sent (fst (submit_created dbok now s)) = sent s"
  "sent (fst (submit_aborted dbok now s)) = sent s"
  "sent (fst (submit_abandoned thr now s)) = sent s"
  by (simp_all add: submit_cancel_def submit_enter_def close_request_def close_finish_def
      submit_created_def submit_aborted_def submit_abandoned_def release_submission_def
      split: submission.split option.split sum.split bool.split)

lemma sent_dispatch:
  "sent (discard i s) = sent s" "sent (await_at i b s) = sent s" "sent (plan_refused L now e k s) = sent s"
  "sent (plan_target_start L S now i k obj s) = sent s" "sent (dispatch_on_finished now k v s) = sent s"
  "sent (after_submit L now cb p) = sent (fst p)"
  by (rule sent_truncate [OF robot_truncateD(1)], simp add: after_submit_frame)+

lemma sent_run_cancel: "sent (run_cancel L S thr now w s) = sent s"
  by (simp add: run_cancel_def sent_robot_ops split: phase.split sum.split)

lemma sent_close_enter: "sent (close_enter L S delivered thr now s) = sent s"
  by (simp add: close_enter_def Let_def sent_run_cancel split: option.split)

lemma sent_dispatch_close: "sent (dispatch_close s) = sent s"
proof -
  have one: "sent (background_cancel s p) = sent s" for p and s :: "'a dispatch_scheme"
    by (cases p; cases "snd p") (simp_all add: background_cancel_def sent_submission sent_dispatch)
  have "sent (foldl background_cancel s ps) = sent s" for ps and s :: "'a dispatch_scheme"
    by (induction ps arbitrary: s) (simp_all add: one)
  then show ?thesis by (simp add: dispatch_close_def)
qed

lemmas sent_ops = sent_robot_ops sent_submission sent_dispatch sent_run_cancel sent_close_enter sent_dispatch_close

lemma sent_upd: "sent (connect tick c s) = sent s" "sent (close_writer c s) = sent s"
  by (simp_all add: connect_def close_writer_def upd_session_def)

text \<open>Every step is quiet but the start of a worker and the grant of the send lock to it.\<close>

definition worker_sends :: "'l lib_scheme \<Rightarrow> settings \<Rightarrow> run \<Rightarrow> gateway \<Rightarrow> gateway \<Rightarrow> bool" where
  "worker_sends L S w s s' \<longleftrightarrow> worker s = Some w
     \<and> ((\<exists>free now. w_phase w = WCreated \<and> s' = run_start free L S now w s)
        \<or> (\<exists>r c m. w_phase w = WQueued r c m \<and> s' = run_queued L S w r c m s))"

lemma gstep_quiet:
  assumes "gstep L S B s s'" and I: "sends_ok s"
  shows "adds_quietly s s' \<or> (\<exists>w. worker_sends L S w s s')"
  using assms(1)
proof cases
  case (line c now tick l)
  then show ?thesis using quietly_answers [OF gw.answers_handle_line] by blast
next
  case (send i md m free)
  have m: "msg_type m \<noteq> GRASP_COMMAND"
    using I send(3) unfolding sends_ok_def by (fastforce simp: type_consts)
  have "sent s' = sent (fst (send_start free md m s))"
    unfolding send by (cases "send_start free md m s") (simp add: background_send_def sent_dispatch split: sum.split sending.split)
  then have "adds_quietly s s'"
    using m by (cases rule: send_start_cases [of free md m s]) (simp_all add: adds_quietly_def sent_write_to)
  then show ?thesis ..
next
  case (granted i c m)
  have m: "msg_type m \<noteq> GRASP_COMMAND"
    using I granted(3) unfolding sends_ok_def by (fastforce simp: type_consts)
  have "sent s' = sent (fst (send_write c m s))"
    unfolding granted by (cases "send_write c m s") (simp add: background_queued_def sent_dispatch split: sum.split)
  then have "adds_quietly s s'"
    using m by (cases rule: send_write_cases [of c m s]) (simp_all add: adds_quietly_def sent_write_to)
  then show ?thesis ..
next
  case (started w free now)
  then show ?thesis unfolding worker_sends_def by blast
next
  case (queued w r c m)
  then show ?thesis unfolding worker_sends_def by blast
next
  case (plan_enter i k rq now tid)
  then show ?thesis
    using sent_submission(2) [of tid rq "Some k" s]
    by (cases "submit_enter tid rq (Some k) s") (simp add: plan_target_enter_def sent_dispatch split: sum.split)
next
  case (notified w now dbok)
  then show ?thesis
    by (simp add: run_notified_def sent_ops split: prod.split option.split sum.split)
next
  case (drained w r c now ok)
  then show ?thesis by (cases ok) (simp_all add: run_sent_def Let_def sent_ops gw.sent_frames)
next
  case (saved w st rs er dbok now)
  then show ?thesis by (simp add: run_saved_def sent_ops split: sum.split)
qed (auto simp: sent_ops sent_upd gw.sent_frames gw.sent_end_client background_sent_def run_reply_def run_timeout_def)

lemma worker_fields [simp]:
  "worker (set_phase p s) = map_option (\<lambda>w. w\<lparr>w_phase := p\<rparr>) (worker s)"
  "active_id (set_phase p s) = active_id s"
  by (simp_all add: set_phase_def)

lemma run_save_worker:
  "worker (run_save L S w r x s) = map_option (\<lambda>v. v\<lparr>w_phase := (case run_outcome L S (w_payload w) x of (st, rs, er) \<Rightarrow> WSaving st rs er)\<rparr>) (worker s)"
  using robot_cong [OF adapter_more(2), of "w_task w" r s]
  by (simp add: run_save_def robot_part_eq split: prod.split)

lemma run_start_phase:
  assumes "worker s = Some w" "w_phase w = WCreated"
  shows "\<exists>p. worker (run_start free L S now w s) = Some (w\<lparr>w_phase := p\<rparr>) \<and> phase_rank p < 6"
proof -
  obtain s1 r res where b: "plan_begin free now (w_task w) (w_payload w) s = (s1, r, res)"
    by (cases "plan_begin free now (w_task w) (w_payload w) s") auto
  have w1: "worker s1 = Some w"
    using robot_cong [OF plan_begin_fields(4) [OF b]] assms by (simp add: robot_part_eq)
  then show ?thesis
    by (auto simp: run_start_def b run_save_worker split: sum.split sending.split prod.split)
qed

lemma run_queued_phase:
  assumes "worker s = Some w" "w_phase w = WQueued r c m"
  shows "\<exists>p. worker (run_queued L S w r c m s) = Some (w\<lparr>w_phase := p\<rparr>) \<and> phase_rank p < 5"
proof -
  obtain s1 res where q: "send_write c m s = (s1, res)" by (cases "send_write c m s")
  have "worker s1 = Some w"
    using send_write_view [of s1 s] server_more(7) [of c m s] assms by (simp add: q robot_part_eq)
  then show ?thesis by (auto simp: run_queued_def q run_save_worker split: sum.split prod.split)
qed

text \<open>The phases before the command is written.\<close>

fun unsent :: "phase \<Rightarrow> bool" where
  "unsent WCreated = True"
| "unsent (WQueued r c m) = True"
| "unsent _ = False"

lemma unsent_rank: "unsent p \<longleftrightarrow> 5 \<le> phase_rank p"
  by (cases p) simp_all

lemma commands_sent: "sent s' = sent s \<Longrightarrow> commands tid s' = commands tid s"
  by (simp add: commands_def)

lemma commands_one:
  assumes "sent s' = sent s @ [(c, m)]" "dget (data m) ''task_id'' = Some (PStr t)"
  shows "commands tid s \<le> commands tid s' \<and> commands tid s' \<le> commands tid s + (if tid = t then 1 else 0)"
  using assms by (auto simp: commands_def is_command_def)

text \<open>A step of a worker that has not sent yet: it still has not, or it writes one command of its task.\<close>

lemma worker_sends_commands:
  assumes "worker_sends L S w s s'" "own_command (w_task w) (w_phase w)"
  obtains p where "worker s' = Some (w\<lparr>w_phase := p\<rparr>)" "unsent (w_phase w)"
    "unsent p \<longrightarrow> commands tid s' = commands tid s" "commands tid s \<le> commands tid s'"
    "commands tid s' \<le> commands tid s + (if tid = w_task w then 1 else 0)"
proof -
  note result = that
  have w: "worker s = Some w" using assms(1) by (simp add: worker_sends_def)
  consider (start) free now where "w_phase w = WCreated" "s' = run_start free L S now w s"
    | (queue) r c m where "w_phase w = WQueued r c m" "s' = run_queued L S w r c m s"
    using assms(1) unfolding worker_sends_def by blast
  then show ?thesis
  proof cases
    case start
    obtain s1 r res where b: "plan_begin free now (w_task w) (w_payload w) s = (s1, r, res)"
      by (cases "plan_begin free now (w_task w) (w_payload w) s") auto
    have w1: "worker s1 = Some w"
      using robot_cong [OF plan_begin_fields(4) [OF b]] w by (simp add: robot_part_eq)
    obtain p where p: "worker s' = Some (w\<lparr>w_phase := p\<rparr>)"
      using run_start_phase [OF w start(1)] start(2) by blast
    have same: ?thesis if e: "sent s' = sent s"
      using commands_sent [OF e, of tid] start(1) by (intro result [OF p]) simp_all
    from b show ?thesis
    proof (cases rule: plan_begin_cases)
      case (written c m)
      have s': "s' = set_phase (WSending r c) s1" by (simp add: start(2) run_start_def b written(1))
      have "sent s' = sent s @ [(c, m)]" by (simp add: s' sent_robot_ops written(2))
      note commands_one [OF this written(3), of tid]
      moreover have "worker s' = Some (w\<lparr>w_phase := WSending r c\<rparr>)" by (simp add: s' w1)
      ultimately show ?thesis using start(1) by (intro result [of "WSending r c"]) simp_all
    next
      case (failed e)
      show ?thesis by (rule same) (simp add: start(2) run_start_def b failed sent_robot_ops)
    next
      case offline
      show ?thesis by (rule same) (simp add: start(2) run_start_def b offline sent_robot_ops)
    next
      case (queued c m)
      show ?thesis by (rule same) (simp add: start(2) run_start_def b queued(1,2) sent_robot_ops)
    qed
  next
    case queue
    obtain p where p: "worker s' = Some (w\<lparr>w_phase := p\<rparr>)" "phase_rank p < 5"
      using run_queued_phase [OF w queue(1)] queue(2) by blast
    have own: "dget (data m) ''task_id'' = Some (PStr (w_task w))" using assms(2) by (simp add: queue(1))
    have "commands tid s \<le> commands tid s' \<and> commands tid s' \<le> commands tid s + (if tid = w_task w then 1 else 0)"
    proof (cases rule: send_write_cases [of c m s])
      case (unencodable e)
      then have "sent s' = sent s" by (simp add: queue(2) run_queued_def sent_robot_ops)
      from commands_sent [OF this] show ?thesis by simp
    next
      case written
      then have s': "sent s' = sent (write_to c m s)" by (simp add: queue(2) run_queued_def sent_robot_ops)
      show ?thesis
      proof (cases "is_closing s c")
        case True
        then have "sent s' = sent s" by (simp add: s' write_to_def)
        from commands_sent [OF this] show ?thesis by simp
      next
        case False
        then have "sent s' = sent s @ [(c, m)]" by (simp add: s' sent_write_to)
        then show ?thesis using own by (rule commands_one)
      qed
    qed
    then show ?thesis using p(2) by (intro result [OF p(1)]) (simp_all add: queue(1) unsent_rank)
  qed
qed

section \<open>A task is sent at most once\<close>

text \<open>
  A command was sent for a task at most once; then its row exists, and its worker, if it still
  runs, is past its send. A command waiting for the send lock is its worker's own.
\<close>

definition command_inv :: "'a robot_scheme \<Rightarrow> bool" where
  "command_inv s \<longleftrightarrow>
     (\<forall>w. worker s = Some w \<longrightarrow> own_command (w_task w) (w_phase w))
     \<and> (\<forall>tid. commands tid s \<le> 1
        \<and> (commands tid s \<noteq> 0 \<longrightarrow> dget (db s) tid \<noteq> None
            \<and> (\<forall>w. worker s = Some w \<longrightarrow> w_task w = tid \<longrightarrow> \<not> unsent (w_phase w))))"

lemma db_step_keys: "db_step t t' \<Longrightarrow> dget t tid \<noteq> None \<Longrightarrow> dget t' tid \<noteq> None"
  using request_of_step [of t t' tid] by (auto simp: request_of_def)

lemma phase_change_own:
  "phase_change L S wk wk' \<Longrightarrow> \<forall>w. wk = Some w \<longrightarrow> own_command (w_task w) (w_phase w) \<Longrightarrow>
   \<forall>w. wk' = Some w \<longrightarrow> own_command (w_task w) (w_phase w)"
  by (induction rule: phase_change.induct) simp_all

lemma worker_step_own:
  "worker_step L S wk t wk' t' \<Longrightarrow> \<forall>w. wk = Some w \<longrightarrow> own_command (w_task w) (w_phase w) \<Longrightarrow>
   \<forall>w. wk' = Some w \<longrightarrow> own_command (w_task w) (w_phase w)"
  by (induction rule: worker_step.induct) (use phase_change_own in blast | simp)+

text \<open>A worker that has not sent had not sent before, or its row is new.\<close>

lemma phase_change_unsent:
  "phase_change L S wk wk' \<Longrightarrow> wk' = Some w' \<Longrightarrow> unsent (w_phase w') \<Longrightarrow>
   \<exists>w. wk = Some w \<and> w_task w = w_task w' \<and> unsent (w_phase w)"
  by (induction rule: phase_change.induct) (auto simp: unsent_rank)

lemma worker_step_unsent:
  assumes "worker_step L S wk t wk' t'" "wk' = Some w'" "unsent (w_phase w')"
  shows "(\<exists>w. wk = Some w \<and> w_task w = w_task w' \<and> unsent (w_phase w)) \<or> dget t (w_task w') = None"
  using assms
proof (induction rule: worker_step.induct)
  case (ws_new now tid rq t t' cb wk)
  then show ?case using create_fresh [OF ws_new(1)] by (auto simp: status_of_def)
qed (use phase_change_unsent in blast)+

lemma gstep_command_inv:
  assumes g: "gstep L S B s s'" and "sends_ok s" and I: "command_inv s" and R: "run_valid L S (worker s) (db s)"
  shows "command_inv s'"
proof -
  have own: "\<forall>w. worker s = Some w \<longrightarrow> own_command (w_task w) (w_phase w)"
    using I by (simp add: command_inv_def)
  have "commands tid s' \<le> 1 \<and> (commands tid s' \<noteq> 0 \<longrightarrow> dget (db s') tid \<noteq> None
            \<and> (\<forall>w. worker s' = Some w \<longrightarrow> w_task w = tid \<longrightarrow> \<not> unsent (w_phase w)))" for tid
  proof -
    have J: "commands tid s \<le> 1"
        "commands tid s \<noteq> 0 \<Longrightarrow> dget (db s) tid \<noteq> None"
        "commands tid s \<noteq> 0 \<Longrightarrow> worker s = Some w \<Longrightarrow> w_task w = tid \<Longrightarrow> \<not> unsent (w_phase w)" for w
      using I unfolding command_inv_def by blast+
    have k: "dget (db s) tid \<noteq> None \<Longrightarrow> dget (db s') tid \<noteq> None" by (rule db_step_keys [OF gstep_db [OF g]])
    have q: ?thesis if c: "commands tid s' = commands tid s"
    proof -
      have "\<not> unsent (w_phase w)" if "commands tid s \<noteq> 0" "worker s' = Some w" "w_task w = tid" for w
      proof
        assume "unsent (w_phase w)"
        from worker_step_unsent [OF gstep_worker [OF g] that(2) this] that(3)
        show False using J(2,3) that(1) by fastforce
      qed
      then show ?thesis using c J k by simp
    qed
    from gstep_quiet [OF g assms(2)] show ?thesis
    proof (elim disjE exE)
      fix w assume ws: "worker_sends L S w s s'"
      then have w: "worker s = Some w" by (simp add: worker_sends_def)
      then have "own_command (w_task w) (w_phase w)" using own by blast
      then obtain p where p: "worker s' = Some (w\<lparr>w_phase := p\<rparr>)" "unsent (w_phase w)"
        "unsent p \<longrightarrow> commands tid s' = commands tid s" "commands tid s \<le> commands tid s'"
        "commands tid s' \<le> commands tid s + (if tid = w_task w then 1 else 0)"
        using worker_sends_commands [OF ws, of tid] by blast
      have r: "dget (db s) (w_task w) \<noteq> None" using R w by (auto simp: run_valid_def request_of_def)
      show ?thesis
      proof (cases "unsent p")
        case True
        then show ?thesis using p(3) q by blast
      next
        case False
        have "commands tid s = 0" if "tid = w_task w" using J(3) [OF _ w] p(2) that by blast
        then show ?thesis using False J p k r w by (cases "tid = w_task w") auto
      qed
    qed (rule q, rule quietly_commands)
  qed
  then show ?thesis unfolding command_inv_def using worker_step_own [OF gstep_worker [OF g] own] by blast
qed

text \<open>A step that writes a command is a step of the active task, whose row is \<open>planning\<close>.\<close>

lemma command_written_active:
  assumes g: "gstep L S B s s'" and "sends_ok s" and I: "command_inv s" and R: "robot_inv A s"
    and c: "commands tid s' \<noteq> commands tid s"
  shows "active_id s = Some tid \<and> status_of (db s) tid = Some PLANNING"
proof -
  obtain w where ws: "worker_sends L S w s s'"
    using gstep_quiet [OF g assms(2)] quietly_commands c by blast
  then have w: "worker s = Some w" by (simp add: worker_sends_def)
  then have "own_command (w_task w) (w_phase w)" using I by (simp add: command_inv_def)
  then have u: "unsent (w_phase w) \<and> commands tid s \<le> commands tid s'
    \<and> commands tid s' \<le> commands tid s + (if tid = w_task w then 1 else 0)"
    by (rule worker_sends_commands [OF ws, of tid]) (intro conjI)
  then have "tid = w_task w" using c by (auto split: if_splits)
  then show ?thesis using R w u by (cases "w_phase w"; cases "sub_lock s") (auto simp: robot_inv_def)
qed

lemma reachable_commands:
  assumes "reachable L S disk A s" and V: "\<And>t. disk = Some t \<Longrightarrow> rows_valid L S t"
  shows "command_inv s \<and> sends_ok s"
  using assms(1)
proof induction
  case (start now)
  then show ?case by (simp add: command_inv_def commands_def sends_ok_def gateway_start_def)
next
  case (step A s B s')
  have "run_valid L S (worker s) (db s)" using reachable_rows [OF step(1)] V by blast
  then show ?case using gstep_command_inv gstep_sends_ok step by blast
qed

section \<open>A worker comes to its end\<close>

text \<open>A run of steps, with the tasks given up on the way.\<close>

inductive gsteps :: "'l lib_scheme \<Rightarrow> settings \<Rightarrow> string set \<Rightarrow> gateway \<Rightarrow> gateway \<Rightarrow> bool"
  for L :: "'l lib_scheme" and S :: settings where
  none: "gsteps L S {} s s"
| more: "gstep L S B s s1 \<Longrightarrow> gsteps L S C s1 s2 \<Longrightarrow> gsteps L S (B \<union> C) s s2"

lemma gsteps_reachable:
  "gsteps L S B s s' \<Longrightarrow> reachable L S disk A s \<Longrightarrow> reachable L S disk (A \<union> B) s'"
proof (induction arbitrary: A rule: gsteps.induct)
  case (more B s s1 C s2)
  then have "reachable L S disk (A \<union> B) s1" by (blast intro: step)
  then show ?case using more.IH [of "A \<union> B"] by (simp add: Un_assoc)
qed simp

lemma gsteps_snoc: "gsteps L S B s s1 \<Longrightarrow> gstep L S C s1 s2 \<Longrightarrow> gsteps L S (B \<union> C) s s2"
proof (induction rule: gsteps.induct)
  case (none s)
  then show ?case using gsteps.more [OF none gsteps.none] by simp
next
  case (more B s s1 D s2)
  then show ?case using gsteps.more [OF more.hyps(1) more.IH] by (simp add: Un_assoc)
qed

lemma gsteps_row:
  "gsteps L S B s s' \<Longrightarrow> dget (db s) tid = Some r \<Longrightarrow> status r \<noteq> PLANNING \<Longrightarrow> dget (db s') tid = Some r"
  by (induction rule: gsteps.induct) (blast dest: gstep_db db_step_row)+

text \<open>One step of the worker brings it nearer to its end, and one is always possible.\<close>

lemma worker_moves:
  assumes w: "worker s = Some w" "w_phase w \<noteq> WDone"
  shows "\<exists>B s' p. gstep L S B s s' \<and> worker s' = Some (w\<lparr>w_phase := p\<rparr>)
           \<and> phase_rank p < phase_rank (w_phase w)"
proof (cases "w_phase w")
  case WCreated
  have "gstep L S {} s (run_start False L S 0 w s)" by (rule started [OF w(1) WCreated]) (simp add: may_send_def)
  then show ?thesis using run_start_phase [OF w(1) WCreated] WCreated by fastforce
next
  case (WQueued r c m)
  have "gstep L S {} s (run_timeout L S w r s)" using w(1) WQueued by (intro timed_out) auto
  then show ?thesis using w(1) WQueued
    by (intro exI [of _ "{}"] exI [of _ "run_timeout L S w r s"]) (auto simp: run_timeout_def run_save_worker split: prod.split)
next
  case (WSending r c)
  have "gstep L S {} s (run_timeout L S w r s)" using w(1) WSending by (intro timed_out) auto
  then show ?thesis using w(1) WSending
    by (intro exI [of _ "{}"] exI [of _ "run_timeout L S w r s"]) (auto simp: run_timeout_def run_save_worker split: prod.split)
next
  case (WWaiting r)
  have "gstep L S {} s (run_timeout L S w r s)" using w(1) WWaiting by (intro timed_out) auto
  then show ?thesis using w(1) WWaiting
    by (intro exI [of _ "{}"] exI [of _ "run_timeout L S w r s"]) (auto simp: run_timeout_def run_save_worker split: prod.split)
next
  case (WSaving st rs er)
  have "\<exists>p. worker (run_saved True 0 w st rs er s) = Some (w\<lparr>w_phase := p\<rparr>) \<and> phase_rank p < 2"
    using w(1) by (auto simp: run_saved_def split: sum.split)
  then show ?thesis using saved [OF w(1) WSaving, of L S True 0] WSaving by fastforce
next
  case WNotifying
  have "worker (dispatch_on_finished now k v s) = worker s" for now k v
    using gw.fin_view [of now k v s] by (simp add: robot_view_def robot_part_eq)
  then have "worker (run_notified (dispatch_on_finished 0) True w s) = Some (w\<lparr>w_phase := WDone\<rparr>)"
    using w(1) by (simp add: run_notified_def split: prod.split option.split sum.split)
  then show ?thesis using notified [OF w(1) WNotifying, of L S 0 True] WNotifying by fastforce
qed (use w(2) in simp)

lemma worker_ends:
  assumes "worker s = Some w"
  shows "\<exists>B s'. gsteps L S B s s' \<and> worker s' = Some (w\<lparr>w_phase := WDone\<rparr>)"
  using assms
proof (induction "phase_rank (w_phase w)" arbitrary: s w rule: less_induct)
  case less
  show ?case
  proof (cases "w_phase w = WDone")
    case True
    then have "worker s = Some (w\<lparr>w_phase := WDone\<rparr>)" using less(2) by (cases w) simp
    then show ?thesis using gsteps.none by blast
  next
    case False
    obtain B s1 p where s1: "gstep L S B s s1" "worker s1 = Some (w\<lparr>w_phase := p\<rparr>)" "phase_rank p < phase_rank (w_phase w)"
      using worker_moves [OF less(2) False] by blast
    obtain C s' where s': "gsteps L S C s1 s'" "worker s' = Some (w\<lparr>w_phase := p\<rparr>\<lparr>w_phase := WDone\<rparr>)"
      using less(1) [OF _ s1(2)] s1(3) by auto
    have "gsteps L S (B \<union> C) s s'" using s1(1) s'(1) by (rule gsteps.more)
    moreover have "worker s' = Some (w\<lparr>w_phase := WDone\<rparr>)" using s'(2) by simp
    ultimately show ?thesis by blast
  qed
qed

end
