(* ===== verification/JsonRoundtrip.thy ===== *)
theory JsonRoundtrip
  imports TaskRepository
begin

text \<open>
  Reading what was printed: integers, floats (the shortest decimal reads back as the same double),
  strings with their escapes, lists and objects; \<open>loads (dumps v) = Inr v\<close> for every value
  whose floats are doubles, whose integers have at most 4300 digits and whose keys are distinct.
  The fuel \<open>loads\<close> gives the parser is always enough.
\<close>

section \<open>Digits\<close>

lemma byte_char_of: "n < 256 \<Longrightarrow> byte (char_of (n :: nat)) = n"
  by (simp add: of_char_of)

lemma zero_digit: "CHR ''0'' = digit 0"
  by code_simp

lemma digit_props:
  assumes "n < 10"
  shows "byte (digit n) = 48 + n" "is_digit (digit n)" "digit_val (digit n) = int n"
  using assms by (simp_all add: digit_def is_digit_def digit_val_def byte_char_of)

lemma read_nat_snoc: "read_nat (ds @ [c]) = 10 * read_nat ds + digit_val c"
  by (simp add: read_nat_def)

lemma read_nat_append: "read_nat (ds @ es) = read_nat ds * 10 ^ length es + read_nat es"
proof (induction es rule: rev_induct)
  case Nil
  then show ?case by (simp add: read_nat_def)
next
  case (snoc c es)
  have "read_nat (ds @ es @ [c]) = 10 * read_nat (ds @ es) + digit_val c"
    using read_nat_snoc [of "ds @ es" c] by simp
  then show ?case using snoc by (simp add: read_nat_snoc algebra_simps)
qed

lemma show_nat_props:
  assumes "0 \<le> n"
  shows "show_nat n \<noteq> [] \<and> list_all is_digit (show_nat n) \<and> read_nat (show_nat n) = n
    \<and> (0 < n \<longrightarrow> hd (show_nat n) \<noteq> CHR ''0'') \<and> (n = 0 \<longrightarrow> show_nat n = ''0'')"
  using assms
proof (induction n rule: show_nat.induct)
  case (1 n)
  show ?case
  proof (cases "n < 10")
    case True
    have s: "show_nat n = [digit (nat n)]" using True by (simp add: show_nat.simps)
    note z = zero_digit
    have lt: "nat n < 10" using True 1(2) by simp
    have "digit (nat n) \<noteq> digit 0" if "0 < n"
    proof
      assume "digit (nat n) = digit 0"
      then have "48 + nat n = 48 + (0 :: nat)" using digit_props(1) [OF lt] digit_props(1) [of 0] by simp
      with that show False by simp
    qed
    then show ?thesis using True 1(2) digit_props [OF lt] by (auto simp: s z read_nat_def show_nat.simps [of 0])
  next
    case False
    have s: "show_nat n = show_nat (n div 10) @ [digit (nat (n mod 10))]"
      using False by (subst show_nat.simps) simp
    have IH: "show_nat (n div 10) \<noteq> []" "list_all is_digit (show_nat (n div 10))"
      "read_nat (show_nat (n div 10)) = n div 10" "hd (show_nat (n div 10)) \<noteq> CHR ''0''"
      using 1(1) [OF False] False by auto
    show ?thesis
      using False IH digit_props [of "nat (n mod 10)"] by (simp add: s read_nat_snoc)
  qed
qed

lemma show_nat_small: "0 \<le> n \<Longrightarrow> n < 10 \<Longrightarrow> show_nat n = [digit (nat n)]"
  by (subst show_nat.simps) simp

lemma zeros_props: "list_all is_digit (zeros n)" "read_nat (zeros n) = 0" "length (zeros n) = n"
proof -
  note z = zero_digit
  show "list_all is_digit (zeros n)" by (simp add: zeros_def list_all_iff z digit_props)
  show "read_nat (zeros n) = 0"
  proof (induction n)
    case (Suc n)
    have "zeros (Suc n) = [digit 0] @ zeros n" by (simp add: zeros_def z)
    then show ?case using Suc read_nat_append [of "[digit 0]" "zeros n"] digit_props(3) [of 0] by (simp add: read_nat_def)
  qed (simp add: zeros_def read_nat_def)
  show "length (zeros n) = n" by (simp add: zeros_def)
qed

section \<open>Reading a number where it ends\<close>

text \<open>What may follow a value inside a text: the end, a comma, a closing bracket or white space.\<close>

definition stops :: "string \<Rightarrow> bool" where
  "stops rest \<longleftrightarrow> rest = [] \<or> hd rest \<in> {CHR '','', CHR '']'', CHR ''}''} \<or> is_ws (hd rest)"

lemma not_digits:
  "\<not> is_digit CHR '',''" "\<not> is_digit CHR '']''" "\<not> is_digit CHR ''}''" "\<not> is_digit CHR ''.''"
  "\<not> is_digit CHR ''e''" "\<not> is_digit CHR ''-''" "\<not> is_digit CHR ''+''" "is_digit CHR ''0''"
  by code_simp+

lemma take_digits:
  assumes "list_all is_digit ds" "rest = [] \<or> \<not> is_digit (hd rest)"
  shows "takeWhile is_digit (ds @ rest) = ds" "dropWhile is_digit (ds @ rest) = rest"
proof -
  have "takeWhile is_digit rest = []" "dropWhile is_digit rest = rest" using assms(2) by (cases rest; simp)+
  then show "takeWhile is_digit (ds @ rest) = ds" "dropWhile is_digit (ds @ rest) = rest"
    using assms(1) by (simp_all add: list_all_iff)
qed

lemma stops_digit: "stops rest \<Longrightarrow> rest = [] \<or> \<not> is_digit (hd rest)"
proof -
  have "\<not> is_digit CHR '' ''" "\<not> is_digit CHR 0x09" "\<not> is_digit CHR 0x0A" "\<not> is_digit CHR 0x0D" by code_simp+
  then show "stops rest \<Longrightarrow> ?thesis" using not_digits by (auto simp: stops_def is_ws_def)
qed

lemma split_int_digits:
  assumes "ds \<noteq> []" "list_all is_digit ds" "hd ds = CHR ''0'' \<longrightarrow> ds = ''0''"
    and r: "rest = [] \<or> \<not> is_digit (hd rest)"
  shows "split_int (ds @ rest) = (ds, rest)"
proof (cases ds)
  case (Cons c cs)
  then show ?thesis using assms take_digits [of cs rest] by auto
qed (use assms in simp)

lemma split_frac_stops: "stops rest \<Longrightarrow> split_frac rest = ([], rest)"
  by (cases rest) (auto simp: stops_def is_ws_def)

lemma split_frac_digits:
  assumes "fs \<noteq> []" "list_all is_digit fs" "rest = [] \<or> \<not> is_digit (hd rest)"
  shows "split_frac (CHR ''.'' # fs @ rest) = (fs, rest)"
  using take_digits [OF assms(2,3)] assms(1) by simp

lemma split_exp_stops: "stops rest \<Longrightarrow> split_exp rest = (None, rest)"
  by (cases rest) (auto simp: stops_def is_ws_def split: prod.split)

lemma show_exp_split:
  assumes "stops rest"
  shows "split_exp (CHR ''e'' # show_exp e @ rest) = (Some e, rest)"
proof -
  define ds where "ds = (if length (show_nat \<bar>e\<bar>) < 2 then zeros 1 @ show_nat \<bar>e\<bar> else show_nat \<bar>e\<bar>)"
  have ds: "list_all is_digit ds" "ds \<noteq> []" "read_nat ds = \<bar>e\<bar>"
    using show_nat_props [of "\<bar>e\<bar>"] zeros_props [of 1] read_nat_append [of "zeros 1" "show_nat \<bar>e\<bar>"]
    by (auto simp: ds_def)
  have s: "show_exp e = (if e < 0 then CHR ''-'' # ds else CHR ''+'' # ds)"
    by (simp add: show_exp_def Let_def ds_def)
  show ?thesis
    using take_digits [OF ds(1) stops_digit [OF assms]] ds(2,3) by (simp add: s)
qed

lemma parse_number_pos:
  assumes "split_int cs = (ip, r1)" "split_frac r1 = (fp, r2)" "split_exp r2 = (ex, r3)" "ip \<noteq> []"
    "hd ip \<noteq> CHR ''-''" "fp \<noteq> [] \<or> ex \<noteq> None" "hd cs \<noteq> CHR ''-''"
  shows "parse_number cs = Some (Inr (PFloat (f64 (of_int (read_nat (ip @ fp))
           * 10 powi (case_option 0 id ex - int (length fp)))), r3))"
    "parse_number (CHR ''-'' # cs) = Some (Inr (PFloat (with_sign True (f64 (of_int (- read_nat (ip @ fp))
           * 10 powi (case_option 0 id ex - int (length fp))))), r3))"
  using assms by (auto simp: parse_number_def with_sign_def split: list.split)

lemma parse_number_int:
  assumes "0 \<le> n" "length (show_nat n) \<le> MAX_DIGITS" "stops rest"
  shows "parse_number (show_nat n @ rest) = Some (Inr (PInt n, rest))"
    "parse_number (CHR ''-'' # show_nat n @ rest) = Some (Inr (PInt (- n), rest))"
proof -
  note P = show_nat_props [OF assms(1)]
  have i: "split_int (show_nat n @ rest) = (show_nat n, rest)"
    using P assms(1,3) by (intro split_int_digits stops_digit) auto
  have h: "hd (show_nat n) \<noteq> CHR ''-''" using P not_digits(6) by (cases "show_nat n") auto
  have "parse_number (show_nat n @ rest) = Some (Inr (PInt n, rest))
    \<and> parse_number (CHR ''-'' # show_nat n @ rest) = Some (Inr (PInt (- n), rest))"
    using P h assms(2) i by (cases "show_nat n")
      (simp_all add: parse_number_def split_frac_stops split_exp_stops assms(3))
  then show "parse_number (show_nat n @ rest) = Some (Inr (PInt n, rest))"
    "parse_number (CHR ''-'' # show_nat n @ rest) = Some (Inr (PInt (- n), rest))" by simp_all
qed

section \<open>Reading back a float\<close>

text \<open>All four layouts denote \<open>read_nat ds * 10 powi (p - length ds)\<close>.\<close>

lemma digits_nonminus: "list_all is_digit ds \<Longrightarrow> ds \<noteq> [] \<Longrightarrow> hd ds \<noteq> CHR ''-''"
  using not_digits(6) by (cases ds) auto

lemma powi_shift: "(10 :: rat) powi (int n + e) = 10 ^ n * 10 powi e"
  by (simp add: power_int_add)

lemma parse_layout:
  fixes p :: int
  assumes ds: "ds \<noteq> []" "list_all is_digit ds" "hd ds \<noteq> CHR ''0''" and r: "stops rest"
  defines "v \<equiv> of_int (read_nat ds) * 10 powi (p - int (length ds)) :: rat"
  shows "parse_number (layout ds p @ rest) = Some (Inr (PFloat (f64 v), rest))"
    "parse_number (CHR ''-'' # layout ds p @ rest) = Some (Inr (PFloat (with_sign True (f64 (- v))), rest))"
proof -
  have rd: "rest = [] \<or> \<not> is_digit (hd rest)" using r by (rule stops_digit)
  have goal: "parse_number (layout ds p @ rest) = Some (Inr (PFloat (f64 v), rest))
      \<and> parse_number (CHR ''-'' # layout ds p @ rest) = Some (Inr (PFloat (with_sign True (f64 (- v))), rest))"
    if s: "split_int (layout ds p @ rest) = (ip, r1)" "split_frac r1 = (fp, r2)" "split_exp r2 = (ex, rest)"
      "ip \<noteq> []" "list_all is_digit ip" "fp \<noteq> [] \<or> ex \<noteq> None" "hd (layout ds p @ rest) \<noteq> CHR ''-''"
      and val: "of_int (read_nat (ip @ fp)) * 10 powi (case_option 0 id ex - int (length fp)) = v" for ip r1 fp r2 ex
    using parse_number_pos [OF s(1,2,3,4) digits_nonminus [OF s(5,4)] s(6,7)] val by simp
  have n: "0 < length ds" using ds by simp
  consider (exp) "p \<le> -4 \<or> 16 < p" | (small) "-4 < p" "p \<le> 0" | (whole) "0 < p" "p \<le> 16" "int (length ds) \<le> p"
    | (mixed) "0 < p" "p \<le> 16" "p < int (length ds)" by linarith
  then have "parse_number (layout ds p @ rest) = Some (Inr (PFloat (f64 v), rest))
      \<and> parse_number (CHR ''-'' # layout ds p @ rest) = Some (Inr (PFloat (with_sign True (f64 (- v))), rest))"
  proof cases
    case exp
    let ?e = "CHR ''e'' # show_exp (p - 1) @ rest"
    obtain c cs where c: "ds = c # cs" using ds by (cases ds) auto
    have l: "layout ds p @ rest = [c] @ (if cs = [] then [] else CHR ''.'' # cs) @ ?e"
      using exp c by (simp add: layout_def)
    have i: "split_int (layout ds p @ rest) = ([c], (if cs = [] then [] else CHR ''.'' # cs) @ ?e)"
      unfolding l using ds c not_digits(4,5) by (intro split_int_digits) auto
    have f: "split_frac ((if cs = [] then [] else CHR ''.'' # cs) @ ?e) = (cs, ?e)"
      using split_frac_digits [of cs ?e] ds c not_digits(5) by auto
    have h: "hd (layout ds p @ rest) \<noteq> CHR ''-''" unfolding l using ds c not_digits(6) by auto
    have e: "p - 1 - int (length cs) = p - int (length ds)" by (simp add: c)
    have "of_int (read_nat ([c] @ cs)) * 10 powi (case_option 0 id (Some (p - 1)) - int (length cs)) = v"
      unfolding v_def option.case id_apply e by (simp add: c)
    then show ?thesis
      by (intro goal [OF i f show_exp_split [OF r] _ _ _ h]) (use ds c in simp_all)
  next
    case small
    have l: "layout ds p @ rest = ''0'' @ CHR ''.'' # (zeros (nat (- p)) @ ds) @ rest"
      using small by (simp add: layout_def)
    have i: "split_int (layout ds p @ rest) = (''0'', CHR ''.'' # (zeros (nat (- p)) @ ds) @ rest)"
      unfolding l using not_digits(4,8) by (intro split_int_digits) auto
    have f: "split_frac (CHR ''.'' # (zeros (nat (- p)) @ ds) @ rest) = (zeros (nat (- p)) @ ds, rest)"
      using ds zeros_props(1) rd by (intro split_frac_digits) auto
    have e: "(10 :: rat) powi (- int (length (zeros (nat (- p)) @ ds))) = 10 powi (p - int (length ds))"
      using small zeros_props(3) by simp
    have "read_nat (''0'' @ zeros (nat (- p)) @ ds) = read_nat ds"
      using read_nat_append [of "''0''" "zeros (nat (- p)) @ ds"] read_nat_append [of "zeros (nat (- p))" ds]
        zeros_props(2) zeros_props(2) [of 1] by (simp add: zeros_def)
    then show ?thesis
      by (intro goal [OF i f split_exp_stops [OF r]])
        (use ds e not_digits(8) in \<open>auto simp: l v_def\<close>)
  next
    case whole
    let ?z = "zeros (nat p - length ds)"
    have l: "layout ds p @ rest = (ds @ ?z) @ CHR ''.'' # ''0'' @ rest"
    proof -
      have "(p \<le> - 4 \<or> 16 < p) = False" "(p \<le> 0) = False" "(int (length ds) \<le> p) = True"
        using whole by auto
      then show ?thesis by (simp only: layout_def if_False if_True append_assoc) simp
    qed
    have i: "split_int (layout ds p @ rest) = (ds @ ?z, CHR ''.'' # ''0'' @ rest)"
      unfolding l using ds not_digits(4) zeros_props(1) by (intro split_int_digits) auto
    have f: "split_frac (CHR ''.'' # ''0'' @ rest) = (''0'', rest)"
      using not_digits(8) rd by (intro split_frac_digits) auto
    have "read_nat ((ds @ ?z) @ ''0'') = read_nat ds * 10 ^ (nat p - length ds) * 10"
      using read_nat_append [of "ds @ ?z" "''0''"] read_nat_append [of ds ?z] zeros_props(2,3)
        zeros_props(2) [of 1] by (simp add: zeros_def)
    moreover have "p - int (length ds) = int (nat p - length ds) + 0" using whole by simp
    then have "(10 :: rat) powi (p - int (length ds)) = 10 ^ (nat p - length ds)"
      by (simp only: powi_shift) simp
    ultimately have "of_int (read_nat ((ds @ ?z) @ ''0'')) * 10 powi (- 1) = v"
      by (simp add: v_def power_int_minus)
    then show ?thesis
      by (intro goal [OF i f split_exp_stops [OF r]])
        (use ds zeros_props(1) digits_nonminus [OF ds(2,1)] in \<open>auto simp: l\<close>)
  next
    case mixed
    have l: "layout ds p @ rest = take (nat p) ds @ CHR ''.'' # drop (nat p) ds @ rest"
      using mixed by (simp add: layout_def)
    have td: "list_all is_digit (take (nat p) ds)" "list_all is_digit (drop (nat p) ds)"
      "take (nat p) ds \<noteq> []" "drop (nat p) ds \<noteq> []" "hd (take (nat p) ds) = hd ds"
      using ds mixed by (auto simp: list_all_iff dest: in_set_takeD in_set_dropD)
    have i: "split_int (layout ds p @ rest) = (take (nat p) ds, CHR ''.'' # drop (nat p) ds @ rest)"
      unfolding l using td ds(3) not_digits(4) by (intro split_int_digits) auto
    have f: "split_frac (CHR ''.'' # drop (nat p) ds @ rest) = (drop (nat p) ds, rest)"
      using td rd by (intro split_frac_digits)
    have "- int (length (drop (nat p) ds)) = p - int (length ds)" using mixed by simp
    then show ?thesis
      by (intro goal [OF i f split_exp_stops [OF r]])
        (use td digits_nonminus [OF td(1,3)] in \<open>auto simp: l v_def\<close>)
  qed
  then show "parse_number (layout ds p @ rest) = Some (Inr (PFloat (f64 v), rest))"
    "parse_number (CHR ''-'' # layout ds p @ rest) = Some (Inr (PFloat (with_sign True (f64 (- v))), rest))" by simp_all
qed

section \<open>The shortest decimal reads back\<close>

lemma dvd_power_of_two: "0 < d \<Longrightarrow> d dvd (2 ^ k :: int) \<Longrightarrow> \<exists>j. d = 2 ^ j"
proof (induction k arbitrary: d)
  case 0
  then show ?case by (intro exI [of _ 0]) simp
next
  case (Suc k)
  show ?case
  proof (cases "even d")
    case True
    then obtain d' where d: "d = 2 * d'" by blast
    then have "0 < d'" "d' dvd 2 ^ k" using Suc.prems by auto
    then obtain j where "d' = 2 ^ j" using Suc.IH by blast
    then show ?thesis using d by (intro exI [of _ "Suc j"]) simp
  next
    case False
    then have "coprime d 2" by (simp add: coprime_right_2_iff_odd)
    then have "d dvd 2 ^ k" using Suc.prems(2) by (simp add: coprime_dvd_mult_right_iff)
    then show ?thesis using Suc.IH Suc.prems(1) by blast
  qed
qed

lemma denom_power_of_two:
  assumes "q = of_int m * 2 powi u" "quotient_of q = (n, d)"
  shows "\<exists>j. d = 2 ^ j"
proof -
  have d: "0 < d" and co: "coprime n d" and q: "q = of_int n / of_int d"
    using assms(2) quotient_of_denom_pos quotient_of_coprime quotient_of_div by blast+
  define k where "k = nat (- u)"
  have "2 powi u * 2 ^ k = (2 :: rat) ^ nat u"
    by (cases "0 \<le> u") (simp_all add: k_def power_int_def field_simps)
  then have "q * 2 ^ k = of_int m * 2 ^ nat u" using assms(1) by (simp add: mult.assoc)
  then have "of_int (n * 2 ^ k) = (of_int (m * 2 ^ nat u * d) :: rat)"
    using q d by (simp add: field_simps)
  then have "n * 2 ^ k = m * 2 ^ nat u * d" by (simp only: of_int_eq_iff)
  then have "d dvd n * 2 ^ k" by simp
  then have "d dvd 2 ^ k" using co by (simp add: coprime_commute coprime_dvd_mult_right_iff)
  then show ?thesis using dvd_power_of_two d by blast
qed

lemma flog_power_of_two: "flog 2 (2 ^ j) = j"
proof -
  have "2 ^ flog 2 (2 ^ j) \<le> (2 ^ j :: int)" "(2 ^ j :: int) < 2 ^ Suc (flog 2 (2 ^ j))"
    using flog_bounds [of 2 "2 ^ j"] by auto
  then have "flog 2 (2 ^ j) \<le> j" "j < Suc (flog 2 (2 ^ j))"
    by (simp_all only: power_increasing_iff power_strict_increasing_iff one_less_numeral_iff semiring_norm)
  then show ?thesis by simp
qed

lemma shortest_spec:
  "shortest fuel q s = (k, s') \<Longrightarrow>
   f64 (of_int k * 10 powi s') = Fin q \<or> (s' = s - int fuel \<and> k = \<lfloor>q / 10 powi s'\<rfloor>)"
proof (induction fuel q s rule: shortest.induct)
  case (2 fuel q s)
  then show ?case
    by (cases "cand q \<lfloor>q / 10 powi s\<rfloor> s") (auto simp: cand_def Let_def split: if_splits)
qed auto

lemma decimal_reads_back:
  assumes q: "0 < q" "f64 q = Fin q" and d: "decimal q = (k, s)"
  shows "f64 (of_int k * 10 powi s) = Fin q" "0 < k"
proof -
  obtain n d' where qd: "quotient_of q = (n, d')" by (cases "quotient_of q")
  have "q = round53 q" using f64_Fin_round53 [OF q(2)] .
  then have "q = of_int (rhe (q / 2 powi ulp_exp q)) * 2 powi ulp_exp q" by (simp add: round53_def Let_def)
  then obtain j where j: "d' = 2 ^ j" using denom_power_of_two qd by blast
  have qn: "q = of_int n / 2 ^ j" using quotient_of_div [OF qd] j by simp
  have n: "1 \<le> n" using q(1) qn by (simp add: zero_less_divide_iff)
  define e where "e = ilog 10 q"
  have dec: "shortest (nat (e + int j)) q e = (k, s)"
    using d unfolding decimal_def qd j e_def Let_def by (simp add: flog_power_of_two)
  have "q < 10 powi (e + 1)" using ilog_bounds [of 10 q] q(1) by (simp add: e_def)
  moreover have "1 / 2 ^ j \<le> q" using n qn by (simp add: divide_right_mono)
  ultimately have lt: "1 / 2 ^ j < (10 :: rat) powi (e + 1)" by linarith
  have ej: "0 \<le> e + int j"
  proof (rule ccontr)
    assume "\<not> 0 \<le> e + int j"
    then have "(10 :: rat) powi (e + 1) \<le> 10 powi (- int j)" by (intro power_int_increasing) simp_all
    also have "\<dots> = 1 / 10 ^ j" by (simp add: power_int_minus divide_inverse)
    also have "\<dots> \<le> 1 / 2 ^ j" by (intro divide_left_mono power_mono) simp_all
    finally show False using lt by simp
  qed
  show f: "f64 (of_int k * 10 powi s) = Fin q"
    using shortest_spec [OF dec]
  proof
    assume a: "s = e - int (nat (e + int j)) \<and> k = \<lfloor>q / 10 powi s\<rfloor>"
    then have s: "s = - int j" using ej by simp
    have "(10 :: rat) ^ j = 2 ^ j * 5 ^ j" using power_mult_distrib [of "2 :: rat" 5 j] by simp
    then have z: "q / 10 powi s = of_int (n * 5 ^ j)"
      by (simp add: s qn power_int_minus field_simps)
    then have "k = n * 5 ^ j" using a by (metis floor_of_int)
    then have "of_int k * 10 powi s = q / 10 powi s * 10 powi s" using z by simp
    then have "of_int k * 10 powi s = q" by simp
    then show ?thesis using q(2) by simp
  qed
  show "0 < k"
  proof (rule ccontr)
    assume k: "\<not> 0 < k"
    then have "of_int k * 10 powi s \<le> (0 :: rat)" by (simp add: mult_nonpos_nonneg)
    then have "round53 (of_int k * 10 powi s) \<le> round53 0" by (rule round53_mono)
    then show False using f64_Fin_round53 [OF f] q(1) by (simp add: round53_def [of 0] rhe_def)
  qed
qed

section \<open>Numbers printed and read\<close>

lemma parse_show_pos:
  assumes q: "0 < q" "f64 q = Fin q" and r: "stops rest"
  shows "parse_number (show_pos q @ rest) = Some (Inr (PFloat (Fin q), rest))"
    "parse_number (CHR ''-'' # show_pos q @ rest) = Some (Inr (PFloat (Fin (- q)), rest))"
proof -
  obtain k s where d: "decimal q = (k, s)" by fastforce
  note D = decimal_reads_back [OF q d]
  let ?ds = "show_nat k"
  have P: "?ds \<noteq> []" "list_all is_digit ?ds" "hd ?ds \<noteq> CHR ''0''" "read_nat ?ds = k"
    using show_nat_props [of k] D(2) by auto
  have l: "show_pos q = layout ?ds (int (length ?ds) + s)" by (simp add: show_pos_def d Let_def)
  have "f64 (- (of_int k * 10 powi s)) = Fin (- q)"
  proof -
    have "q \<noteq> 0" "of_int k * 10 powi s \<noteq> (0 :: rat)" using q(1) D(2) by auto
    then show ?thesis using D(1) by (auto simp: f64_def Let_def round53_uminus split: if_splits)
  qed
  then show "parse_number (show_pos q @ rest) = Some (Inr (PFloat (Fin q), rest))"
    "parse_number (CHR ''-'' # show_pos q @ rest) = Some (Inr (PFloat (Fin (- q)), rest))"
    using parse_layout [OF P(1-3) r, of "int (length ?ds) + s"] D(1) q(1) by (simp_all add: l P(4) with_sign_def)
qed

section \<open>Strings\<close>

lemma hex_digit_val: "n < 16 \<Longrightarrow> hex_val (hex_digit n) = Some n"
  by (cases "n < 10") (simp_all add: hex_val_def hex_digit_def digit_props(1) byte_char_of Let_def)

lemma utf8_enc_low: "n < 128 \<Longrightarrow> utf8_enc n = [char_of n]"
  by (simp add: utf8_enc_def)

lemma escape_control:
  assumes "byte c < 32"
  shows "read_unicode (CHR ''0'' # CHR ''0'' # hex_digit (byte c div 16) # hex_digit (byte c mod 16) # r) = Some ([c], r)"
proof -
  have h: "hex_val (hex_digit (byte c div 16)) = Some (byte c div 16)"
    "hex_val (hex_digit (byte c mod 16)) = Some (byte c mod 16)"
    using assms by (auto intro!: hex_digit_val)
  have z: "hex_val CHR ''0'' = Some 0" using hex_digit_val [of 0] by (simp add: hex_digit_def zero_digit)
  have "read_u4 (CHR ''0'' # CHR ''0'' # hex_digit (byte c div 16) # hex_digit (byte c mod 16) # r)
      = Some (byte c, r)" by (simp add: h z)
  then show ?thesis using assms by (simp add: read_unicode_def utf8_enc_low)
qed

lemma escape_consts:
  "BACKSLASH \<noteq> QUOTE" "\<not> byte BACKSLASH < 32"
  "simple_escape QUOTE = Some QUOTE" "simple_escape BACKSLASH = Some BACKSLASH"
  "simple_escape CHR ''n'' = Some CHR 0x0A" "simple_escape CHR ''r'' = Some CHR 0x0D"
  "simple_escape CHR ''t'' = Some CHR 0x09" "simple_escape CHR ''f'' = Some CHR 0x0C"
  "simple_escape CHR ''b'' = Some CHR 0x08" "QUOTE \<noteq> CHR ''u''" "BACKSLASH \<noteq> CHR ''u''"
  by code_simp+

lemma scan_simple:
  assumes "simple_escape e = Some c" "e \<noteq> CHR ''u''"
  shows "scan_str (BACKSLASH # e # s) = map_option (\<lambda>(t, r). (c # t, r)) (scan_str s)"
  using assms escape_consts(1,2) by (subst scan_str.simps) simp

lemma scan_escape:
  "scan_str (escape c @ s) = map_option (\<lambda>(t, r). (c # t, r)) (scan_str s)"
proof -
  consider "c = QUOTE" | "c = BACKSLASH" | "c = CHR 0x0A" | "c = CHR 0x0D" | "c = CHR 0x09" | "c = CHR 0x0C"
    | "c = CHR 0x08" | (control) "c \<notin> {QUOTE, BACKSLASH, CHR 0x0A, CHR 0x0D, CHR 0x09, CHR 0x0C, CHR 0x08}" "byte c < 32"
    | (plain) "c \<notin> {QUOTE, BACKSLASH}" "\<not> byte c < 32" "c \<notin> {CHR 0x0A, CHR 0x0D, CHR 0x09, CHR 0x0C, CHR 0x08}"
    by auto
  then show ?thesis
  proof cases
    case control
    then have "escape c = BACKSLASH # CHR ''u'' # CHR ''0'' # CHR ''0'' # hex_digit (byte c div 16) # [hex_digit (byte c mod 16)]"
      by (simp add: escape_def)
    then show ?thesis
      using escape_control [OF control(2)] escape_consts(1,2) by (simp add: scan_str.simps(2))
  next
    case plain
    then show ?thesis by (simp add: escape_def scan_str.simps(2))
  qed (simp_all add: escape_def scan_simple escape_consts)
qed

lemma scan_escaped: "scan_str (concat (map escape s) @ QUOTE # rest) = Some (s, rest)"
proof (induction s)
  case Nil
  then show ?case by (simp add: scan_str.simps)
next
  case (Cons c s)
  then show ?case by (simp add: scan_escape)
qed

section \<open>Values\<close>

text \<open>The values that survive: doubles, integers Python prints and reads, distinct keys.\<close>

fun json_ok :: "pyval \<Rightarrow> bool" where
  "json_ok (PFloat f) = float_ok f"
| "json_ok (PInt i) = (length (show_nat \<bar>i\<bar>) \<le> MAX_DIGITS)"
| "json_ok (PList vs) = list_all json_ok vs"
| "json_ok (PDict d) = (distinct (map fst d) \<and> list_all (\<lambda>p. json_ok (snd p)) d)"
| "json_ok _ = True"

text \<open>How a printed value starts.\<close>

definition START :: "char set" where
  "START = {QUOTE, CHR ''{'', CHR ''['', CHR ''-'', CHR ''n'', CHR ''t'', CHR ''f'', CHR ''N'', CHR ''I''}
     \<union> {c. is_digit c}"

lemma layout_start:
  "ds \<noteq> [] \<Longrightarrow> list_all is_digit ds \<Longrightarrow> layout ds p \<noteq> [] \<and> is_digit (hd (layout ds p))"
  using not_digits(8) by (cases ds) (auto simp: layout_def Let_def hd_append zeros_def take_Cons')

lemma show_nat_start: "0 \<le> n \<Longrightarrow> show_nat n \<noteq> [] \<and> is_digit (hd (show_nat n))"
  using show_nat_props [of n] by (cases "show_nat n") auto

lemma show_pos_start: "0 < q \<Longrightarrow> f64 q = Fin q \<Longrightarrow> show_pos q \<noteq> [] \<and> is_digit (hd (show_pos q))"
proof -
  assume q: "0 < q" "f64 q = Fin q"
  obtain k s where d: "decimal q = (k, s)" by fastforce
  have "0 < k" using decimal_reads_back [OF q d] by simp
  then show ?thesis
    using show_nat_props [of k] layout_start [of "show_nat k"] by (simp add: show_pos_def d Let_def)
qed

lemma dumps_start: "json_ok v \<Longrightarrow> dumps v \<noteq> [] \<and> hd (dumps v) \<in> START"
proof (cases v)
  case (PInt i)
  then show ?thesis using show_nat_start [of "\<bar>i\<bar>"] by (auto simp: show_int_def START_def)
next
  case (PFloat f)
  assume "json_ok v"
  then show ?thesis
    using PFloat show_pos_start [of "\<bar>case f of Fin q \<Rightarrow> q | _ \<Rightarrow> 0\<bar>"] not_digits(8)
    by (cases f) (auto simp: START_def)
qed (auto simp: START_def show_str_def)

lemma START_not_ws: "c \<in> START \<Longrightarrow> \<not> is_ws c"
proof -
  have "\<not> is_digit CHR '' ''" "\<not> is_digit CHR 0x09" "\<not> is_digit CHR 0x0A" "\<not> is_digit CHR 0x0D" by code_simp+
  then show "c \<in> START \<Longrightarrow> ?thesis" by (auto simp: START_def is_ws_def QUOTE_def)
qed

lemma skip_ws_dumps: "json_ok v \<Longrightarrow> skip_ws (dumps v @ rest) = dumps v @ rest"
  using dumps_start [of v] START_not_ws by (cases "dumps v") auto

lemma literal_no: "w \<noteq> [] \<Longrightarrow> cs \<noteq> [] \<Longrightarrow> hd cs \<noteq> hd w \<Longrightarrow> literal w v cs = None"
  by (cases cs; cases w) (auto simp: literal_def)

lemma literal_yes: "literal w v (w @ rest) = Some (v, rest)"
  by (simp add: literal_def)

lemma digit_not_letter:
  assumes "is_digit c"
  shows "c \<noteq> CHR ''n''" "c \<noteq> CHR ''t''" "c \<noteq> CHR ''f''" "c \<noteq> QUOTE" "c \<noteq> CHR ''{''" "c \<noteq> CHR ''[''"
proof -
  have "\<not> is_digit CHR ''n''" "\<not> is_digit CHR ''t''" "\<not> is_digit CHR ''f''" "\<not> is_digit QUOTE"
    "\<not> is_digit CHR ''{''" "\<not> is_digit CHR ''[''" by code_simp+
  then show "c \<noteq> CHR ''n''" "c \<noteq> CHR ''t''" "c \<noteq> CHR ''f''" "c \<noteq> QUOTE" "c \<noteq> CHR ''{''" "c \<noteq> CHR ''[''"
    using assms by auto
qed

lemma parse_atom_number:
  assumes "cs \<noteq> []" "is_digit (hd cs) \<or> hd cs = CHR ''-''" "parse_number cs = Some r"
  shows "parse_atom cs = r"
proof -
  have "hd cs \<noteq> CHR ''n''" "hd cs \<noteq> CHR ''t''" "hd cs \<noteq> CHR ''f''"
    using assms(2) digit_not_letter by auto
  then show ?thesis using assms(1,3) by (simp add: parse_atom_def literal_no)
qed

lemma parse_number_none:
  "parse_number (CHR ''N'' # cs) = None" "parse_number (CHR ''I'' # cs) = None"
  "parse_number (CHR ''-'' # CHR ''I'' # cs) = None"
proof -
  have "\<not> is_digit CHR ''N''" "\<not> is_digit CHR ''I''" by code_simp+
  then show "parse_number (CHR ''N'' # cs) = None" "parse_number (CHR ''I'' # cs) = None"
    "parse_number (CHR ''-'' # CHR ''I'' # cs) = None"
    by (simp_all add: parse_number_def split: prod.split)
qed

lemma parse_atom_int:
  assumes "json_ok (PInt i)" "stops rest"
  shows "parse_atom (show_int i @ rest) = Inr (PInt i, rest)"
proof (cases "i < 0")
  case True
  then show ?thesis
    using assms parse_number_int [of "- i" rest] by (intro parse_atom_number) (simp_all add: show_int_def)
next
  case False
  then show ?thesis
    using assms parse_number_int [of i rest] show_nat_start [of i]
    by (intro parse_atom_number) (auto simp: show_int_def)
qed

lemma parse_number_zero:
  assumes "stops rest"
  shows "parse_number (''0.0'' @ rest) = Some (Inr (PFloat (Fin 0), rest))"
    "parse_number (CHR ''-'' # ''0.0'' @ rest) = Some (Inr (PFloat NZero, rest))"
proof -
  have z: "split_int (''0.0'' @ rest) = (''0'', CHR ''.'' # ''0'' @ rest)" by simp
  have f: "split_frac (CHR ''.'' # ''0'' @ rest) = (''0'', rest)"
    using not_digits(8) stops_digit [OF assms] by (intro split_frac_digits) auto
  have "read_nat (''0'' @ ''0'') = 0" using zeros_props(2) [of 2] by (simp add: zeros_def numeral_2_eq_2)
  then show "parse_number (''0.0'' @ rest) = Some (Inr (PFloat (Fin 0), rest))"
    "parse_number (CHR ''-'' # ''0.0'' @ rest) = Some (Inr (PFloat NZero, rest))"
    using parse_number_pos [OF z f split_exp_stops [OF assms]] by (simp_all add: with_sign_def)
qed

lemma parse_atom_float:
  assumes "float_ok f" "stops rest"
  shows "parse_atom (show_float f @ rest) = Inr (PFloat f, rest)"
proof (cases f)
  case NZero
  then show ?thesis using parse_number_zero(2) [OF assms(2)] by (intro parse_atom_number) simp_all
next
  case (Fin q)
  consider "q = 0" | "0 < q" | "q < 0" by linarith
  then show ?thesis
  proof cases
    case 1
    have "parse_number (''0.0'' @ rest) = Some (Inr (PFloat (Fin 0), rest))" by (rule parse_number_zero(1) [OF assms(2)])
    then show ?thesis using Fin 1 not_digits(8) by (intro parse_atom_number) simp_all
  next
    case 2
    then show ?thesis
      using Fin assms parse_show_pos(1) [of q rest] show_pos_start [of q] by (intro parse_atom_number) auto
  next
    case 3
    have "f64 (- q) = Fin (- q)"
      using assms(1) Fin 3 by (auto simp: f64_def Let_def round53_uminus split: if_splits)
    then show ?thesis
      using Fin 3 parse_show_pos(2) [of "- q" rest, OF _ _ assms(2)] by (intro parse_atom_number) auto
  qed
qed (simp_all add: parse_atom_def literal_no parse_number_none literal_def)

text \<open>The atoms, and where their text starts.\<close>

fun is_atom :: "pyval \<Rightarrow> bool" where
  "is_atom (PStr _) = False"
| "is_atom (PList _) = False"
| "is_atom (PDict _) = False"
| "is_atom _ = True"

lemma parse_atom_dumps:
  assumes "is_atom v" "json_ok v" "stops rest"
  shows "parse_atom (dumps v @ rest) = Inr (v, rest)"
proof (cases v)
  case PNone
  then show ?thesis by (simp add: parse_atom_def literal_def)
next
  case (PBool b)
  then show ?thesis by (cases b) (simp_all add: parse_atom_def literal_def)
next
  case (PInt i)
  then show ?thesis using assms parse_atom_int by simp
next
  case (PFloat f)
  then show ?thesis using assms parse_atom_float by simp
qed (use assms(1) in auto)

lemma atom_start:
  assumes "is_atom v" "json_ok v"
  shows "hd (dumps v) \<notin> {QUOTE, CHR ''{'', CHR ''[''}" "dumps v \<noteq> []"
proof -
  have "hd (dumps v) \<notin> {QUOTE, CHR ''{'', CHR ''[''} \<and> dumps v \<noteq> []"
  proof (cases v)
    case (PInt i)
    have m: "CHR ''-'' \<notin> {QUOTE, CHR ''{'', CHR ''[''}" by (simp add: QUOTE_def)
    have "show_nat \<bar>i\<bar> \<noteq> []" "is_digit (hd (show_nat \<bar>i\<bar>))" using show_nat_start [of "\<bar>i\<bar>"] by auto
    then have "show_nat \<bar>i\<bar> \<noteq> []" "hd (show_nat \<bar>i\<bar>) \<notin> {QUOTE, CHR ''{'', CHR ''[''}"
      using digit_not_letter(4-6) [of "hd (show_nat \<bar>i\<bar>)"] by auto
    with m show ?thesis by (cases "i < 0") (simp_all add: PInt show_int_def)
  next
    case (PFloat f)
    have *: "0 < q \<Longrightarrow> f64 q = Fin q \<Longrightarrow> show_pos q \<noteq> [] \<and> hd (show_pos q) \<notin> {QUOTE, CHR ''{'', CHR ''[''}" for q
      using show_pos_start [of q] digit_not_letter by auto
    show ?thesis
    proof (cases f)
      case (Fin q)
      then show ?thesis
        using PFloat assms(2) * [of q] by (cases q "0 :: rat" rule: linorder_cases) (auto simp: QUOTE_def)
    qed (simp_all add: PFloat QUOTE_def)
  qed (use assms(1) in \<open>auto simp: QUOTE_def\<close>)
  then show "hd (dumps v) \<notin> {QUOTE, CHR ''{'', CHR ''[''}" "dumps v \<noteq> []" by simp_all
qed

lemma parse_value_atom:
  assumes "is_atom v" "json_ok v" "stops rest"
  shows "parse_value (Suc n) (dumps v @ rest) = Inr (v, rest)"
proof -
  obtain c cs where c: "dumps v @ rest = c # cs" "c = hd (dumps v)"
    using atom_start(2) [OF assms(1,2)] by (cases "dumps v") auto
  then show ?thesis
    using atom_start(1) [OF assms(1,2)] parse_atom_dumps [OF assms] by simp
qed

lemma stops_cons: "stops (CHR '','' # s)" "stops (CHR '']'' # s)" "stops (CHR ''}'' # s)" "stops []"
  by (simp_all add: stops_def)

lemma not_ws: "\<not> is_ws CHR '',''" "\<not> is_ws CHR '']''" "\<not> is_ws CHR ''}''" "\<not> is_ws CHR '':''" "is_ws CHR '' ''"
  by (simp_all add: is_ws_def)

lemma skip_ws_simps:
  "skip_ws (CHR '','' # s) = CHR '','' # s" "skip_ws (CHR '']'' # s) = CHR '']'' # s"
  "skip_ws (CHR ''}'' # s) = CHR ''}'' # s" "skip_ws (CHR '':'' # s) = CHR '':'' # s"
  "skip_ws (CHR '' '' # s) = skip_ws s"
  by (simp_all add: not_ws)

lemma skip_gap: "list_all is_ws w \<Longrightarrow> skip_ws (w @ s) = skip_ws s"
  by (induction w) auto

lemma stops_gap: "list_all is_ws w \<Longrightarrow> stops rest \<Longrightarrow> stops (w @ rest)"
  by (cases w) (auto simp: stops_def)

lemma dset_absent: "k \<notin> fst ` set acc \<Longrightarrow> dset k v acc = acc @ [(k, v)]"
  by (induction acc) auto

subsection \<open>Texts of a value, with any white space between their tokens\<close>

inductive spaced :: "pyval \<Rightarrow> string \<Rightarrow> bool"
  and spaced_elems :: "pyval list \<Rightarrow> string \<Rightarrow> bool"
  and spaced_members :: "pydict \<Rightarrow> string \<Rightarrow> bool" where
  atom: "is_atom v \<or> is_str v \<Longrightarrow> spaced v (dumps v)"
| no_elems: "list_all is_ws w \<Longrightarrow> spaced (PList []) (CHR ''['' # w @ '']'')"
| elems: "list_all is_ws w \<Longrightarrow> spaced_elems vs t \<Longrightarrow> spaced (PList vs) (CHR ''['' # w @ t)"
| no_members: "list_all is_ws w \<Longrightarrow> spaced (PDict []) (CHR ''{'' # w @ ''}'')"
| members: "list_all is_ws w \<Longrightarrow> spaced_members d t \<Longrightarrow> spaced (PDict d) (CHR ''{'' # w @ t)"
| last_elem: "spaced v t \<Longrightarrow> list_all is_ws w \<Longrightarrow> spaced_elems [v] (t @ w @ '']'')"
| more_elems: "spaced v t \<Longrightarrow> list_all is_ws w \<Longrightarrow> list_all is_ws u \<Longrightarrow> spaced_elems vs ts \<Longrightarrow>
    spaced_elems (v # vs) (t @ w @ CHR '','' # u @ ts)"
| last_member: "spaced v t \<Longrightarrow> list_all is_ws x \<Longrightarrow> list_all is_ws y \<Longrightarrow> list_all is_ws w \<Longrightarrow>
    spaced_members [(k, v)] (show_str k @ x @ CHR '':'' # y @ t @ w @ ''}'')"
| more_members: "spaced v t \<Longrightarrow> list_all is_ws x \<Longrightarrow> list_all is_ws y \<Longrightarrow> list_all is_ws w \<Longrightarrow> list_all is_ws u \<Longrightarrow>
    spaced_members d ts \<Longrightarrow> spaced_members ((k, v) # d) (show_str k @ x @ CHR '':'' # y @ t @ w @ CHR '','' # u @ ts)"

text \<open>A text of a value begins with a character that begins a value.\<close>

lemma spaced_start:
  "spaced v t \<Longrightarrow> json_ok v \<longrightarrow> t \<noteq> [] \<and> hd t \<in> START"
  "spaced_elems vs t \<Longrightarrow> list_all json_ok vs \<longrightarrow> t \<noteq> [] \<and> hd t \<in> START"
  "spaced_members d t \<Longrightarrow> t \<noteq> [] \<and> hd t = QUOTE"
proof (induction rule: spaced_spaced_elems_spaced_members.inducts)
  case (atom v)
  then show ?case using dumps_start by blast
qed (auto simp: START_def show_str_def)

lemma skip_ws_start: "t \<noteq> [] \<Longrightarrow> hd t \<in> START \<Longrightarrow> skip_ws (t @ s) = t @ s"
  using START_not_ws by (cases t) auto

lemma parse_key_spaced:
  assumes "list_all is_ws x" "list_all is_ws y" "t \<noteq> []" "hd t \<in> START"
  shows "parse_key (show_str k @ x @ CHR '':'' # y @ t @ rest) = Inr (k, t @ rest)"
  using scan_escaped [of k "x @ CHR '':'' # y @ t @ rest"] skip_ws_start [OF assms(3,4)]
  by (simp add: parse_key_def show_str_def skip_gap assms(1,2) not_ws)

text \<open>Every such text reads back, with a unit of fuel for each of its characters.\<close>

definition reads :: "pyval \<Rightarrow> string \<Rightarrow> bool" where
  "reads v t \<longleftrightarrow> (\<forall>n rest. length t \<le> n \<longrightarrow> stops rest \<longrightarrow> parse_value n (t @ rest) = Inr (v, rest))"

lemma readsD: "reads v t \<Longrightarrow> length t \<le> n \<Longrightarrow> stops rest \<Longrightarrow> parse_value n (t @ rest) = Inr (v, rest)"
  by (simp add: reads_def)

lemma reads_atom:
  assumes "is_atom v \<or> is_str v" "json_ok v"
  shows "reads v (dumps v)"
  unfolding reads_def
proof (intro allI impI)
  fix n rest assume n: "length (dumps v) \<le> n" "stops rest"
  show "parse_value n (dumps v @ rest) = Inr (v, rest)"
  proof (cases "is_atom v")
    case True
    then show ?thesis using n atom_start(2) [OF True assms(2)] parse_value_atom [OF True assms(2)] by (cases n) auto
  next
    case False
    then obtain s where "v = PStr s" using assms(1) by (cases v) auto
    then show ?thesis using n(1) scan_escaped [of s rest] by (cases n) (simp_all add: show_str_def)
  qed
qed

lemma reads_bracket:
  assumes "list_all is_ws w" "t \<noteq> []" "hd t \<in> START"
    and "\<And>n rest. length t \<le> n \<Longrightarrow> parse_elems n (t @ rest) [] = Inr (v, rest)"
  shows "reads v (CHR ''['' # w @ t)"
  unfolding reads_def
proof (intro allI impI)
  fix n rest assume "length (CHR ''['' # w @ t) \<le> n"
  then obtain m where m: "n = Suc m" "length t \<le> m" by (cases n) auto
  obtain c cs where "t = c # cs" using assms(2) by (cases t) auto
  moreover have "hd t \<noteq> CHR '']''" using assms(3) by (auto simp: START_def QUOTE_def is_digit_def)
  ultimately show "parse_value n ((CHR ''['' # w @ t) @ rest) = Inr (v, rest)"
    using assms(4) [OF m(2), of rest] skip_ws_start [OF assms(2,3), of rest] by (simp add: m QUOTE_def skip_gap assms(1))
qed

lemma reads_brace:
  assumes "list_all is_ws w" "t \<noteq> []" "hd t = QUOTE"
    and "\<And>n rest. length t \<le> n \<Longrightarrow> parse_members n (t @ rest) [] = Inr (v, rest)"
  shows "reads v (CHR ''{'' # w @ t)"
  unfolding reads_def
proof (intro allI impI)
  fix n rest assume "length (CHR ''{'' # w @ t) \<le> n"
  then obtain m where m: "n = Suc m" "length t \<le> m" by (cases n) auto
  have s: "hd t \<in> START" using assms(3) by (simp add: START_def)
  obtain cs where "t = QUOTE # cs" using assms(2,3) by (cases t) auto
  then show "parse_value n ((CHR ''{'' # w @ t) @ rest) = Inr (v, rest)"
    using assms(4) [OF m(2), of rest] skip_ws_start [OF assms(2) s, of rest] by (simp add: m QUOTE_def skip_gap assms(1))
qed

lemma parse_elems_last:
  assumes "reads v t" "list_all is_ws w" "length (t @ w @ '']'') \<le> n"
  shows "parse_elems n ((t @ w @ '']'') @ rest) acc = Inr (PList (acc @ [v]), rest)"
proof -
  obtain m where m: "n = Suc m" "length t \<le> m" using assms(3) by (cases n) auto
  have "parse_value m (t @ w @ CHR '']'' # rest) = Inr (v, w @ CHR '']'' # rest)"
    using assms m by (intro readsD stops_gap stops_cons) auto
  then show ?thesis by (simp add: m skip_gap assms(2) not_ws)
qed

lemma parse_elems_more:
  assumes "reads v t" "list_all is_ws w" "list_all is_ws u" "ts \<noteq> []" "hd ts \<in> START"
    and "\<And>m. length ts \<le> m \<Longrightarrow> parse_elems m (ts @ rest) (acc @ [v]) = r"
    and "length (t @ w @ CHR '','' # u @ ts) \<le> n"
  shows "parse_elems n ((t @ w @ CHR '','' # u @ ts) @ rest) acc = r"
proof -
  obtain m where m: "n = Suc m" "length t \<le> m" "length ts \<le> m" using assms(7) by (cases n) auto
  have "parse_value m (t @ w @ CHR '','' # u @ ts @ rest) = Inr (v, w @ CHR '','' # u @ ts @ rest)"
    using assms m by (intro readsD stops_gap stops_cons) auto
  moreover have "skip_ws (u @ ts @ rest) = ts @ rest"
    using skip_gap [OF assms(3)] skip_ws_start [OF assms(4,5)] by simp
  ultimately show ?thesis using assms(6) [OF m(3)] by (simp add: m skip_gap assms(2) not_ws)
qed

lemma parse_members_last:
  assumes "reads v t" "list_all is_ws x" "list_all is_ws y" "list_all is_ws w" "t \<noteq> []" "hd t \<in> START"
    and "k \<notin> fst ` set acc" "length (show_str k @ x @ CHR '':'' # y @ t @ w @ ''}'') \<le> n"
  shows "parse_members n ((show_str k @ x @ CHR '':'' # y @ t @ w @ ''}'') @ rest) acc = Inr (PDict (acc @ [(k, v)]), rest)"
proof -
  obtain m where m: "n = Suc m" "length t \<le> m" using assms(8) by (cases n) auto
  have "parse_value m (t @ w @ CHR ''}'' # rest) = Inr (v, w @ CHR ''}'' # rest)"
    using assms m by (intro readsD stops_gap stops_cons) auto
  moreover have "parse_key (show_str k @ x @ CHR '':'' # y @ t @ w @ CHR ''}'' # rest) = Inr (k, t @ w @ CHR ''}'' # rest)"
    by (rule parse_key_spaced [OF assms(2,3,5,6)])
  ultimately show ?thesis by (simp add: m skip_gap assms(4) dset_absent [OF assms(7)] not_ws)
qed

lemma parse_members_more:
  assumes "reads v t" "list_all is_ws x" "list_all is_ws y" "list_all is_ws w" "list_all is_ws u"
    and "t \<noteq> []" "hd t \<in> START" "ts \<noteq> []" "hd ts = QUOTE" "k \<notin> fst ` set acc"
    and "\<And>m. length ts \<le> m \<Longrightarrow> parse_members m (ts @ rest) (acc @ [(k, v)]) = r"
    and "length (show_str k @ x @ CHR '':'' # y @ t @ w @ CHR '','' # u @ ts) \<le> n"
  shows "parse_members n ((show_str k @ x @ CHR '':'' # y @ t @ w @ CHR '','' # u @ ts) @ rest) acc = r"
proof -
  obtain m where m: "n = Suc m" "length t \<le> m" "length ts \<le> m" using assms(12) by (cases n) auto
  have "parse_value m (t @ w @ CHR '','' # u @ ts @ rest) = Inr (v, w @ CHR '','' # u @ ts @ rest)"
    using assms m by (intro readsD stops_gap stops_cons) auto
  moreover have "parse_key (show_str k @ x @ CHR '':'' # y @ t @ w @ CHR '','' # u @ ts @ rest) = Inr (k, t @ w @ CHR '','' # u @ ts @ rest)"
    by (rule parse_key_spaced [OF assms(2,3,6,7)])
  moreover have "skip_ws (u @ ts @ rest) = ts @ rest"
    using skip_gap [OF assms(5)] skip_ws_start [of ts] assms(8,9) by (simp add: START_def)
  ultimately show ?thesis using assms(11) [OF m(3)] by (simp add: m skip_gap assms(4) dset_absent [OF assms(10)] not_ws)
qed

lemma spaced_reads:
  "spaced v t \<Longrightarrow> json_ok v \<longrightarrow> reads v t"
  "spaced_elems vs t \<Longrightarrow> list_all json_ok vs \<longrightarrow>
     (\<forall>n rest acc. length t \<le> n \<longrightarrow> parse_elems n (t @ rest) acc = Inr (PList (acc @ vs), rest))"
  "spaced_members d t \<Longrightarrow> list_all (\<lambda>p. json_ok (snd p)) d \<longrightarrow>
     (\<forall>n rest acc. length t \<le> n \<longrightarrow> distinct (map fst (acc @ d)) \<longrightarrow>
        parse_members n (t @ rest) acc = Inr (PDict (acc @ d), rest))"
proof (induction rule: spaced_spaced_elems_spaced_members.inducts)
  case (atom v)
  then show ?case using reads_atom by blast
next
  case (no_elems w)
  have "parse_value n ((CHR ''['' # w @ '']'') @ rest) = Inr (PList [], rest)" if "0 < n" for n rest
    using that no_elems by (cases n) (simp_all add: QUOTE_def skip_gap not_ws)
  then show ?case by (simp add: reads_def)
next
  case (elems w vs t)
  then show ?case using spaced_start(2) [OF elems.hyps(2)] by (auto intro!: reads_bracket simp: list_all_iff)
next
  case (no_members w)
  have "parse_value n ((CHR ''{'' # w @ ''}'') @ rest) = Inr (PDict [], rest)" if "0 < n" for n rest
    using that no_members by (cases n) (simp_all add: QUOTE_def skip_gap not_ws)
  then show ?case by (simp add: reads_def)
next
  case (members w d t)
  then show ?case using spaced_start(3) [OF members.hyps(2)] by (auto intro!: reads_brace)
next
  case (last_elem v t w)
  then show ?case using parse_elems_last [of v t w] by simp
next
  case (more_elems v t w u vs ts)
  then show ?case
    using spaced_start(2) [OF more_elems.hyps(4)] by (intro impI allI parse_elems_more) auto
next
  case (last_member v t x y w k)
  then show ?case
    using spaced_start(1) [OF last_member.hyps(1)] by (intro impI allI parse_members_last) auto
next
  case (more_members v t x y w u d ts k)
  then show ?case
    using spaced_start(1) [OF more_members.hyps(1)] spaced_start(3) [OF more_members.hyps(6)]
    by (intro impI allI parse_members_more) auto
qed

text \<open>The printers' texts are such texts.\<close>

lemma spaced_join_elems:
  assumes "\<And>v. v \<in> set vs \<Longrightarrow> spaced v (p v)" "vs \<noteq> []" "list_all is_ws u" "list_all is_ws w"
  shows "spaced_elems vs (join (CHR '','' # u) (map p vs) @ w @ '']'')"
  using assms(1,2)
proof (induction vs)
  case (Cons v vs)
  have v: "spaced v (p v)" using Cons.prems by simp
  show ?case
  proof (cases vs)
    case Nil
    then show ?thesis using last_elem [OF v assms(4)] by simp
  next
    case (Cons x xs)
    then have "spaced_elems vs (join (CHR '','' # u) (map p vs) @ w @ '']'')" using Cons.IH Cons.prems by simp
    from more_elems [OF v _ assms(3) this, of "[]"] show ?thesis using Cons by simp
  qed
qed simp

lemma spaced_join_members:
  assumes "\<And>k v. (k, v) \<in> set d \<Longrightarrow> spaced v (p v)" "d \<noteq> []" "list_all is_ws u" "list_all is_ws w"
  shows "spaced_members d (join (CHR '','' # u) (map (\<lambda>(k, v). show_str k @ '': '' @ p v) d) @ w @ ''}'')"
  using assms(1,2)
proof (induction d)
  case (Cons kv d)
  obtain k v where kv: "kv = (k, v)" by fastforce
  have v: "spaced v (p v)" by (rule Cons.prems(1) [of k]) (simp add: kv)
  have s: "list_all is_ws '' ''" by (simp add: is_ws_def)
  show ?case
  proof (cases d)
    case Nil
    then show ?thesis using last_member [OF v _ s assms(4), of "[]" k] by (simp add: kv)
  next
    case (Cons x xs)
    have "spaced_members d (join (CHR '','' # u) (map (\<lambda>(k, v). show_str k @ '': '' @ p v) d) @ w @ ''}'')"
      by (rule Cons.IH) (use Cons.prems Cons in auto)
    from more_members [OF v _ s _ assms(3) this, of "[]" "[]" k] show ?thesis using Cons by (cases x) (simp add: kv)
  qed
qed simp

definition member :: "string \<times> pyval \<Rightarrow> string" where
  "member p = (case p of (k, v) \<Rightarrow> show_str k @ '': '' @ dumps v)"

lemma dumps_dict: "dumps (PDict d) = ''{'' @ join '', '' (map member d) @ ''}''"
  by (simp add: member_def [abs_def])

lemma spaced_dumps: "spaced v (dumps v)"
proof (induction v)
  case (PList vs)
  show ?case
  proof (cases "vs = []")
    case True
    then show ?thesis using no_elems [of "[]"] by simp
  next
    case False
    have "spaced_elems vs (join (CHR '','' # '' '') (map dumps vs) @ [] @ '']'')"
      by (rule spaced_join_elems) (use PList False in \<open>auto simp: is_ws_def\<close>)
    from elems [OF _ this, of "[]"] show ?thesis by simp
  qed
next
  case (PDict d)
  show ?case
  proof (cases "d = []")
    case True
    then show ?thesis using no_members [of "[]"] by simp
  next
    case False
    have "spaced_members d (join (CHR '','' # '' '') (map (\<lambda>(k, v). show_str k @ '': '' @ dumps v) d) @ [] @ ''}'')"
      by (rule spaced_join_members) (use PDict False in \<open>auto simp: is_ws_def\<close>)
    from members [OF _ this, of "[]"] show ?thesis by simp
  qed
qed (auto intro!: atom simp del: dumps.simps)

lemma gap_line_break: "list_all is_ws (line_break k)"
  by (simp add: line_break_def is_ws_def list_all_iff)

lemma spaced_dumps_indent: "spaced v (dumps_indent k v)"
proof (induction v arbitrary: k)
  case (PList vs)
  show ?case
  proof (cases "vs = []")
    case True
    then show ?thesis using no_elems [of "[]"] by simp
  next
    case False
    have "spaced_elems vs (join (CHR '','' # line_break (k + 1)) (map (dumps_indent (k + 1)) vs) @ line_break k @ '']'')"
      by (rule spaced_join_elems) (use PList False gap_line_break in auto)
    from elems [OF gap_line_break this, of "k + 1"] show ?thesis using False by (simp add: block_def)
  qed
next
  case (PDict d)
  show ?case
  proof (cases "d = []")
    case True
    then show ?thesis using no_members [of "[]"] by simp
  next
    case False
    have "spaced_members d (join (CHR '','' # line_break (k + 1)) (map (\<lambda>(j, v). show_str j @ '': '' @ dumps_indent (k + 1) v) d)
        @ line_break k @ ''}'')"
      by (rule spaced_join_members) (use PDict False gap_line_break in auto)
    from members [OF gap_line_break this, of "k + 1"] show ?thesis using False by (simp add: block_def)
  qed
qed (auto intro!: atom simp del: dumps.simps)

lemma loads_spaced:
  assumes s: "spaced v t" and v: "json_ok v" and u: "list_all is_ws u"
  shows "loads (t @ u) = Inr v"
proof -
  have st: "t \<noteq> []" "hd t \<in> START" using spaced_start(1) [OF s] v by simp_all
  have "reads v t" using spaced_reads(1) [OF s] v by blast
  then have p: "parse_value (2 * length (t @ u) + 2) (t @ u) = Inr (v, u)"
    using stops_gap [OF u, of "[]"] by (intro readsD) (simp_all add: stops_def)
  have "byte x < 128" if "x \<in> START" for x using that by (auto simp: START_def QUOTE_def is_digit_def)
  then have "hd BOM \<notin> START" using byte_char_of [of 239] by (fastforce simp: BOM_def)
  then have b: "take 3 (t @ u) \<noteq> BOM" using st by (cases t) (auto simp: BOM_def)
  show ?thesis using p b skip_ws_start [OF st, of u] skip_gap [OF u, of "[]"] by (simp add: loads_def del: parse_value.simps)
qed

lemma loads_dumps: "json_ok v \<Longrightarrow> loads (dumps v) = Inr v"
  using loads_spaced [OF spaced_dumps, of v "[]"] by simp

lemma loads_dumps_indent: "json_ok v \<Longrightarrow> loads (dumps_indent k v @ [CHR 0x0A]) = Inr v"
  by (rule loads_spaced [OF spaced_dumps_indent]) (simp_all add: is_ws_def)

section \<open>The fuel of the parser is enough\<close>

lemma scan_str_length: "scan_str cs = Some (s, r) \<Longrightarrow> length r < length cs"
proof (induction cs arbitrary: s r rule: scan_str.induct)
  case (2 c cs)
  note E = 2(4) [unfolded scan_str.simps(2)]
  consider "c = QUOTE" | "c \<noteq> QUOTE" "byte c < 32" | (esc) "c \<noteq> QUOTE" "\<not> byte c < 32" "c = BACKSLASH"
    | (plain) "c \<noteq> QUOTE" "\<not> byte c < 32" "c \<noteq> BACKSLASH" by blast
  then show ?case
  proof cases
    case esc
    then obtain e t where cs: "cs = e # t" using E by (cases cs) auto
    show ?thesis
    proof (cases "e = CHR ''u''")
      case True
      then obtain u t' s' where u: "read_unicode t = Some (u, t')" "scan_str t' = Some (s', r)"
        using E esc cs by (auto split: option.splits)
      then have "length r < length t'" using 2(1) esc cs True by blast
      then show ?thesis using read_unicode_length [OF u(1)] cs by simp
    next
      case False
      then obtain s' where "scan_str t = Some (s', r)"
        using E esc cs by (auto split: option.splits)
      moreover obtain ch where "simple_escape e = Some ch" using E esc cs False by (cases "simple_escape e") auto
      ultimately have "length r < length t" using 2(2) esc cs False by blast
      then show ?thesis using cs by simp
    qed
  next
    case plain
    then obtain s' where "scan_str cs = Some (s', r)" using E by auto
    then have "length r < length cs" using 2(3) plain by blast
    then show ?thesis by simp
  qed (use E in auto)
qed (simp add: scan_str.simps)

lemma split_lengths:
  "length (snd (split_int cs)) \<le> length cs" "length (snd (split_frac cs)) \<le> length cs"
  "length (snd (split_exp cs)) \<le> length cs"
proof -
  have d: "length (dropWhile p xs) \<le> Suc (length xs)" for p and xs :: string
    using length_dropWhile_le [of p xs] by linarith
  show "length (snd (split_int cs)) \<le> length cs" "length (snd (split_frac cs)) \<le> length cs"
    by (cases cs; simp add: d)+
  have "length (snd (split_sign xs)) \<le> length xs" for xs by (cases xs) simp_all
  then have "length (dropWhile p (snd (split_sign xs))) \<le> Suc (length xs)" for p xs
    using length_dropWhile_le [of p "snd (split_sign xs)"] le_trans [of _ "length (snd (split_sign xs))" "length xs"]
    by (metis le_SucI le_trans)
  then show "length (snd (split_exp cs)) \<le> length cs"
    by (cases cs) (simp_all add: split_beta Let_def)
qed

lemma parse_number_length: "parse_number cs = Some (Inr (v, r)) \<Longrightarrow> length r \<le> length cs"
proof -
  assume a: "parse_number cs = Some (Inr (v, r))"
  let ?c = "snd (case cs of c # r \<Rightarrow> if c = CHR ''-'' then (True, r) else (False, cs) | [] \<Rightarrow> (False, cs))"
  have "r = snd (split_exp (snd (split_frac (snd (split_int ?c)))))"
    using a by (auto simp: parse_number_def Let_def split_beta split: if_splits)
  moreover have "length ?c \<le> length cs" by (cases cs) simp_all
  ultimately show ?thesis
    using split_lengths(1) [of ?c] split_lengths(2) [of "snd (split_int ?c)"]
      split_lengths(3) [of "snd (split_frac (snd (split_int ?c)))"] by (simp only:)
qed

lemma parse_atom_length: "parse_atom cs = Inr (v, r) \<Longrightarrow> length r \<le> length cs"
  by (auto simp: parse_atom_def literal_def split: option.splits if_splits dest: parse_number_length)

lemma parse_atom_error: "parse_atom cs \<noteq> Inl RuntimeError"
  by (auto simp: parse_atom_def parse_number_def Let_def split_beta split: option.splits if_splits)

lemma parse_key_length: "parse_key cs = Inr (k, r) \<Longrightarrow> length r < length cs"
proof -
  assume a: "parse_key cs = Inr (k, r)"
  then obtain c x y z d where x: "cs = c # x" "scan_str x = Some (k, y)" "skip_ws y = d # z" "r = skip_ws z"
    by (auto simp: parse_key_def split: list.splits if_splits option.splits)
  then show ?thesis
    using scan_str_length [OF x(2)] length_dropWhile_le [of is_ws y] length_dropWhile_le [of is_ws z] by simp
qed

lemma parse_key_error: "parse_key cs \<noteq> Inl RuntimeError"
  by (auto simp: parse_key_def split: list.splits option.splits)


lemma skip_ws_le: "skip_ws r = d # r' \<Longrightarrow> length r' < length r"
  using length_dropWhile_le [of is_ws r] by simp

lemma value_cases:
  assumes "parse_value (Suc n) cs = e"
  obtains (none) c r d r' where "cs = c # r" "skip_ws r = d # r'" "c = CHR ''{''" "parse_members n (d # r') [] = e"
  | (elems) c r d r' where "cs = c # r" "skip_ws r = d # r'" "c = CHR ''[''" "parse_elems n (d # r') [] = e"
  | (error) "e = Inl JSONDecodeError"
  | (fin) v r where "e = Inr (v, r)" "length r \<le> length cs"
  | (atom) "e = parse_atom cs"
proof (cases cs)
  case Nil
  then show ?thesis using assms error by simp
next
  case (Cons c r)
  note E = assms [unfolded Cons parse_value.simps list.case]
  consider (q) "c = QUOTE" | (ob) "c \<noteq> QUOTE" "c = CHR ''{''" | (li) "c \<noteq> QUOTE" "c \<noteq> CHR ''{''" "c = CHR ''[''"
    | (at) "c \<noteq> QUOTE" "c \<noteq> CHR ''{''" "c \<noteq> CHR ''[''" by blast
  then show ?thesis
  proof cases
    case q
    show ?thesis
    proof (cases "scan_str r")
      case None
      then show ?thesis using E q error by simp
    next
      case (Some p)
      then show ?thesis using E q fin [of "PStr (fst p)" "snd p"] scan_str_length [of r "fst p" "snd p"] Cons
        by (simp add: split_beta)
    qed
  next
    case ob
    show ?thesis
    proof (cases "skip_ws r")
      case Nil
      then show ?thesis using E ob error by (simp del: dropWhile_eq_Nil_conv)
    next
      case c: (Cons d r')
      show ?thesis
      proof (cases "d = CHR ''}''")
        case True
        then show ?thesis using E ob c fin [of "PDict []" r'] skip_ws_le [OF c] Cons by simp
      next
        case False
        then show ?thesis using none [OF Cons c] E ob c by simp
      qed
    qed
  next
    case li
    show ?thesis
    proof (cases "skip_ws r")
      case Nil
      then show ?thesis using E li error by (simp del: dropWhile_eq_Nil_conv)
    next
      case c: (Cons d r')
      show ?thesis
      proof (cases "d = CHR '']''")
        case True
        then show ?thesis using E li c fin [of "PList []" r'] skip_ws_le [OF c] Cons by simp
      next
        case False
        then show ?thesis using elems [OF Cons c] E li c by simp
      qed
    qed
  next
    case at
    then show ?thesis using E atom Cons by simp
  qed
qed

lemma elems_cases:
  assumes "parse_elems (Suc n) cs acc = e"
  obtains (error) x where "parse_value n cs = Inl x" "e = Inl x"
  | (fin) v w r r' d where "parse_value n cs = Inr (v, r)" "skip_ws r = d # r'" "e = Inr (w, r')"
  | (more) v r d r' where "parse_value n cs = Inr (v, r)" "skip_ws r = d # r'"
      "parse_elems n (skip_ws r') (acc @ [v]) = e"
  | (bad) "e = Inl JSONDecodeError"
proof (cases "parse_value n cs")
  case (Inl x)
  then show ?thesis using assms [symmetric] error [OF Inl] by simp
next
  case (Inr p)
  then show ?thesis using assms fin [of "fst p" "snd p"] more [of "fst p" "snd p"] bad
    by (auto simp: split_beta split: list.splits if_splits)
qed

lemma members_cases:
  assumes "parse_members (Suc n) cs acc = e"
  obtains (error) k r0 x where "parse_key cs = Inr (k, r0)" "parse_value n r0 = Inl x" "e = Inl x"
  | (fin) k r0 v w r r' d where "parse_key cs = Inr (k, r0)" "parse_value n r0 = Inr (v, r)" "skip_ws r = d # r'" "e = Inr (w, r')"
  | (more) k r0 v r d r' where "parse_key cs = Inr (k, r0)" "parse_value n r0 = Inr (v, r)" "skip_ws r = d # r'"
      "parse_members n (skip_ws r') (dset k v acc) = e"
  | (bad) x where "parse_key cs = Inl x" "e = Inl x"
  | (syn) "e = Inl JSONDecodeError"
proof (cases "parse_key cs")
  case (Inl x)
  then show ?thesis using assms bad by simp
next
  case (Inr kr)
  show ?thesis
  proof (cases "parse_value n (snd kr)")
    case (Inl x)
    then show ?thesis using assms [symmetric] Inr error [of "fst kr" "snd kr" x] by (simp add: split_beta)
  next
    case i: (Inr p)
    then show ?thesis
      using assms Inr fin [of "fst kr" "snd kr" "fst p" "snd p"] more [of "fst kr" "snd kr" "fst p" "snd p"] syn
      by (auto simp: split_beta split: list.splits if_splits)
  qed
qed


definition consumes :: "nat \<Rightarrow> bool" where
  "consumes n \<longleftrightarrow>
     (\<forall>cs v r. parse_value n cs = Inr (v, r) \<longrightarrow> length r \<le> length cs)
     \<and> (\<forall>cs acc v r. parse_elems n cs acc = Inr (v, r) \<longrightarrow> length r \<le> length cs)
     \<and> (\<forall>cs acc v r. parse_members n cs acc = Inr (v, r) \<longrightarrow> length r \<le> length cs)"

lemma consumesD:
  assumes "consumes n"
  shows "parse_value n cs = Inr (v, r) \<Longrightarrow> length r \<le> length cs"
    and "parse_elems n cs acc = Inr (v, r) \<Longrightarrow> length r \<le> length cs"
    and "parse_members n cs dacc = Inr (v, r) \<Longrightarrow> length r \<le> length cs"
  using assms unfolding consumes_def by blast+

lemma parse_consumes: "consumes n"
proof (induction n)
  case 0
  show ?case by (simp add: consumes_def)
next
  case (Suc n)
  note D = consumesD [OF Suc]
  have "length r \<le> length cs" if "parse_value (Suc n) cs = Inr (v, r)" for cs v r
    using that
  proof (cases rule: value_cases)
    case (none c t d r')
    then show ?thesis using D(3) [of "d # r'" "[]" v r] skip_ws_le [of t d r'] by simp
  next
    case (elems c t d r')
    then show ?thesis using D(2) [of "d # r'" "[]" v r] skip_ws_le [of t d r'] by simp
  next
    case atom
    then show ?thesis using parse_atom_length [of cs v r] by simp
  qed simp_all
  moreover have "length r \<le> length cs" if "parse_elems (Suc n) cs acc = Inr (v, r)" for cs acc v r
    using that
  proof (cases rule: elems_cases)
    case (fin v' w r' r'' d)
    then show ?thesis using D(1) [of cs v' r'] skip_ws_le [of r' d r''] by simp
  next
    case (more v' r' d r'')
    then show ?thesis using D(1) [of cs v' r'] skip_ws_le [of r' d r''] D(2) [OF more(3)]
      length_dropWhile_le [of is_ws r''] by simp
  qed auto
  moreover have "length r \<le> length cs" if "parse_members (Suc n) cs acc = Inr (v, r)" for cs acc v r
    using that
  proof (cases rule: members_cases)
    case (fin k r0 v' w r' r'' d)
    then show ?thesis using parse_key_length [of cs k r0] D(1) [of r0 v' r'] skip_ws_le [of r' d r''] by simp
  next
    case (more k r0 v' r' d r'')
    then show ?thesis using parse_key_length [of cs k r0] D(1) [of r0 v' r'] skip_ws_le [of r' d r'']
      D(3) [OF more(4)] length_dropWhile_le [of is_ws r''] by simp
  qed auto
  ultimately show ?case unfolding consumes_def by blast
qed

definition fuelled :: "nat \<Rightarrow> bool" where
  "fuelled n \<longleftrightarrow>
     (\<forall>cs. 2 * length cs + 1 \<le> n \<longrightarrow> parse_value n cs \<noteq> Inl RuntimeError)
     \<and> (\<forall>cs acc. 2 * length cs + 2 \<le> n \<longrightarrow> parse_elems n cs acc \<noteq> Inl RuntimeError)
     \<and> (\<forall>cs acc. 2 * length cs + 2 \<le> n \<longrightarrow> parse_members n cs acc \<noteq> Inl RuntimeError)"

lemma fuelledD:
  assumes "fuelled n"
  shows "2 * length cs + 1 \<le> n \<Longrightarrow> parse_value n cs \<noteq> Inl RuntimeError"
    and "2 * length cs + 2 \<le> n \<Longrightarrow> parse_elems n cs acc \<noteq> Inl RuntimeError"
    and "2 * length cs + 2 \<le> n \<Longrightarrow> parse_members n cs dacc \<noteq> Inl RuntimeError"
  using assms unfolding fuelled_def by blast+

lemma parse_fuelled: "fuelled n"
proof (induction n)
  case 0
  show ?case by (simp add: fuelled_def)
next
  case (Suc n)
  note F = fuelledD [OF Suc] and D = consumesD [OF parse_consumes [of n]]
  have "parse_value (Suc n) cs \<noteq> Inl RuntimeError" if l: "2 * length cs + 1 \<le> Suc n" for cs
  proof
    assume "parse_value (Suc n) cs = Inl RuntimeError"
    then show False
    proof (cases rule: value_cases)
      case (none c t d r')
      then show ?thesis using l F(3) [of "d # r'" "[]"] skip_ws_le [of t d r'] by simp
    next
      case (elems c t d r')
      then show ?thesis using l F(2) [of "d # r'" "[]"] skip_ws_le [of t d r'] by simp
    qed (use parse_atom_error in auto)
  qed
  moreover have "parse_elems (Suc n) cs acc \<noteq> Inl RuntimeError" if l: "2 * length cs + 2 \<le> Suc n" for cs acc
  proof
    assume "parse_elems (Suc n) cs acc = Inl RuntimeError"
    then show False
    proof (cases rule: elems_cases)
      case (error x)
      then show ?thesis using l F(1) [of cs] by simp
    next
      case (more v' r' d r'')
      have "2 * length (skip_ws r'') + 2 \<le> n"
        using l more D(1) [of cs v' r'] skip_ws_le [of r' d r''] length_dropWhile_le [of is_ws r''] by simp
      then show ?thesis using F(2) more(3) by blast
    qed auto
  qed
  moreover have "parse_members (Suc n) cs acc \<noteq> Inl RuntimeError" if l: "2 * length cs + 2 \<le> Suc n" for cs acc
  proof
    assume "parse_members (Suc n) cs acc = Inl RuntimeError"
    then show False
    proof (cases rule: members_cases)
      case (error k r0 x)
      then show ?thesis using l F(1) [of r0] parse_key_length [of cs k r0] by simp
    next
      case (more k r0 v' r' d r'')
      have "2 * length (skip_ws r'') + 2 \<le> n"
        using l more parse_key_length [of cs k r0] D(1) [of r0 v' r'] skip_ws_le [of r' d r'']
          length_dropWhile_le [of is_ws r''] by simp
      then show ?thesis using F(3) more(4) by blast
    qed (use parse_key_error in auto)
  qed
  ultimately show ?case unfolding fuelled_def by blast
qed

lemma loads_not_out_of_fuel: "loads s \<noteq> Inl RuntimeError"
proof -
  have "2 * length (skip_ws s) + 1 \<le> 2 * length s + 2" using length_dropWhile_le [of is_ws s] by simp
  from fuelledD(1) [OF parse_fuelled this]
  have "parse_value (2 * length s + 2) (skip_ws s) \<noteq> Inl RuntimeError" .
  then show ?thesis by (auto simp: loads_def res_simps simp del: parse_value.simps split: if_splits)
qed

section \<open>Lines\<close>

text \<open>
  What Python values are: every float a double, every dictionary with distinct keys. Printing
  a value that has a text gives one that reads back.
\<close>

fun py_ok :: "pyval \<Rightarrow> bool" where
  "py_ok (PFloat f) = float_ok f"
| "py_ok (PList vs) = list_all py_ok vs"
| "py_ok (PDict d) = (distinct (map fst d) \<and> list_all (\<lambda>p. py_ok (snd p)) d)"
| "py_ok _ = True"

lemma json_ok_iff: "json_ok v \<longleftrightarrow> py_ok v \<and> ints_fit v"
proof (induction v)
  case (PDict d)
  then have "\<And>p. p \<in> set d \<Longrightarrow> json_ok (snd p) \<longleftrightarrow> py_ok (snd p) \<and> ints_fit (snd p)"
    by (metis prod.collapse snds.intros snd_conv)
  then show ?case by (auto simp: list_all_iff)
qed (auto simp: list_all_iff)

lemma loads_json_dumps: "py_ok v \<Longrightarrow> json_dumps nan v = Inr s \<Longrightarrow> loads s = Inr v"
  by (auto simp: json_dumps_def json_ok_iff intro!: loads_dumps split: if_splits)

text \<open>
  No control character is printed, so one value is one line; what is not ASCII comes from the
  value's own strings.
\<close>

definition printable :: "char set \<Rightarrow> string \<Rightarrow> bool" where
  "printable A s \<longleftrightarrow> (\<forall>c \<in> set s. 32 \<le> byte c \<and> (byte c < 128 \<or> c \<in> A))"

fun letters :: "pyval \<Rightarrow> char set" where
  "letters (PStr s) = set s"
| "letters (PList vs) = (\<Union>v \<in> set vs. letters v)"
| "letters (PDict d) = (\<Union>p \<in> set d. set (fst p) \<union> letters (snd p))"
| "letters _ = {}"

lemma printable_simps [simp]:
  "printable A []" "printable A (c # s) \<longleftrightarrow> (32 \<le> byte c \<and> (byte c < 128 \<or> c \<in> A)) \<and> printable A s"
  "printable A (s @ t) \<longleftrightarrow> printable A s \<and> printable A t"
  by (auto simp: printable_def)

lemma printable_sub: "printable A s \<Longrightarrow> printable A (take n s)" "printable A s \<Longrightarrow> printable A (drop n s)"
  by (auto simp: printable_def dest: in_set_takeD in_set_dropD)

lemma printable_mono: "printable A s \<Longrightarrow> A \<subseteq> B \<Longrightarrow> printable B s"
  by (auto simp: printable_def)

lemma printable_join: "printable A sep \<Longrightarrow> (\<And>x. x \<in> set xs \<Longrightarrow> printable A x) \<Longrightarrow> printable A (join sep xs)"
  by (induction sep xs rule: join.induct) auto

lemma printable_digit: "n < 10 \<Longrightarrow> 32 \<le> byte (digit n) \<and> byte (digit n) < 128"
  by (simp add: digit_def byte_char_of)

lemma printable_nat: "printable A (show_nat n)"
proof (induction n rule: show_nat.induct)
  case (1 n)
  then show ?case by (subst show_nat.simps) (auto simp: printable_digit)
qed

lemma printable_zeros: "printable A (zeros n)"
  by (simp add: printable_def zeros_def)

lemma printable_pos: "printable A (show_pos q)"
  using printable_nat [of A] printable_zeros [of A]
  by (auto simp: show_pos_def layout_def show_exp_def Let_def split_beta printable_sub)

lemma printable_escape: "c \<in> A \<Longrightarrow> printable A (escape c)"
proof -
  have h: "32 \<le> byte (hex_digit n) \<and> byte (hex_digit n) < 128" if "n < 16" for n
    using that printable_digit [of n] by (cases "n < 10") (simp_all add: hex_digit_def byte_char_of)
  show "c \<in> A \<Longrightarrow> ?thesis"
    using h [of "byte c div 16"] h [of "byte c mod 16"] by (auto simp: escape_def QUOTE_def BACKSLASH_def)
qed

lemma printable_str: "set s \<subseteq> A \<Longrightarrow> printable A (show_str s)"
proof -
  assume "set s \<subseteq> A"
  then have "printable A (concat (map escape s))" by (induction s) (simp_all add: printable_escape)
  then show ?thesis by (simp add: show_str_def QUOTE_def)
qed

lemma printable_dumps: "printable (letters v) (dumps v)"
proof (induction v)
  case (PFloat f)
  then show ?case by (cases f) (simp_all add: printable_pos)
next
  case (PList vs)
  have "printable (letters (PList vs)) (dumps v)" if "v \<in> set vs" for v
    by (rule printable_mono [OF PList.IH [OF that]]) (use that in auto)
  then show ?case by (auto intro!: printable_join)
next
  case (PDict d)
  let ?A = "letters (PDict d)"
  have "printable ?A (member p)" if p: "p \<in> set d" for p
  proof -
    have "printable (letters (snd p)) (dumps (snd p))" using PDict.IH [OF p, of "snd p"] by (cases p) simp
    then have "printable ?A (dumps (snd p))" by (rule printable_mono) (use p in auto)
    moreover have "printable ?A (show_str (fst p))" by (rule printable_str) (use p in auto)
    ultimately show ?thesis by (cases p) (simp add: member_def)
  qed
  then show ?case by (auto simp: dumps_dict simp del: dumps.simps letters.simps intro!: printable_join)
qed (auto simp: show_int_def printable_nat printable_str)

lemma dumps_ascii:
  "list_all (\<lambda>c. byte c < 128) (dumps v)" if "\<forall>c \<in> letters v. byte c < 128"
  using printable_dumps [of v] that by (auto simp: printable_def list_all_iff)

lemma dumps_no_newline: "NEWLINE \<notin> set (dumps v)"
  using printable_dumps [of v] by (auto simp: printable_def NEWLINE_def)

lemma utf8_enc_high:
  assumes "128 \<le> n" "n < 65536" "c \<in> set (utf8_enc n)"
  shows "128 \<le> byte c"
proof -
  have h: "128 \<le> byte (char_of (k + m))" if "128 \<le> k" "k + m < 256" for k m :: nat
    using that by (simp add: byte_char_of)
  consider "n < 2048" "c = char_of (192 + n div 64) \<or> c = char_of (128 + n mod 64)"
    | "2048 \<le> n" "c = char_of (224 + n div 4096) \<or> c = char_of (128 + n div 64 mod 64) \<or> c = char_of (128 + n mod 64)"
    using assms by (auto simp: utf8_enc_def split: if_splits)
  then show ?thesis
  proof cases
    case 1
    then show ?thesis using h [of 192 "n div 64"] h [of 128 "n mod 64"] by auto
  next
    case 2
    then show ?thesis
      using assms(2) h [of 224 "n div 4096"] h [of 128 "n div 64 mod 64"] h [of 128 "n mod 64"] by auto
  qed
qed

lemma space_cases:
  assumes "w \<in> set unicode_spaces"
  shows "w \<noteq> [] \<and> hd w \<noteq> CHR ''{'' \<and> last w \<noteq> CHR ''}'' \<and> (last w = NEWLINE \<longrightarrow> w = [NEWLINE])"
proof -
  obtain n where n: "w = utf8_enc n" "n < 65536" "n < 128 \<longrightarrow> n \<le> 32"
    using assms by (auto simp: unicode_spaces_def)
  show ?thesis
  proof (cases "n < 128")
    case True
    have "char_of n \<noteq> CHR ''{''" "char_of n \<noteq> CHR ''}''" using n True byte_char_of [of n] by force+
    then show ?thesis using n True by (simp add: utf8_enc_def)
  next
    case False
    have "w \<noteq> []" by (simp add: n utf8_enc_def)
    moreover have "128 \<le> byte c" if "c \<in> set w" for c using that n False utf8_enc_high [of n c] by simp
    ultimately have "128 \<le> byte (hd w)" "128 \<le> byte (last w)" "w \<noteq> []" by simp_all
    then show ?thesis by (auto simp: NEWLINE_def)
  qed
qed

lemma newline_space: "[NEWLINE] \<in> set unicode_spaces"
proof -
  have "NEWLINE = char_of (10 :: nat)" by code_simp
  then show ?thesis by (simp add: unicode_spaces_def utf8_enc_def)
qed

lemma strip_by_none:
  assumes "\<And>w. w \<in> set ws \<Longrightarrow> w \<noteq> [] \<and> hd w \<noteq> c"
  shows "strip_by n ws (c # s) = c # s"
proof -
  have "find (\<lambda>w. take (length w) (c # s) = w) ws = None"
    unfolding find_None_iff
  proof
    assume "\<exists>w. w \<in> set ws \<and> take (length w) (c # s) = w"
    then obtain w where w: "w \<in> set ws" "take (length w) (c # s) = w" by blast
    have "w \<noteq> []" "hd w \<noteq> c" using assms [OF w(1)] by auto
    moreover have "hd (take (length w) (c # s)) = c" using \<open>w \<noteq> []\<close> by (simp add: take_Cons')
    ultimately show False using w(2) by simp
  qed
  then show ?thesis by (cases n) simp_all
qed

lemma py_strip_line: "py_strip (CHR ''{'' # s @ [CHR ''}'', NEWLINE]) = CHR ''{'' # s @ [CHR ''}'']"
proof -
  let ?t = "CHR ''{'' # s @ [CHR ''}'', NEWLINE]" and ?ws = "map rev unicode_spaces"
  have l: "strip_by (length ?t) unicode_spaces ?t = ?t"
    using space_cases by (intro strip_by_none) blast
  have "find (\<lambda>w. take (length w) (rev ?t) = w) ?ws = Some [NEWLINE]"
  proof (cases "find (\<lambda>w. take (length w) (rev ?t) = w) ?ws")
    case None
    then show ?thesis using newline_space by (auto simp: find_None_iff)
  next
    case (Some w)
    then obtain u where u: "u \<in> set unicode_spaces" "w = rev u" "take (length w) (rev ?t) = w"
      by (auto simp: find_Some_iff) (metis nth_mem)
    then have n: "u \<noteq> []" and "last u = NEWLINE \<longrightarrow> u = [NEWLINE]" using space_cases by auto
    moreover have "last u = NEWLINE" using u n by (cases u rule: rev_cases) auto
    ultimately show ?thesis using Some u by simp
  qed
  then have "strip_by (Suc (Suc (length s + 1))) ?ws (rev ?t) = strip_by (Suc (length s + 1)) ?ws (CHR ''}'' # rev s @ ''{'')"
    by simp
  also have "\<dots> = CHR ''}'' # rev s @ ''{''"
    using space_cases by (intro strip_by_none) (auto simp: hd_rev)
  finally show ?thesis unfolding py_strip_def l by (simp add: Let_def del: strip_by.simps)
qed

lemma decode_encode:
  assumes "wf_message m" "py_ok (PDict (data m))" "encode_message m = Inr line"
  shows "decode_message line = Inr (Some (msg_dict m))"
proof -
  let ?v = "PDict (msg_dict m)"
  have js: "json_dumps True ?v = Inr (dumps ?v)" and line: "line = dumps ?v @ [NEWLINE]" "valid_utf8 line"
    using assms(3) by (auto simp: encode_message_def res_simps json_dumps_def simp del: dumps.simps split: if_splits)
  have "py_ok ?v" using assms(2) by (simp add: msg_dict_def)
  then have l: "loads (dumps ?v) = Inr ?v" using js by (rule loads_json_dumps)
  obtain s where "dumps ?v = CHR ''{'' # s @ ''}''" by simp
  then have "py_strip line = dumps ?v" using py_strip_line [of s] line(1) by (simp del: dumps.simps)
  then show ?thesis
    using l line(2) assms(1) validate_message_carries [OF carries_msg_dict [of m]]
    by (simp add: decode_message_def del: dumps.simps)
qed

lemma encode_one_line:
  "encode_message m = Inr line \<Longrightarrow> \<exists>t. line = t @ [NEWLINE] \<and> NEWLINE \<notin> set t"
  using dumps_no_newline by (auto simp: encode_message_def res_simps json_dumps_def simp del: dumps.simps split: if_splits)

section \<open>Texts that can be encoded\<close>

text \<open>Printing a value whose strings are valid UTF-8 gives valid UTF-8.\<close>

fun texts_ok :: "pyval \<Rightarrow> bool" where
  "texts_ok (PStr s) = valid_utf8 s"
| "texts_ok (PList vs) = list_all texts_ok vs"
| "texts_ok (PDict d) = list_all (\<lambda>p. valid_utf8 (fst p) \<and> texts_ok (snd p)) d"
| "texts_ok _ = True"

lemma escape_ascii: "byte c < 128 \<Longrightarrow> list_all (\<lambda>c. byte c < 128) (escape c)"
  using printable_escape [of c "{c}"] by (auto simp: printable_def list_all_iff)

lemma escape_high: "128 \<le> byte c \<Longrightarrow> escape c = [c]"
proof -
  assume h: "128 \<le> byte c"
  have n: "c \<noteq> d" if "byte d < 128" for d using h that by auto
  have "c \<noteq> QUOTE" "c \<noteq> BACKSLASH" "c \<noteq> CHR 0x0A" "c \<noteq> CHR 0x0D" "c \<noteq> CHR 0x09" "c \<noteq> CHR 0x0C" "c \<noteq> CHR 0x08"
    by (rule n, simp add: QUOTE_def BACKSLASH_def)+
  then show ?thesis using h by (simp add: escape_def)
qed

lemma valid_utf8_escaped: "valid_utf8 s \<Longrightarrow> valid_utf8 (concat (map escape s))"
proof (induction s rule: valid_utf8.induct)
  case (2 a s)
  show ?case
  proof (cases "byte a < 128")
    case True
    then show ?thesis using 2 valid_utf8_append [OF valid_utf8_ascii [OF escape_ascii [OF True]]] by (simp add: Let_def)
  next
    case False
    have h: "128 \<le> byte b" if "is_cont b" for b using that by (simp add: is_cont_def)
    show ?thesis using 2 False escape_high [of a] h
      by (auto simp: Let_def escape_high split: if_splits list.splits)
  qed
qed simp

lemma valid_utf8_show_str: "valid_utf8 s \<Longrightarrow> valid_utf8 (show_str s)"
  using valid_utf8_append [OF valid_utf8_escaped, of s "[QUOTE]"] by (simp add: show_str_def QUOTE_def Let_def)

lemma valid_utf8_join: "valid_utf8 sep \<Longrightarrow> list_all valid_utf8 ts \<Longrightarrow> valid_utf8 (join sep ts)"
  by (induction sep ts rule: join.induct) (simp_all add: valid_utf8_append)

lemma valid_utf8_line_break: "valid_utf8 (line_break k)"
  by (rule valid_utf8_ascii) (simp add: line_break_def list_all_iff)

lemma valid_utf8_block: "list_all valid_utf8 ts \<Longrightarrow> valid_utf8 (block k ts)"
  unfolding block_def
  by (intro valid_utf8_append valid_utf8_join valid_utf8_line_break) (use valid_utf8_line_break [of "k + 1"] in \<open>simp_all add: Let_def\<close>)

lemma valid_utf8_dumps_indent: "texts_ok v \<Longrightarrow> valid_utf8 (dumps_indent k v)"
proof (induction v arbitrary: k)
  case (PList vs)
  then have "valid_utf8 (block k (map (dumps_indent (k + 1)) vs))" by (intro valid_utf8_block) (auto simp: list_all_iff)
  then show ?case by (auto simp: Let_def intro!: valid_utf8_append)
next
  case (PDict d)
  have "valid_utf8 (show_str j @ '': '' @ dumps_indent (k + 1) v)" if "(j, v) \<in> set d" for j v
    using PDict that valid_utf8_show_str [of j] by (intro valid_utf8_append) (auto simp: list_all_iff Let_def)
  then have "valid_utf8 (block k (map (\<lambda>(j, v). show_str j @ '': '' @ dumps_indent (k + 1) v) d))"
    by (intro valid_utf8_block) (auto simp: list_all_iff)
  then show ?case by (auto simp: Let_def intro!: valid_utf8_append)
next
  case (PStr s)
  then show ?case by (simp add: valid_utf8_show_str)
qed (auto intro!: valid_utf8_ascii dumps_ascii simp del: dumps.simps)

end
