(* ===== verification/Samples.thy ===== *)
theory Samples
  imports RobotService
begin

text \<open>
  Concrete inputs for the witnesses: a reading of numbers, settings within range, a planning
  request with its validated result, and the database rows they lead to.
\<close>

definition sample_lib :: lib where
  "sample_lib =
     \<lparr>lib_float = std_float, lib_int = std_int, lib_hypot = (\<lambda>_. Fin 1), lib_text = (\<lambda>_. [])\<rparr>"

definition sample_settings :: settings where
  "sample_settings =
     \<lparr>database_path = ''db'', log_path = ''log'', plan_timeout = Fin 10, maximum_force = Fin 20,
      initial_joints = replicate 6 (PInt 0), joint_min = replicate 6 (PInt (-6)),
      joint_max = replicate 6 (PInt 6)\<rparr>"

definition sample_request :: plan_request where
  "sample_request =
     \<lparr>rq_grasp_pose = \<lparr>position = [Fin 0, Fin 0, Fin 1], orientation = [Fin 0, Fin 0, Fin 0, Fin 1]\<rparr>,
      rq_joint_angles = None, rq_force_limit = Fin 5\<rparr>"

definition sample_plan :: plan_result where
  "sample_plan =
     \<lparr>pr_task_id = ''t'', pr_reference_source = ''config'', pr_joint_target = replicate 6 (Fin 1),
      pr_joint_trajectory = [replicate 6 (Fin 0), replicate 6 (Fin 1)], pr_duration_sec = Fin 2,
      pr_sample_period_sec = Fin 2, pr_solution_count = 1, pr_force_limit = Fin 5\<rparr>"

abbreviation sample_payload :: pydict where
  "sample_payload \<equiv> dump_request sample_request"

lemma sample_strict: "strict_numbers sample_lib"
  unfolding sample_lib_def by (rule std_strict)

lemma sample_settings_ok: "settings_ok sample_settings"
  by (simp add: settings_ok_def sample_settings_def finite_number_def list_all_iff)

lemma sample_planned: "validate_plan_result sample_lib (dump_result sample_plan) = Inr sample_plan"
  by code_simp

lemma sample_within:
  "q \<in> {0, 1} \<Longrightarrow> within_limits sample_settings (replicate 6 (Fin q))"
proof -
  assume q: "q \<in> {0, 1}"
  have "\<not> outside (Fin q) (PInt (-6), PInt 6)"
    by (rule not_outside [of _ "-6" _ 6]) (use q in \<open>auto simp: num_def\<close>)
  then show ?thesis
    by (simp add: within_limits_def sample_settings_def any_zip_def numeral_eq_Suc)
qed

lemma sample_same: "\<not> differs (Fin q) (Fin q)"
proof -
  obtain e where e: "MATCH_EPS = Fin e" "1 / (2 * 10 ^ 7) \<le> e" by (rule MATCH_EPS_bounds)
  have "0 < e" using e(2) by (rule less_le_trans [rotated]) simp
  then show ?thesis by (simp add: differs_def minus_pyfloat_def e(1))
qed

lemma sample_valid:
  assumes "validate_plan_result sample_lib d = Inr sample_plan"
  shows "validate_result sample_lib sample_settings d sample_payload = Inr (dump_result sample_plan)"
proof -
  have p: "dget sample_payload ''current_joint_angles'' = None"
    "get_or sample_payload ''force_limit'' PNone = PFloat (Fin 5)"
    by (simp_all add: dump_request_def sample_request_def get_or_def)
  have r: "map num (reference_joints sample_settings sample_payload) = replicate 6 (Fin 0)"
    by (simp add: reference_joints_def p sample_settings_def num_def)
  have z: "\<not> any_zip differs (replicate 6 (Fin q)) (replicate 6 (Fin q))" for q
    by (simp add: any_zip_def sample_same numeral_eq_Suc)
  show ?thesis
    unfolding validate_result_def assms rbind.simps Let_def
    by (simp add: p r z sample_plan_def sample_within isclose_def feq_def num_def)
qed

end
