(* ===== verification/SampleRun.thy ===== *)
theory SampleRun
  imports CommandRuns JsonRoundtrip Samples
begin

text \<open>
  A complete run of the gateway, evaluated: the motion service connects and registers, a request
  is submitted, sent, answered and saved. The witnesses of the properties about runs use it.
\<close>

section \<open>Messages\<close>

definition sample_register :: message where
  "sample_register =
     \<lparr>msg_type = REGISTER, source = MOTION, target = BACKEND, code = 0, msg = [],
      data = [(''module'', PStr MOTION)], timestamp = 0\<rparr>"

text \<open>The plan as the motion service prints it, with whole numbers as integers.\<close>

definition sample_feedback :: pydict where
  "sample_feedback =
     [(''task_id'', PStr ''t''), (''phase'', PStr ''planned''), (''is_success'', PBool True),
      (''executed'', PBool False), (''execution_mode'', PStr ''plan_only''),
      (''reference_source'', PStr ''config''), (''joint_target'', PList [PInt 1, PInt 1, PInt 1, PInt 1, PInt 1, PInt 1]),
      (''joint_trajectory'', PList [PList [PInt 0, PInt 0, PInt 0, PInt 0, PInt 0, PInt 0], PList [PInt 1, PInt 1, PInt 1, PInt 1, PInt 1, PInt 1]]),
      (''duration_sec'', PInt 2), (''sample_period_sec'', PInt 2), (''solution_count'', PInt 1),
      (''force_limit'', PInt 5)]"

definition sample_status :: message where
  "sample_status =
     \<lparr>msg_type = MOTION_STATUS, source = MOTION, target = BACKEND, code = 0, msg = [],
      data = sample_feedback, timestamp = 0\<rparr>"

lemma sample_feedback_planned: "validate_plan_result sample_lib sample_feedback = Inr sample_plan"
proof -
  have i: "std_float (PInt i) = Some (Fin (of_int i))" if "\<bar>i\<bar> \<le> 10" for i
    using that f64_of_int [of i] by simp
  show ?thesis
    by (simp add: validate_plan_result_def sample_feedback_def field_def sample_lib_def i read_choice_def
        read_pos_def read_pos_int_def no_extra_def RESULT_FIELDS_def guard_def validate_trajectory_def
        sample_plan_def del: std_float.simps(1)) (simp add: numeral_eq_Suc)
qed

text \<open>A line that decodes to the message it was made of.\<close>

definition line_of :: "message \<Rightarrow> string" where
  "line_of m = dumps (PDict (msg_dict m)) @ [NEWLINE]"

definition plain_message :: "message \<Rightarrow> bool" where
  "plain_message m \<longleftrightarrow> json_ok (PDict (msg_dict m)) \<and> (\<forall>c \<in> letters (PDict (msg_dict m)). byte c < 128)"

lemma plain_encodes:
  assumes "plain_message m"
  shows "encode_message m = Inr (line_of m)"
proof -
  have "list_all (\<lambda>c. byte c < 128) (dumps (PDict (msg_dict m)))"
    by (rule dumps_ascii) (use assms in \<open>unfold plain_message_def, blast\<close>)
  then have "list_all (\<lambda>c. byte c < 128) (line_of m)"
    unfolding line_of_def list_all_append by (simp add: NEWLINE_def)
  then have "valid_utf8 (line_of m)" by (rule valid_utf8_ascii)
  moreover have "ints_fit (PDict (msg_dict m))" using assms json_ok_iff unfolding plain_message_def by blast
  ultimately show ?thesis
    by (simp add: encode_message_def json_dumps_def line_of_def del: dumps.simps)
qed

lemma plain_decodes:
  assumes "wf_message m" "plain_message m"
  shows "decode_message (line_of m) = Inr (Some (msg_dict m))"
proof (rule decode_encode [OF assms(1) _ plain_encodes [OF assms(2)]])
  have "py_ok (PDict (msg_dict m))" using assms(2) json_ok_iff unfolding plain_message_def by blast
  then show "py_ok (PDict (data m))" by (simp add: msg_dict_def)
qed

lemma line_of_whole:
  assumes "length (dumps (PDict (msg_dict m))) \<le> MAX_LINE_BYTES"
  shows "\<not> line_ends (line_of m)"
proof -
  have "takeWhile (\<lambda>ch. ch \<noteq> NEWLINE) (line_of m) = dumps (PDict (msg_dict m))"
    unfolding line_of_def using dumps_no_newline [of "PDict (msg_dict m)"]
    by (subst takeWhile_append2) (auto simp del: dumps.simps)
  then show ?thesis using assms by (simp add: line_ends_def line_of_def)
qed

text \<open>The acknowledgement, and the command that carries the request.\<close>

definition sample_ack :: message where
  "sample_ack =
     \<lparr>msg_type = REGISTER_ACK, source = BACKEND, target = MOTION, code = 0, msg = ''success'',
      data = [], timestamp = 0\<rparr>"

definition sample_command :: message where
  "sample_command =
     \<lparr>msg_type = GRASP_COMMAND, source = BACKEND, target = MOTION, code = 0, msg = ''success'',
      data = dset ''task_id'' (PStr ''t'') sample_payload, timestamp = 0\<rparr>"

lemma sample_plain:
  "plain_message sample_register" "plain_message sample_status" "plain_message sample_ack" "plain_message sample_command"
  by (simp_all add: plain_message_def sample_register_def sample_status_def sample_feedback_def sample_ack_def
      sample_command_def dump_request_def sample_request_def floats_def msg_dict_def protocol_consts show_nat_small MAX_DIGITS_def)

lemma sample_wf: "wf_message sample_register" "wf_message sample_status"
  by (simp_all add: wf_message_def sample_register_def sample_status_def protocol_consts)

lemma sample_lines_whole:
  "\<not> line_ends (line_of sample_register)" "\<not> line_ends (line_of sample_status)"
  by (rule line_of_whole; simp add: sample_register_def sample_status_def sample_feedback_def
      msg_dict_def protocol_consts show_str_def show_int_def show_nat_small MAX_LINE_BYTES_def
      escape_def QUOTE_def BACKSLASH_def digit_def)+

section \<open>A run from the empty database to a planned row\<close>

abbreviation "sstep \<equiv> gstep sample_lib sample_settings"

definition run0 :: gateway where "run0 = gateway_start 0 None"

definition run1 :: gateway where "run1 = connect (Fin 0) 0 run0"

definition run2 :: gateway where
  "run2 = handle_line (gateway_on_message 0) (gateway_on_disconnect 0) 0 (Fin 0) 0 (line_of sample_register) run1"

definition run3 :: gateway where "run3 = fst (submit_enter ''t'' sample_request None run2)"

definition run4 :: gateway where "run4 = after_submit sample_lib 0 None (submit_created True 0 run3)"

definition sample_worker :: "phase \<Rightarrow> run" where
  "sample_worker p = \<lparr>w_task = ''t'', w_payload = sample_payload, w_cb = None, w_phase = p\<rparr>"

definition run5 :: gateway where "run5 = run_start True sample_lib sample_settings 0 (sample_worker WCreated) run4"

lemma run1_fields:
  "conns run1 0 = Some (new_session (Fin 0))" "sessions run1 = []" "sent run1 = []" "active_id run1 = None"
  "closing run1 = False" "sub_lock run1 = LFree" "db run1 = []" "worker run1 = None" "futures run1 = []" "pending run1 = []"
  by (simp_all add: run1_def run0_def gateway_start_def connect_def initialize_def recover_interrupted_def dmap_def Let_def)

lemma run2_eq:
  "run2 = run1\<lparr>conns := (conns run1)(0 \<mapsto> \<lparr>module_id = MOTION, reply_target = MOTION, last_heartbeat = Fin 0, writer_closing = False\<rparr>),
     sessions := [(MOTION, 0)], sent := [(0, sample_ack)]\<rparr>"
proof -
  have b: "build_message REGISTER_ACK BACKEND MOTION None SUCCESS ''success'' 0 = Inr sample_ack"
    by (simp add: build_message_def sample_ack_def protocol_consts)
  have v: "get_or (data sample_register) ''module'' (PStr []) = PStr MOTION" "source sample_register = MOTION"
    "target sample_register = BACKEND" "msg_type sample_register = REGISTER"
    by (simp_all add: sample_register_def get_or_def)
  have r: "MOTION \<in> set REGISTRABLE" by (simp add: REGISTRABLE_def)
  let ?s = "upd_session 0 (\<lambda>x. x\<lparr>reply_target := MOTION\<rparr>) run1"
  let ?t = "run1\<lparr>conns := (conns run1)(0 \<mapsto> \<lparr>module_id = MOTION, reply_target = MOTION, last_heartbeat = Fin 0, writer_closing = False\<rparr>),
     sessions := [(MOTION, 0)], sent := [(0, sample_ack)]\<rparr>"
  have "handle_register (gateway_on_disconnect 0) 0 (Fin 0) 0 sample_register ?s = (?t, Inr ())"
    using r
    by (simp add: handle_register_def v complete_register_def b reply_def plain_encodes sample_plain write_to_def
        is_closing_def upd_session_def run1_fields new_session_def)
  then show ?thesis
    using sample_lines_whole(1)
    by (simp add: run2_def handle_line_def process_line_def plain_decodes sample_plain sample_wf route_message_def
        run1_fields new_session_def v)
qed

text \<open>The submission, its worker, and the plan the motion service sends back.\<close>

lemma motion_up: "conns s 0 = conns run2 0 \<Longrightarrow> sessions s = sessions run2 \<Longrightarrow> motion_online s"
  by (simp add: motion_online_def is_online_def run2_eq is_closing_def)

lemma run2_fields:
  "active_id run2 = None" "closing run2 = False" "sub_lock run2 = LFree" "db run2 = []" "worker run2 = None"
  "futures run2 = []" "pending run2 = []" "sent run2 = [(0, sample_ack)]"
  by (simp_all add: run2_eq run1_fields)

lemma run3_eq: "run3 = run2\<lparr>active_id := Some ''t'', sub_lock := LCreating ''t'' sample_payload None False\<rparr>"
  using motion_up [of run2] by (simp add: run3_def submit_enter_def run2_fields)

definition sample_row :: row where
  "sample_row =
     \<lparr>status = PLANNING, request_json = dumps (PDict sample_payload), result_json = None, error_json = None,
      created_at = 0, updated_at = 0\<rparr>"

lemma sample_json:
  "json_dumps False (PDict sample_payload) = Inr (dumps (PDict sample_payload))"
  "json_dumps False (PDict (dump_result sample_plan)) = Inr (dumps (PDict (dump_result sample_plan)))"
  "valid_utf8 (dumps (PDict sample_payload))" "valid_utf8 (dumps (PDict (dump_result sample_plan)))"
proof -
  show "valid_utf8 (dumps (PDict sample_payload))"
    by (rule valid_utf8_ascii, rule dumps_ascii) (simp add: dump_request_def sample_request_def floats_def)
  show "valid_utf8 (dumps (PDict (dump_result sample_plan)))"
    by (rule valid_utf8_ascii, rule dumps_ascii) (simp add: dump_result_def sample_plan_def floats_def)
qed (simp_all add: json_dumps_def dump_request_def sample_request_def dump_result_def sample_plan_def floats_def
      show_nat_small MAX_DIGITS_def list_all_iff del: dumps.simps)

lemma run4_eq:
  "run4 = run3\<lparr>db := [(''t'', sample_row)], sub_lock := LFree, worker := Some (sample_worker WCreated)\<rparr>"
  by (simp add: run4_def run3_eq submit_created_def db_create_def create_def sample_json bind_text_def run2_fields
      after_submit_def sample_row_def sample_worker_def del: dumps.simps)


lemma run5_eq:
  "run5 = run4\<lparr>futures := [FPending], pending := [(''t'', 0)], sent := [(0, sample_ack), (0, sample_command)],
     worker := Some (sample_worker (WSending 0 0))\<rparr>"
proof -
  have b: "build_message GRASP_COMMAND BACKEND MOTION (Some (dset ''task_id'' (PStr ''t'') sample_payload)) SUCCESS ''success'' 0 = Inr sample_command"
    by (simp add: build_message_def sample_command_def protocol_consts)
  have c: "conns run4 0 = conns run2 0" "sessions run4 = [(MOTION, 0)]" "sent run4 = [(0, sample_ack)]"
      "futures run4 = []" "pending run4 = []" "worker run4 = Some (sample_worker WCreated)"
    by (simp_all add: run4_eq run3_eq run2_fields run2_eq run1_fields)
  have w: "w_task (sample_worker p) = ''t''" "w_payload (sample_worker p) = sample_payload"
      "sample_worker p\<lparr>w_phase := q\<rparr> = sample_worker q" for p q by (simp_all add: sample_worker_def)
  have cl: "conns run2 0 = Some \<lparr>module_id = MOTION, reply_target = MOTION, last_heartbeat = Fin 0, writer_closing = False\<rparr>"
    by (simp add: run2_eq)
  show ?thesis
    by (simp add: run5_def run_start_def plan_begin_def Let_def w b c send_start_def send_write_def is_closing_def cl
        plain_encodes sample_plain write_to_def set_phase_def)
qed

definition run6 :: gateway where
  "run6 = run_sent (gateway_on_disconnect 0) sample_lib sample_settings True (sample_worker (WSending 0 0)) 0 0 run5"

definition run7 :: gateway where
  "run7 = handle_line (gateway_on_message 0) (gateway_on_disconnect 0) 0 (Fin 0) 0 (line_of sample_status) run6"

definition run8 :: gateway where
  "run8 = run_reply sample_lib sample_settings (sample_worker (WWaiting 0)) 0 run7"

definition run9 :: gateway where
  "run9 = run_saved True 1 (sample_worker (WSaving PLANNED (Some (dump_result sample_plan)) None)) PLANNED
     (Some (dump_result sample_plan)) None run8"

lemma worker_simps [simp]:
  "w_task (sample_worker p) = ''t''" "w_payload (sample_worker p) = sample_payload" "w_cb (sample_worker p) = None"
  "w_phase (sample_worker p) = p" "sample_worker p\<lparr>w_phase := q\<rparr> = sample_worker q"
  by (simp_all add: sample_worker_def)

lemma run6_eq: "run6 = run5\<lparr>worker := Some (sample_worker (WWaiting 0))\<rparr>"
  by (simp add: run6_def run_sent_def send_finish_def set_phase_def run5_eq)

lemma run7_eq: "run7 = run6\<lparr>futures := [FResult sample_feedback]\<rparr>"
proof -
  have m: "msg_type sample_status = MOTION_STATUS" "source sample_status = MOTION" "target sample_status = BACKEND"
    "code sample_status = 0" "data sample_status = sample_feedback" "dget sample_feedback ''task_id'' = Some (PStr ''t'')"
    by (simp_all add: sample_status_def sample_feedback_def)
  have i: "ident run6 0 = MOTION" "pending run6 = [(''t'', 0)]" "futures run6 = [FPending]"
    by (simp_all add: ident_def run6_eq run5_eq run4_eq run3_eq run2_eq)
  have a: "authorised run6 0 sample_status" by (simp add: authorised_def i m protocol_consts)
  have "adapter_on_message sample_status run6 = (run6\<lparr>futures := [FResult sample_feedback]\<rparr>, True)"
    by (simp add: adapter_on_message_def m i protocol_consts settle_def future_done_def future_at_def)
  then have "gateway_on_message 0 sample_status run6 = (run6\<lparr>futures := [FResult sample_feedback]\<rparr>, Inr None)"
    by (simp add: gateway_on_message_def)
  then have "route_message (gateway_on_message 0) (gateway_on_disconnect 0) 0 (Fin 0) 0 sample_status run6
      = (run6\<lparr>futures := [FResult sample_feedback]\<rparr>, Inr ())"
    by (simp add: route_authorised [OF a])
  then show ?thesis
    using sample_lines_whole(2) by (simp add: run7_def handle_line_def process_line_def plain_decodes sample_plain sample_wf)
qed

lemma run8_eq:
  "run8 = run7\<lparr>pending := [], worker := Some (sample_worker (WSaving PLANNED (Some (dump_result sample_plan)) None))\<rparr>"
proof -
  have f: "futures run7 = [FResult sample_feedback]" "pending run7 = [(''t'', 0)]" "worker run7 = Some (sample_worker (WWaiting 0))"
    by (simp_all add: run7_eq run6_eq run5_eq)
  have "plan_outcome run7 0 = Inr sample_feedback" by (simp add: plan_outcome_def future_at_def f)
  moreover have "run_outcome sample_lib sample_settings sample_payload (Inr sample_feedback) = (PLANNED, Some (dump_result sample_plan), None)"
    using sample_valid [OF sample_feedback_planned] by (simp add: run_outcome_def)
  moreover have "plan_end ''t'' 0 run7 = run7\<lparr>pending := []\<rparr>"
    by (simp add: plan_end_def settle_def future_done_def future_at_def f ddel_def)
  ultimately show ?thesis by (simp add: run8_def run_reply_def run_save_def set_phase_def f)
qed

definition sample_planned_row :: row where
  "sample_planned_row = sample_row\<lparr>status := PLANNED, result_json := Some (dumps (PDict (dump_result sample_plan))), updated_at := 1\<rparr>"

lemma run9_eq:
  "run9 = run8\<lparr>db := [(''t'', sample_planned_row)], active_id := None, worker := Some (sample_worker WDone)\<rparr>"
proof -
  have d: "db run8 = [(''t'', sample_row)]" "worker run8 = Some (sample_worker (WSaving PLANNED (Some (dump_result sample_plan)) None))"
    by (simp_all add: run8_eq run7_eq run6_eq run5_eq run4_eq)
  have "db_finish True 1 ''t'' PLANNED (Some (dump_result sample_plan)) None (db run8) = Inr [(''t'', sample_planned_row)]"
    by (simp add: db_finish_def rmap_snd_def finish_def d sample_json bind_text_def status_consts sample_row_def sample_planned_row_def del: dumps.simps)
  then show ?thesis by (simp add: run9_def run_saved_def run_end_def set_phase_def d)
qed

lemma sample_step:
  assumes "gsteps sample_lib sample_settings {} run0 s" "sstep {} s s'"
  shows "gsteps sample_lib sample_settings {} run0 s'"
  using gsteps_snoc [OF assms] by simp

lemma sample_started: "sstep {} run4 run5"
proof -
  have w: "worker run4 = Some (sample_worker WCreated)" by (simp add: run4_eq)
  have "may_send True MOTION run4"
    by (simp add: may_send_def send_busy_def run4_eq run3_eq run2_eq run1_def run0_def connect_def gateway_start_def)
  then show ?thesis unfolding run5_def by (intro started [OF w]) simp_all
qed

lemma sample_steps:
  "gsteps sample_lib sample_settings {} run0 run4" "gsteps sample_lib sample_settings {} run0 run7"
proof -
  have w: "worker run5 = Some (sample_worker (WSending 0 0))"
    by (simp add: run5_eq)
  have c: "conns run1 0 \<noteq> None" "conns run6 0 \<noteq> None"
    by (simp_all add: run6_eq run5_eq run4_eq run3_eq run2_eq run1_fields)
  have l: "sub_lock run3 = LCreating ''t'' sample_payload None False" by (simp add: run3_eq)
  have q: "submit_check sample_settings sample_request = Inr ()"
    by (simp add: submit_check_def sample_settings_def sample_request_def)
  have "gsteps sample_lib sample_settings {} run0 run0" by (rule gsteps.none)
  moreover have "sstep {} run0 run1" unfolding run1_def by (rule connected) (simp_all add: run0_def gateway_start_def)
  moreover have "sstep {} run1 run2" unfolding run2_def by (rule line) (rule c)
  moreover have "sstep {} run2 run3" unfolding run3_def by (rule http_enter [OF q]) (rule run2_fields)
  moreover have "sstep {} run3 run4" unfolding run4_def by (rule created [OF l])
  ultimately show r4: "gsteps sample_lib sample_settings {} run0 run4" using sample_step by blast
  moreover note sample_started
  moreover have "sstep {} run5 run6" unfolding run6_def by (rule drained [OF w]) simp
  moreover have "sstep {} run6 run7" unfolding run7_def by (rule line) (rule c)
  ultimately show "gsteps sample_lib sample_settings {} run0 run7" using sample_step by blast
qed

lemma sample_all_steps: "gsteps sample_lib sample_settings {} run0 run9"
proof -
  have w: "worker run7 = Some (sample_worker (WWaiting 0))"
    "worker run8 = Some (sample_worker (WSaving PLANNED (Some (dump_result sample_plan)) None))"
    by (simp_all add: run8_eq run7_eq run6_eq)
  have f: "future_done run7 0" by (simp add: future_done_def future_at_def run7_eq)
  have d: "db run8 = [(''t'', sample_row)]" by (simp add: run8_eq run7_eq run6_eq run5_eq run4_eq)
  have fin: "\<exists>t. db_finish True 1 ''t'' PLANNED (Some (dump_result sample_plan)) None (db run8) = Inr t"
    by (simp add: db_finish_def rmap_snd_def finish_def d sample_json bind_text_def status_consts sample_row_def del: dumps.simps)
  have "sstep {} run7 run8" unfolding run8_def by (rule replied [OF w(1) _ f]) simp
  moreover have "sstep {} run8 run9"
    using saved [OF w(2), of PLANNED "Some (dump_result sample_plan)" None sample_lib sample_settings True 1] fin
    by (auto simp: run9_def)
  ultimately show ?thesis using sample_steps(2) sample_step by blast
qed

lemma sample_runs:
  "gsteps sample_lib sample_settings {} run0 s \<Longrightarrow> reachable sample_lib sample_settings None {} s"
  using gsteps_reachable [OF _ reachable.start [of sample_lib sample_settings None 0]] by (fastforce simp: run0_def)

lemmas sample_waiting = sample_steps [THEN sample_runs]
lemmas sample_reachable = sample_all_steps [THEN sample_runs]

text \<open>What the end of the run shows.\<close>

lemma run9_facts:
  "dget (db run9) ''t'' = Some sample_planned_row" "status sample_planned_row = PLANNED"
  "commands ''t'' run9 = 1" "sent run9 = [(0, sample_ack), (0, sample_command)]"
  by (simp_all add: run9_eq sample_planned_row_def commands_def run8_eq run7_eq run6_eq run5_eq is_command_def
      sample_ack_def sample_command_def protocol_consts dict_simps)

end
