(* ===== verification/TcpClient.thy ===== *)
theory TcpClient
  imports Protocol
begin

text \<open>
  \<open>algorithm/common/tcp_client.py\<close>: the client every module uses to reach the backend. One
  attempt of \<open>run_forever\<close> is given by what the network does in it; the client's reactions
  (registration, heartbeats, replies, the wait before the next attempt) are computed.
\<close>

section \<open>State and environment\<close>

text \<open>
  The client with the messages written on all its connections so far; \<open>handler\<close> is the state of
  the owner of the callback \<open>on_message\<close>.
\<close>

record 'h client =
  own_id :: string
  writer_set :: bool
  written :: "message list"
  handler :: 'h

text \<open>The callback, with the time at which it builds its reply.\<close>

type_synonym 'h callback = "int \<Rightarrow> message \<Rightarrow> 'h \<Rightarrow> 'h \<times> message option res"

text \<open>
  What happens on a connection, each with its time in milliseconds: \<open>readline\<close> returned (an empty
  line is the end of the stream) or raised, or three seconds passed in the heartbeat task. A drain
  that fails after a reply is a read that raises next.
\<close>

datatype event = Received int string | ReadFails pyexc | Beat int

text \<open>One attempt: refused, accepted but lost in the drain of the registration, or served.\<close>

datatype attempt = Refused pyexc | LostAtRegister int pyexc | Served int "event list"

section \<open>Operations\<close>

definition new_client :: "string \<Rightarrow> 'h \<Rightarrow> 'h client" where
  "new_client md h = \<lparr>own_id = md, writer_set = False, written = [], handler = h\<rparr>"

definition client_send :: "message \<Rightarrow> 'h client \<Rightarrow> 'h client \<times> unit res" where
  "client_send m c =
     (if \<not> writer_set c then (c, Inr ())
      else case encode_message m of
             Inl e \<Rightarrow> (c, Inl e)
           | Inr _ \<Rightarrow> (c\<lparr>written := written c @ [m]\<rparr>, Inr ()))"

text \<open>A message is built first; \<open>build_message\<close> raises for an empty module name.\<close>

definition send_built :: "message res \<Rightarrow> 'h client \<Rightarrow> 'h client \<times> unit res" where
  "send_built r c = (case r of Inl e \<Rightarrow> (c, Inl e) | Inr m \<Rightarrow> client_send m c)"

definition client_dispatch :: "'h callback \<Rightarrow> int \<Rightarrow> message \<Rightarrow> 'h client \<Rightarrow> 'h client \<times> unit res" where
  "client_dispatch on_message now m c =
     (if msg_type m = REGISTER_ACK then (c, Inr ())
      else if msg_type m = HEARTBEAT_ACK then (c, Inr ())
      else case on_message now m (handler c) of
             (h, Inl e) \<Rightarrow> (c\<lparr>handler := h\<rparr>, Inl e)
           | (h, Inr None) \<Rightarrow> (c\<lparr>handler := h\<rparr>, Inr ())
           | (h, Inr (Some r)) \<Rightarrow> client_send r (c\<lparr>handler := h\<rparr>))"

definition register_message :: "string \<Rightarrow> int \<Rightarrow> message res" where
  "register_message md now =
     build_message REGISTER md BACKEND (Some [(''module'', PStr md)]) SUCCESS ''success'' now"

definition heartbeat_message :: "string \<Rightarrow> int \<Rightarrow> message res" where
  "heartbeat_message md now = build_message HEARTBEAT md BACKEND None SUCCESS ''success'' now"

text \<open>
  The receive loop, with the exception that ends it; \<open>None\<close>: the events given are over and the
  connection goes on. An exception in the heartbeat task ends only that task.
\<close>

fun serve :: "'h callback \<Rightarrow> event list \<Rightarrow> 'h client \<Rightarrow> 'h client \<times> pyexc option" where
  "serve on_message [] c = (c, None)"
| "serve on_message (Received now line # es) c =
     (if line = [] then (c, Some ConnectionError)
      else case decode_message line of
             Inl e \<Rightarrow> (c, Some e)
           | Inr None \<Rightarrow> serve on_message es c
           | Inr (Some d) \<Rightarrow>
               (case client_dispatch on_message now (msg_of d) c of
                  (c1, Inl e) \<Rightarrow> (c1, Some e)
                | (c1, Inr _) \<Rightarrow> serve on_message es c1))"
| "serve on_message (ReadFails e # es) c = (c, Some e)"
| "serve on_message (Beat now # es) c =
     serve on_message es (fst (send_built (heartbeat_message (own_id c) now) c))"

text \<open>
  \<open>_connect_and_serve\<close>. Its \<open>finally\<close> resets the writer; an exception in the registration
  comes before the \<open>try\<close> and leaves it set.
\<close>

definition connect_and_serve :: "'h callback \<Rightarrow> attempt \<Rightarrow> 'h client \<Rightarrow> 'h client \<times> pyexc option" where
  "connect_and_serve on_message a c =
     (case a of
        Refused e \<Rightarrow> (c, Some e)
      | LostAtRegister now e \<Rightarrow>
          (case send_built (register_message (own_id c) now) (c\<lparr>writer_set := True\<rparr>) of
             (c1, Inl e') \<Rightarrow> (c1, Some e') | (c1, Inr _) \<Rightarrow> (c1, Some e))
      | Served now es \<Rightarrow>
          (case send_built (register_message (own_id c) now) (c\<lparr>writer_set := True\<rparr>) of
             (c1, Inl e) \<Rightarrow> (c1, Some e)
           | (c1, Inr _) \<Rightarrow>
               (case serve on_message es c1 of
                  (c2, None) \<Rightarrow> (c2, None)
                | (c2, Some e) \<Rightarrow> (c2\<lparr>writer_set := False\<rparr>, Some e))))"

text \<open>The exceptions \<open>run_forever\<close> catches; \<open>FileNotFoundError\<close> is an \<open>OSError\<close>.\<close>

definition RECONNECTS :: "pyexc set" where
  "RECONNECTS = {ConnectionError, OSError, IncompleteReadError, FileNotFoundError}"

definition interval :: "nat \<Rightarrow> rat" where
  "interval i = RECONNECT_INTERVALS_SEC ! min i (length RECONNECT_INTERVALS_SEC - 1)"

text \<open>
  \<open>run_forever\<close> over the attempts the network grants: the client, the waits between attempts, and
  the exception that escaped, if one did. \<open>_connect_and_serve\<close> never returns normally, so the
  assignment that would reset the index is never reached.
\<close>

fun run_forever :: "'h callback \<Rightarrow> attempt list \<Rightarrow> nat \<Rightarrow> 'h client \<Rightarrow> 'h client \<times> rat list \<times> pyexc option" where
  "run_forever on_message [] index c = (c, [], None)"
| "run_forever on_message (a # as) index c =
     (case connect_and_serve on_message a c of
        (c1, None) \<Rightarrow> (c1, [], None)
      | (c1, Some e) \<Rightarrow>
          if e \<in> RECONNECTS
          then (case run_forever on_message as (Suc index) c1 of
                  (c2, waits, r) \<Rightarrow> (c2, interval index # waits, r))
          else (c1, [], Some e))"

section \<open>What the client does\<close>

lemma interval_cases: "interval i = (if i = 0 then 1 else if i = 1 then 3 else 5)"
  by (cases i; cases "i - 1") (auto simp: interval_def RECONNECT_INTERVALS_SEC_def numeral_2_eq_2)

lemma client_send_frame [simp]:
  "own_id (fst (client_send m c)) = own_id c" "writer_set (fst (client_send m c)) = writer_set c"
  "handler (fst (client_send m c)) = handler c"
  by (simp_all add: client_send_def split: sum.split)

lemma send_built_frame [simp]:
  "own_id (fst (send_built r c)) = own_id c" "writer_set (fst (send_built r c)) = writer_set c"
  "handler (fst (send_built r c)) = handler c"
  by (simp_all add: send_built_def split: sum.split)

lemma client_dispatch_frame [simp]:
  "own_id (fst (client_dispatch f now m c)) = own_id c" "writer_set (fst (client_dispatch f now m c)) = writer_set c"
  by (auto simp: client_dispatch_def split: prod.split sum.split option.split)

lemma serve_frame [simp]:
  "own_id (fst (serve f es c)) = own_id c" "writer_set (fst (serve f es c)) = writer_set c"
proof (induction f es c rule: serve.induct)
  case (2 f now line es c)
  { case 1
    show ?case
    proof (cases "decode_message line")
      case (Inr r)
      then show ?thesis
        using 2 client_dispatch_frame(1) [of f now "msg_of (the r)" c]
        by (cases r; cases "client_dispatch f now (msg_of (the r)) c"; cases "snd (client_dispatch f now (msg_of (the r)) c)") auto
    qed simp }
  { case 2
    show ?case
    proof (cases "decode_message line")
      case (Inr r)
      then show ?thesis
        using "2.IH" client_dispatch_frame(2) [of f now "msg_of (the r)" c]
        by (cases r; cases "client_dispatch f now (msg_of (the r)) c"; cases "snd (client_dispatch f now (msg_of (the r)) c)") auto
    qed simp }
qed simp_all

text \<open>The waits are 1, 3, 5, 5, \<open>\<dots>\<close> seconds, whatever happened on the connections between.\<close>

lemma run_forever_waits:
  "fst (snd (run_forever f as i c)) = map interval [i ..< i + length (fst (snd (run_forever f as i c)))]"
proof (induction as arbitrary: i c)
  case (Cons a as)
  show ?case
  proof (cases "connect_and_serve f a c")
    case (Pair c1 r)
    show ?thesis
    proof (cases r)
      case (Some e)
      obtain c2 ws x where w: "run_forever f as (Suc i) c1 = (c2, ws, x)" by (cases "run_forever f as (Suc i) c1") auto
      have "ws = map interval [Suc i ..< Suc (i + length ws)]" using Cons [of "Suc i" c1] w by (simp del: upt_Suc)
      then have "interval i # ws = map interval (i # [Suc i ..< Suc (i + length ws)])" by (simp del: upt_Suc)
      also have "i # [Suc i ..< Suc (i + length ws)] = [i ..< Suc (i + length ws)]" by (simp add: upt_conv_Cons del: upt_Suc)
      finally show ?thesis using Pair Some w by (auto simp del: upt_Suc)
    qed (use Pair in simp)
  qed
qed simp

text \<open>It ends only when an exception outside the caught classes escapes; it returns otherwise never.\<close>

lemma run_forever_escape:
  "snd (snd (run_forever f as i c)) = Some e \<Longrightarrow> e \<notin> RECONNECTS"
proof (induction as arbitrary: i c)
  case (Cons a as)
  then show ?case
    by (auto split: prod.splits option.splits if_splits) (metis snd_conv)+
qed simp

end
