(* ===== verification/FruitDetector.thy ===== *)
theory FruitDetector
  imports PyValue
begin

text \<open>
  \<open>algorithm/vision/fruit_detector.py\<close>: the detector and its mock, which stands in for the
  model and empties a scene of three fruits, one for each capture. Importing and loading a model
  is the library's and the file system's part, the parameter \<open>model_store\<close>.
\<close>

section \<open>Loading a model\<close>

text \<open>
  What \<open>_try_load_model\<close> and \<open>_try_load_policy\<close> ask of their environment: whether the
  library can be imported, \<open>os.path.isfile\<close>, and the library's loader.
\<close>

record 'm model_store =
  installed :: bool
  isfile :: "pyval \<Rightarrow> bool res"
  load_weights :: "pyval \<Rightarrow> 'm res"

definition try_load_model :: "'m model_store \<Rightarrow> pyval \<Rightarrow> 'm option res" where
  "try_load_model st model_path =
     (if \<not> installed st then Inr None
      else rbind (isfile st model_path) (\<lambda>b.
             if \<not> b then Inr None else rbind (load_weights st model_path) (\<lambda>m. Inr (Some m))))"

section \<open>The detector\<close>

definition MOCK_OBJECT_TOTAL :: int where "MOCK_OBJECT_TOTAL = 3"
definition MOCK_CONFIDENCE :: pyfloat where "MOCK_CONFIDENCE = f64 (19 / 20)"
definition MOCK_FORCE_LIMIT :: pyfloat where "MOCK_FORCE_LIMIT = Fin 5"

record 'm detector =
  model :: "'m option"
  mock_remaining :: int
  det_mock :: bool

definition new_detector :: "'m model_store \<Rightarrow> pyval \<Rightarrow> bool \<Rightarrow> 'm detector res" where
  "new_detector st model_path use_mock =
     (if use_mock then Inr \<lparr>model = None, mock_remaining = MOCK_OBJECT_TOTAL, det_mock = True\<rparr>
      else rbind (try_load_model st model_path) (\<lambda>m.
             Inr \<lparr>model = m, mock_remaining = MOCK_OBJECT_TOTAL, det_mock = (m = None)\<rparr>))"

text \<open>The fruit the mock reports when \<open>n\<close> are left after it.\<close>

definition mock_object :: "int \<Rightarrow> pydict" where
  "mock_object n =
     (let offset = f64 (1 / 20) * Fin (of_int n)
      in [(''label'', PStr ''apple''), (''confidence'', PFloat MOCK_CONFIDENCE),
          (''grasp_pose'', PDict
             [(''position'', PList [PFloat (f64 (7 / 20) + offset), PFloat (- f64 (3 / 25)), PFloat (f64 (2 / 25))]),
              (''orientation'', PList [PFloat (Fin 0), PFloat (Fin 0), PFloat (Fin 0), PFloat (Fin 1)])]),
          (''force_limit'', PFloat MOCK_FORCE_LIMIT)])"

definition mock_detect :: "'m detector \<Rightarrow> 'm detector \<times> pydict list" where
  "mock_detect d =
     (if mock_remaining d \<le> 0 then (d\<lparr>mock_remaining := MOCK_OBJECT_TOTAL\<rparr>, [])
      else let n = mock_remaining d - 1 in (d\<lparr>mock_remaining := n\<rparr>, [mock_object n]))"

definition detect :: "'m detector \<Rightarrow> 'm detector \<times> pydict list res" where
  "detect d =
     (if det_mock d then (case mock_detect d of (d1, objects) \<Rightarrow> (d1, Inr objects))
      else (d, Inl NotImplementedError))"

section \<open>The mock's scene\<close>

text \<open>A mock that has answered \<open>k\<close> captures since it was made.\<close>

definition mock_after :: "nat \<Rightarrow> 'm detector \<Rightarrow> bool" where
  "mock_after k d \<longleftrightarrow> det_mock d \<and> mock_remaining d = MOCK_OBJECT_TOTAL - int (k mod 4)"

lemma mock_after_new:
  "new_detector st p use_mock = Inr d \<Longrightarrow> use_mock \<or> model d = None \<Longrightarrow> mock_after 0 d"
  by (auto simp: new_detector_def mock_after_def rbind_Inr_iff split: if_splits)

lemma mock_after_detect:
  assumes "mock_after k d"
  shows "mock_after (Suc k) (fst (detect d))"
    and "snd (detect d) = Inr (if k mod 4 = 3 then [] else [mock_object (2 - int (k mod 4))])"
proof -
  have "k mod 4 < 4" by simp
  then consider "k mod 4 = 0" | "k mod 4 = 1" | "k mod 4 = 2" | "k mod 4 = 3" by linarith
  then show "mock_after (Suc k) (fst (detect d))"
    "snd (detect d) = Inr (if k mod 4 = 3 then [] else [mock_object (2 - int (k mod 4))])"
    using assms
    by (cases; simp add: mock_after_def detect_def mock_detect_def Let_def MOCK_OBJECT_TOTAL_def mod_Suc)+
qed

end
