(* ===== verification/GraspPolicy.thy ===== *)
theory GraspPolicy
  imports FruitDetector
begin

text \<open>
  \<open>algorithm/inference/grasp_policy.py\<close>: completing the detected objects with a grasp pose and a
  force. Both paths of \<open>refine_grasp\<close> apply the geometric default strategy, with or without a
  loaded policy.
\<close>

definition DEFAULT_ORIENTATION :: "pyval list" where
  "DEFAULT_ORIENTATION = [PFloat (Fin 0), PFloat (Fin 0), PFloat (Fin 0), PFloat (Fin 1)]"

definition DEFAULT_FORCE_LIMIT :: pyfloat where "DEFAULT_FORCE_LIMIT = Fin 4"

record 'p policy =
  loaded_policy :: "'p option"
  use_default :: bool

text \<open>\<open>_try_load_policy\<close>: \<open>None\<close> without the library or without the file of weights.\<close>

definition try_load_policy :: "'p model_store \<Rightarrow> pyval \<Rightarrow> 'p option res" where
  "try_load_policy st policy_path =
     (if \<not> installed st then Inr None
      else rbind (isfile st policy_path) (\<lambda>b.
             if \<not> b then Inr None else rbind (load_weights st policy_path) (\<lambda>p. Inr (Some p))))"

definition new_policy :: "'p model_store \<Rightarrow> pyval \<Rightarrow> bool \<Rightarrow> 'p policy res" where
  "new_policy st policy_path use_mock =
     (if use_mock then Inr \<lparr>loaded_policy = None, use_default = True\<rparr>
      else rbind (try_load_policy st policy_path) (\<lambda>p.
             Inr \<lparr>loaded_policy = p, use_default = (p = None)\<rparr>))"

text \<open>
  \<open>dict(v)\<close>. Every detection of the repository has an object here; of the other values the empty
  ones give an empty dictionary and a list of pairs is not followed further.
\<close>

fun to_dict :: "pyval \<Rightarrow> pydict res" where
  "to_dict (PDict d) = Inr d"
| "to_dict (PList []) = Inr []"
| "to_dict (PStr s) = (if s = [] then Inr [] else Inl ValueError)"
| "to_dict _ = Inl TypeError"

definition apply_default_strategy :: "pydict \<Rightarrow> pydict res" where
  "apply_default_strategy obj =
     rbind (to_dict (get_or obj ''grasp_pose'' (PDict []))) (\<lambda>grasp_pose.
       Inr (dsetdefault ''force_limit'' (PFloat DEFAULT_FORCE_LIMIT)
             (dset ''grasp_pose'' (PDict (dsetdefault ''orientation'' (PList DEFAULT_ORIENTATION) grasp_pose)) obj)))"

definition refine_grasp :: "'p policy \<Rightarrow> pydict list \<Rightarrow> pydict list res" where
  "refine_grasp p objects = rmap (\<lambda>obj. if use_default p then apply_default_strategy obj else apply_default_strategy obj) objects"

section \<open>What the default strategy gives\<close>

text \<open>Nothing the detector found is changed, and what it left out is there.\<close>

lemma apply_default_strategy_get:
  assumes "apply_default_strategy obj = Inr r"
  shows "\<exists>old pose. to_dict (get_or obj ''grasp_pose'' (PDict [])) = Inr old
    \<and> dget r ''grasp_pose'' = Some (PDict pose)
    \<and> (\<forall>k. dget pose k = (if k = ''orientation'' \<and> dget old k = None then Some (PList DEFAULT_ORIENTATION) else dget old k))
    \<and> dget r ''force_limit'' = (case dget obj ''force_limit'' of None \<Rightarrow> Some (PFloat DEFAULT_FORCE_LIMIT) | Some f \<Rightarrow> Some f)
    \<and> (\<forall>k. k \<noteq> ''grasp_pose'' \<longrightarrow> k \<noteq> ''force_limit'' \<longrightarrow> dget r k = dget obj k)"
  using assms by (auto simp: apply_default_strategy_def rbind_Inr_iff dict_simps split: option.split)

text \<open>An object that is already complete stays as it is.\<close>

lemma dset_same: "dget d k = Some v \<Longrightarrow> dset k v d = d"
  by (induction d) auto

lemma apply_default_strategy_complete:
  assumes "dget obj ''grasp_pose'' = Some (PDict pose)" "dget pose ''orientation'' \<noteq> None" "dget obj ''force_limit'' \<noteq> None"
  shows "apply_default_strategy obj = Inr obj"
  using assms by (auto simp: apply_default_strategy_def dsetdefault_def dset_same)

lemma refine_grasp_complete:
  assumes "\<And>obj. obj \<in> set objects \<Longrightarrow>
    \<exists>pose. dget obj ''grasp_pose'' = Some (PDict pose) \<and> dget pose ''orientation'' \<noteq> None \<and> dget obj ''force_limit'' \<noteq> None"
  shows "refine_grasp p objects = Inr objects"
proof -
  have "rmap apply_default_strategy objects = Inr (map id objects)"
    by (rule rmap_map_Inr) (use assms apply_default_strategy_complete in fastforce)
  then show ?thesis by (simp add: refine_grasp_def)
qed

end
