(* ===== verification/LogUtil.thy ===== *)
theory LogUtil
  imports PyValue
begin

text \<open>
  \<open>common/log_util.py\<close> and \<open>configure_logs\<close> of \<open>backend/app/api/application.py\<close>: which
  handlers and levels the named loggers have. What is logged, and where it is written, is not
  modelled.
\<close>

section \<open>Loggers\<close>

text \<open>
  A handler is the console of a module or a file, numbered by the order of opening. A logger that
  was never asked for is as \<open>logging.getLogger\<close> makes it.
\<close>

datatype log_handler = Console | LogFile nat

record logger =
  log_handlers :: "log_handler list"
  log_level :: nat
  log_propagate :: bool

record logging =
  loggers :: "string \<Rightarrow> logger"
  open_files :: "nat list"
  next_file :: nat

definition new_logger :: logger where
  "new_logger = \<lparr>log_handlers = [], log_level = 0, log_propagate = True\<rparr>"

definition upd_logger :: "string \<Rightarrow> (logger \<Rightarrow> logger) \<Rightarrow> logging \<Rightarrow> logging" where
  "upd_logger n f s = s\<lparr>loggers := (loggers s)(n := f (loggers s n))\<rparr>"

text \<open>\<open>addHandler\<close> and \<open>removeHandler\<close>.\<close>

definition add_handler :: "log_handler \<Rightarrow> logger \<Rightarrow> logger" where
  "add_handler h l = l\<lparr>log_handlers := (if h \<in> set (log_handlers l) then log_handlers l else log_handlers l @ [h])\<rparr>"

definition remove_handler :: "log_handler \<Rightarrow> logger \<Rightarrow> logger" where
  "remove_handler h l = l\<lparr>log_handlers := remove1 h (log_handlers l)\<rparr>"

section \<open>get\_logger\<close>

definition LEVEL_MAP :: "(string \<times> nat) list" where
  "LEVEL_MAP = [(''DEBUG'', 10), (''INFO'', 20), (''WARN'', 30), (''ERROR'', 40)]"

text \<open>
  \<open>str.upper\<close> on ASCII letters. A letter beyond ASCII whose capital is ASCII (dotless i, long s)
  can only make up \<open>INFO\<close>, which is also the default.
\<close>

definition upper :: "string \<Rightarrow> string" where
  "upper = map (\<lambda>c. if 97 \<le> byte c \<and> byte c \<le> 122 then char_of (byte c - 32) else c)"

definition level_of :: "pyval \<Rightarrow> nat res" where
  "level_of v =
     (case v of
        PStr s \<Rightarrow> Inr (case map_of LEVEL_MAP (upper s) of Some n \<Rightarrow> n | None \<Rightarrow> 20)
      | _ \<Rightarrow> Inl AttributeError)"

text \<open>The console handler is attached before the level is read; the order matters when that raises.\<close>

definition get_logger :: "string \<Rightarrow> pyval \<Rightarrow> logging \<Rightarrow> logging \<times> unit res" where
  "get_logger n level s =
     (let s1 = upd_logger n (\<lambda>l. if log_handlers l = [] then add_handler Console l else l) s
      in case level_of level of
           Inl e \<Rightarrow> (s1, Inl e)
         | Inr v \<Rightarrow> (upd_logger n (\<lambda>l. l\<lparr>log_level := v, log_propagate := False\<rparr>) s1, Inr ()))"

section \<open>configure\_logs\<close>

definition LOG_NAMES :: "string list" where
  "LOG_NAMES = [''backend.api'', ''backend.robot'', ''backend.dispatch'', ''backend.tcp_server'']"

fun attach :: "string list \<Rightarrow> pyval \<Rightarrow> log_handler \<Rightarrow> logging \<Rightarrow> logging \<times> unit res" where
  "attach [] level h s = (s, Inr ())"
| "attach (n # ns) level h s =
     (case get_logger n level s of
        (s1, Inl e) \<Rightarrow> (s1, Inl e)
      | (s1, Inr _) \<Rightarrow> attach ns level h (upd_logger n (add_handler h) s1))"

text \<open>
  \<open>opened\<close>: whether the directory could be made and the file opened. The value returned is what
  \<open>cleanup\<close> closes over: the handler and the levels before.
\<close>

definition configure_logs :: "unit res \<Rightarrow> pyval \<Rightarrow> logging \<Rightarrow> logging \<times> (nat \<times> (string \<times> nat) list) res" where
  "configure_logs opened level s =
     (case opened of
        Inl e \<Rightarrow> (s, Inl e)
      | Inr _ \<Rightarrow>
          (let f = next_file s;
               levels = map (\<lambda>n. (n, log_level (loggers s n))) LOG_NAMES;
               s1 = s\<lparr>open_files := open_files s @ [f], next_file := Suc f\<rparr>
           in case attach LOG_NAMES level (LogFile f) s1 of
                (s2, Inl e) \<Rightarrow> (s2, Inl e) | (s2, Inr _) \<Rightarrow> (s2, Inr (f, levels))))"

definition cleanup_logs :: "nat \<times> (string \<times> nat) list \<Rightarrow> logging \<Rightarrow> logging" where
  "cleanup_logs c s =
     (case c of (f, levels) \<Rightarrow>
        (foldl (\<lambda>s n. upd_logger n (\<lambda>l. (remove_handler (LogFile f) l)\<lparr>log_level := the (map_of levels n)\<rparr>) s) s LOG_NAMES)
          \<lparr>open_files := remove1 f (open_files s)\<rparr>)"

section \<open>Facts\<close>

text \<open>A logger after \<open>get_logger\<close> returned it.\<close>

definition got :: "pyval \<Rightarrow> logger \<Rightarrow> logger" where
  "got level l =
     \<lparr>log_handlers = (if log_handlers l = [] then [Console] else log_handlers l),
      log_level = (case level_of level of Inr v \<Rightarrow> v | Inl _ \<Rightarrow> 0), log_propagate = False\<rparr>"

lemma get_logger_fields:
  assumes "get_logger n level s = (s', Inr u)"
  shows "loggers s' = (loggers s)(n := got level (loggers s n))" "open_files s' = open_files s"
  using assms by (auto simp: get_logger_def Let_def upd_logger_def add_handler_def got_def split: sum.splits)

text \<open>Asking again for a logger never adds a second handler.\<close>

lemma got_again: "log_handlers (got level' (got level l)) = log_handlers (got level l)"
  by (simp add: got_def)

lemma attach_fields:
  assumes "attach ns level h s = (s', Inr u)" "distinct ns"
  shows "loggers s' = (\<lambda>n. if n \<in> set ns then add_handler h (got level (loggers s n)) else loggers s n)
    \<and> open_files s' = open_files s"
  using assms
proof (induction ns arbitrary: s)
  case (Cons n ns)
  obtain s1 where s1: "get_logger n level s = (s1, Inr ())" "attach ns level h (upd_logger n (add_handler h) s1) = (s', Inr u)"
    using Cons.prems(1) by (auto split: prod.splits sum.splits)
  have "loggers (upd_logger n (add_handler h) s1) = (loggers s)(n := add_handler h (got level (loggers s n)))"
    "open_files (upd_logger n (add_handler h) s1) = open_files s"
    by (simp_all add: upd_logger_def get_logger_fields [OF s1(1)])
  then show ?case using Cons.IH [OF s1(2)] Cons.prems(2) by (auto simp: fun_eq_iff)
qed (simp add: fun_eq_iff)

lemma LOG_NAMES_distinct: "distinct LOG_NAMES"
  by (simp add: LOG_NAMES_def)

lemma foldl_upd_logger:
  "distinct ns \<Longrightarrow> loggers (foldl (\<lambda>s n. upd_logger n (f n) s) s ns) = (\<lambda>n. if n \<in> set ns then f n (loggers s n) else loggers s n)"
  by (induction ns arbitrary: s) (auto simp: upd_logger_def fun_eq_iff)

lemma map_of_levels: "n \<in> set ns \<Longrightarrow> map_of (map (\<lambda>n. (n, g n)) ns) n = Some (g n)"
  by (induction ns) auto

end
