(* ===== verification/AlgorithmService.thy ===== *)
theory AlgorithmService
  imports TcpClient GraspPolicy ConfigLoader LogUtil
begin

text \<open>
  \<open>algorithm/algorithm_service.py\<close>: the algorithm module, a detector and a policy behind the
  callback of the TCP client. Its start from the configuration and its main loop are composed of
  the parts in the other theories.
\<close>

section \<open>The service\<close>

definition TEXT_NO_OBJECT :: string where (* nothing to grasp in the scene *)
  "TEXT_NO_OBJECT = utf8 [0x573A, 0x666F, 0x5185, 0x65E0, 0x53EF, 0x6293, 0x53D6, 0x76EE, 0x6807]"

record ('m, 'p) algorithm =
  detector :: "'m detector"
  policy :: "'p policy"

definition on_capture ::
  "int \<Rightarrow> pyval \<Rightarrow> ('m, 'p) algorithm \<Rightarrow> ('m, 'p) algorithm \<times> message option res" where
  "on_capture now tid a =
     (case detect (detector a) of (d, r) \<Rightarrow>
        let answer = (\<lambda>objects c txt. rbind
              (build_message DETECTION_RESULT ALGORITHM BACKEND
                 (Some [(''task_id'', tid), (''objects'', PList (map PDict objects))]) c txt now) (\<lambda>m. Inr (Some m)))
        in (a\<lparr>detector := d\<rparr>,
            rbind r (\<lambda>objects.
              if objects \<noteq> [] then rbind (refine_grasp (policy a) objects) (\<lambda>os. answer os SUCCESS ''success'')
              else answer objects DETECTION_EMPTY TEXT_NO_OBJECT)))"

definition algorithm_on_message :: "(('m, 'p) algorithm) callback" where
  "algorithm_on_message now m a =
     (if msg_type m \<noteq> CAPTURE_CMD then (a, Inr None)
      else on_capture now (get_or (data m) ''task_id'' (PStr [])) a)"

section \<open>Start\<close>

text \<open>\<open>AlgorithmService(config)\<close>: the service, and the address its client connects to.\<close>

definition new_algorithm ::
  "'m model_store \<Rightarrow> 'p model_store \<Rightarrow> pydict \<Rightarrow> logging \<Rightarrow> logging \<times> (('m, 'p) algorithm \<times> pyval \<times> pyval) res" where
  "new_algorithm ms ps config logs =
     (case get_logger ''algorithm.service'' (get_or config ''log_level'' (PStr ''INFO'')) logs of
        (logs1, Inl e) \<Rightarrow> (logs1, Inl e)
      | (logs1, Inr _) \<Rightarrow>
          (logs1,
           let use_mock = truthy (get_or config ''use_mock'' (PBool True))
           in rbind (new_detector ms (get_or config ''detector_model_path'' (PStr [])) use_mock) (\<lambda>d.
              rbind (new_policy ps (get_or config ''rl_policy_path'' (PStr [])) use_mock) (\<lambda>p.
              rbind (rbind (getitem config ''server'') (\<lambda>s. subscript s ''host'')) (\<lambda>host.
              rbind (rbind (getitem config ''server'') (\<lambda>s. subscript s ''port'')) (\<lambda>port.
                Inr (\<lparr>detector = d, policy = p\<rparr>, host, port)))))))"

text \<open>
  \<open>main\<close>: load the configuration, make the service, and run its client over the attempts the
  network grants. The result is what \<open>run_forever\<close> leaves.
\<close>

definition algorithm_main ::
  "files \<Rightarrow> string option \<Rightarrow> string \<Rightarrow> 'm model_store \<Rightarrow> 'p model_store \<Rightarrow> logging \<Rightarrow> attempt list
     \<Rightarrow> (('m, 'p) algorithm client \<times> rat list \<times> pyexc option) res" where
  "algorithm_main fs environ config_dir ms ps logs attempts =
     rbind (load_config fs environ config_dir []) (\<lambda>config.
       case get_logger ''algorithm.main'' (get_or config ''log_level'' (PStr ''INFO'')) logs of
         (logs1, Inl e) \<Rightarrow> Inl e
       | (logs1, Inr _) \<Rightarrow>
           rbind (snd (new_algorithm ms ps config logs1)) (\<lambda>(a, host, port).
             Inr (run_forever algorithm_on_message attempts 0 (new_client ALGORITHM a))))"

section \<open>What a mock service answers\<close>

lemma mock_object_complete: "refine_grasp p [mock_object n] = Inr [mock_object n]"
  by (rule refine_grasp_complete) (simp add: mock_object_def Let_def)

definition detection_message :: "int \<Rightarrow> pyval \<Rightarrow> nat \<Rightarrow> message" where
  "detection_message now tid k =
     \<lparr>msg_type = DETECTION_RESULT, source = ALGORITHM, target = BACKEND,
      code = (if k mod 4 = 3 then DETECTION_EMPTY else SUCCESS),
      msg = (if k mod 4 = 3 then TEXT_NO_OBJECT else ''success''),
      data = [(''task_id'', tid),
              (''objects'', PList (if k mod 4 = 3 then [] else [PDict (mock_object (2 - int (k mod 4)))]))],
      timestamp = now\<rparr>"

lemma capture_answer:
  assumes "mock_after k (detector a)" "msg_type m = CAPTURE_CMD"
  shows "snd (algorithm_on_message now m a) = Inr (Some (detection_message now (get_or (data m) ''task_id'' (PStr [])) k))"
    and "mock_after (Suc k) (detector (fst (algorithm_on_message now m a)))"
proof -
  let ?tid = "get_or (data m) ''task_id'' (PStr [])"
  note d = mock_after_detect [OF assms(1)]
  obtain d' where p: "detect (detector a) = (d', Inr (if k mod 4 = 3 then [] else [mock_object (2 - int (k mod 4))]))"
    using d(2) by (cases "detect (detector a)") simp
  have n: "DETECTION_RESULT \<noteq> []" "ALGORITHM \<noteq> []" "BACKEND \<noteq> []" by (simp_all add: protocol_consts)
  show "snd (algorithm_on_message now m a) = Inr (Some (detection_message now ?tid k))"
    using assms(2) by (simp add: algorithm_on_message_def on_capture_def p mock_object_complete build_message_eq [OF n] detection_message_def)
  show "mock_after (Suc k) (detector (fst (algorithm_on_message now m a)))"
    using assms(2) d(1) by (simp add: algorithm_on_message_def on_capture_def p)
qed

end
