(* ===== verification/ModuleLink.thy ===== *)
theory ModuleLink
  imports AlgorithmService SampleRun
begin

text \<open>
  The two ends of the protocol together: what the client of a module writes, the server of the
  gateway understands, and what the server answers, the client understands. And what the mock
  detector of the algorithm module reports, the gateway can plan.
\<close>

section \<open>Times and lines\<close>

text \<open>A clock in milliseconds, for the next thirty thousand years.\<close>

definition clock_ok :: "int \<Rightarrow> bool" where
  "clock_ok now \<longleftrightarrow> 0 \<le> now \<and> now < 10 ^ 15"

lemma show_nat_length: "n < 10 ^ k \<Longrightarrow> 0 < k \<Longrightarrow> length (show_nat n) \<le> k"
proof (induction k arbitrary: n)
  case (Suc k)
  show ?case
  proof (cases "n < 10")
    case True
    then show ?thesis by (subst show_nat.simps) simp
  next
    case False
    then have "0 < k" using Suc.prems(1) by (cases k) auto
    moreover have "n < 10 * m \<Longrightarrow> n div 10 < m" for m :: int by presburger
    then have "n div 10 < 10 ^ k" using Suc.prems(1) by simp
    ultimately show ?thesis using Suc.IH [of "n div 10"] False by (subst show_nat.simps) simp
  qed
qed simp

lemma clock_digits: "clock_ok now \<Longrightarrow> length (show_nat now) \<le> 15"
  using show_nat_length [of now 15] by (simp add: clock_ok_def)

definition register_of :: "string \<Rightarrow> int \<Rightarrow> message" where
  "register_of md now =
     \<lparr>msg_type = REGISTER, source = md, target = BACKEND, code = SUCCESS, msg = ''success'',
      data = [(''module'', PStr md)], timestamp = now\<rparr>"

definition heartbeat_of :: "string \<Rightarrow> int \<Rightarrow> message" where
  "heartbeat_of md now =
     \<lparr>msg_type = HEARTBEAT, source = md, target = BACKEND, code = SUCCESS, msg = ''success'',
      data = [], timestamp = now\<rparr>"

definition ack_of :: "string \<Rightarrow> string \<Rightarrow> int \<Rightarrow> message" where
  "ack_of ty md now =
     \<lparr>msg_type = ty, source = BACKEND, target = md, code = SUCCESS, msg = ''success'', data = [], timestamp = now\<rparr>"

lemma built:
  assumes "md \<in> set REGISTRABLE"
  shows "register_message md now = Inr (register_of md now)" "heartbeat_message md now = Inr (heartbeat_of md now)"
    "ty \<in> {REGISTER_ACK, HEARTBEAT_ACK} \<Longrightarrow> build_message ty BACKEND md None SUCCESS ''success'' now = Inr (ack_of ty md now)"
  using assms
  by (auto simp: register_message_def heartbeat_message_def build_message_def register_of_def heartbeat_of_def ack_of_def
      REGISTRABLE_def protocol_consts)

lemma link_plain:
  assumes "md \<in> set REGISTRABLE" "clock_ok now"
  shows "plain_message (register_of md now)" "plain_message (heartbeat_of md now)"
    "ty \<in> {REGISTER_ACK, HEARTBEAT_ACK} \<Longrightarrow> plain_message (ack_of ty md now)"
  using assms(1) clock_digits [OF assms(2)] assms(2)
  by (auto simp: plain_message_def register_of_def heartbeat_of_def ack_of_def msg_dict_def REGISTRABLE_def
      protocol_consts show_nat_small MAX_DIGITS_def clock_ok_def)

lemma link_wf:
  assumes "md \<in> set REGISTRABLE" "clock_ok now"
  shows "wf_message (register_of md now)" "wf_message (heartbeat_of md now)"
  using assms by (auto simp: wf_message_def register_of_def heartbeat_of_def REGISTRABLE_def protocol_consts clock_ok_def)

lemma link_whole:
  assumes "md \<in> set REGISTRABLE" "clock_ok now"
  shows "\<not> line_ends (line_of (register_of md now))" "\<not> line_ends (line_of (heartbeat_of md now))"
proof -
  have n: "length (show_int now) \<le> 15" "show_int now = show_nat now"
    using clock_digits [OF assms(2)] assms(2) by (simp_all add: show_int_def clock_ok_def)
  have "length (dumps (PDict (msg_dict (register_of md now)))) \<le> 1000"
      "length (dumps (PDict (msg_dict (heartbeat_of md now)))) \<le> 1000"
    using assms(1) n by (auto simp: register_of_def heartbeat_of_def msg_dict_def protocol_consts REGISTRABLE_def
        show_str_def show_int_def show_nat_small escape_def QUOTE_def BACKSLASH_def digit_def)
  then show "\<not> line_ends (line_of (register_of md now))" "\<not> line_ends (line_of (heartbeat_of md now))"
    by (intro line_of_whole; simp add: MAX_LINE_BYTES_def)+
qed

section \<open>Registration and heartbeats\<close>

lemma register_line:
  assumes md: "md \<in> set REGISTRABLE" and t: "clock_ok t1" "clock_ok t2"
    and c: "conns s c = Some x" "module_id x = []" "\<not> writer_closing x" and new: "dget (sessions s) md = None"
  shows "handle_line on_biz on_disc t2 tick c (line_of (register_of md t1)) s =
    s\<lparr>conns := (conns s)(c \<mapsto> x\<lparr>reply_target := md, module_id := md, last_heartbeat := tick\<rparr>),
      sessions := dset md c (sessions s), sent := sent s @ [(c, ack_of REGISTER_ACK md t2)]\<rparr>"
proof -
  let ?m = "register_of md t1"
  have d: "decode_message (line_of ?m) = Inr (Some (msg_dict ?m))"
    by (rule plain_decodes [OF link_wf(1) [OF md t(1)] link_plain(1) [OF md t(1)]])
  have e: "encode_message (ack_of REGISTER_ACK md t2) = Inr (line_of (ack_of REGISTER_ACK md t2))"
    by (rule plain_encodes [OF link_plain(3) [OF md t(2)]]) simp
  have f: "msg_type ?m = REGISTER" "source ?m = md" "target ?m = BACKEND" "data ?m = [(''module'', PStr md)]"
    by (simp_all add: register_of_def)
  show ?thesis
    using c new md
    by (simp add: handle_line_def link_whole(1) [OF md t(1)] process_line_def d route_message_def Let_def f
        handle_register_def complete_register_def built(3) [OF md] reply_def e write_to_def is_closing_def upd_session_def)
qed

lemma heartbeat_line:
  assumes md: "md \<in> set REGISTRABLE" and t: "clock_ok t1" "clock_ok t2"
    and c: "conns s c = Some x" "module_id x = md" "\<not> writer_closing x"
  shows "handle_line on_biz on_disc t2 tick c (line_of (heartbeat_of md t1)) s =
    s\<lparr>conns := (conns s)(c \<mapsto> x\<lparr>last_heartbeat := tick\<rparr>), sent := sent s @ [(c, ack_of HEARTBEAT_ACK md t2)]\<rparr>"
proof -
  let ?m = "heartbeat_of md t1"
  have d: "decode_message (line_of ?m) = Inr (Some (msg_dict ?m))"
    by (rule plain_decodes [OF link_wf(2) [OF md t(1)] link_plain(2) [OF md t(1)]])
  have e: "encode_message (ack_of HEARTBEAT_ACK md t2) = Inr (line_of (ack_of HEARTBEAT_ACK md t2))"
    by (rule plain_encodes [OF link_plain(3) [OF md t(2)]]) simp
  have f: "msg_type ?m = HEARTBEAT" "source ?m = md" "target ?m = BACKEND" "HEARTBEAT \<noteq> REGISTER"
    by (simp_all add: heartbeat_of_def protocol_consts)
  show ?thesis
    using c REGISTRABLE_nonempty [OF md]
    by (simp add: handle_line_def link_whole(2) [OF md t(1)] process_line_def d route_message_def Let_def f
        built(3) [OF md] reply_def e write_to_def is_closing_def upd_session_def)
qed

text \<open>What a fresh connection of a client writes first.\<close>

lemma client_registers:
  assumes "own_id cl \<in> set REGISTRABLE" "clock_ok now"
  shows "send_built (register_message (own_id cl) now) (cl\<lparr>writer_set := True\<rparr>)
    = (cl\<lparr>writer_set := True, written := written cl @ [register_of (own_id cl) now]\<rparr>, Inr ())"
  by (simp add: send_built_def built(1) [OF assms(1)] client_send_def plain_encodes [OF link_plain(1) [OF assms]])

lemma client_beats:
  assumes "own_id cl \<in> set REGISTRABLE" "clock_ok now" "writer_set cl"
  shows "send_built (heartbeat_message (own_id cl) now) cl
    = (cl\<lparr>written := written cl @ [heartbeat_of (own_id cl) now]\<rparr>, Inr ())"
  using assms(3)
  by (simp add: send_built_def built(2) [OF assms(1)] client_send_def plain_encodes [OF link_plain(2) [OF assms(1,2)]])

lemma client_takes_ack:
  assumes "ty \<in> {REGISTER_ACK, HEARTBEAT_ACK}"
  shows "client_dispatch f now (ack_of ty md t) cl = (cl, Inr ())"
  using assms by (auto simp: client_dispatch_def ack_of_def)

section \<open>A detection of the mock can be planned\<close>

lemma mock_floats:
  assumes "n \<in> {0, 1, 2}"
  shows "isfinite (f64 (7 / 20) + f64 (1 / 20) * Fin (of_int n))" "isfinite (- f64 (3 / 25))" "isfinite (f64 (2 / 25))"
proof -
  have B: "\<exists>v. f64 x = Fin v \<and> \<bar>v\<bar> \<le> 1" if "\<bar>x\<bar> \<le> 1" for x
    by (rule f64_bounded [of x 0]) (use that in auto)
  obtain a b where ab: "f64 (7 / 20) = Fin a" "\<bar>a\<bar> \<le> 1" "f64 (1 / 20) = Fin b" "\<bar>b\<bar> \<le> 1"
    using B [of "7 / 20"] B [of "1 / 20"] by auto
  have n: "\<bar>of_int n :: rat\<bar> \<le> 2" using assms by auto
  have C: "\<exists>v. f64 x = Fin v \<and> \<bar>v\<bar> \<le> 2 ^ k" if "\<bar>x\<bar> \<le> 2 ^ k" "k \<le> 10" for x and k :: nat
    by (rule f64_bounded [of x "int k"]) (use that in auto)
  have "\<bar>b * of_int n\<bar> \<le> 1 * 2" unfolding abs_mult by (rule mult_mono) (use ab n in auto)
  then obtain c where c: "f64 (b * of_int n) = Fin c" "\<bar>c\<bar> \<le> 2" using C [of "b * of_int n" 1] by auto
  have "\<bar>a + c\<bar> \<le> 4" using ab(2) c(2) by (simp add: abs_le_iff)
  then obtain p where p: "f64 (a + c) = Fin p" using C [of "a + c" 2] by auto
  let ?m = "f64 (1 / 20) * Fin (of_int n)"
  have "fval ?m = Some c" using ab(3) c(1) by simp
  from plus_fval [OF _ this, of "Fin a" a] show "isfinite (f64 (7 / 20) + ?m)" unfolding ab(1) using p by auto
  obtain q r where "f64 (3 / 25) = Fin q" "f64 (2 / 25) = Fin r" using B [of "3 / 25"] B [of "2 / 25"] by auto
  then show "isfinite (- f64 (3 / 25))" "isfinite (f64 (2 / 25))" by simp_all
qed

text \<open>The mock's orientation is a unit quaternion; \<open>math.hypot\<close> of it is exactly one.\<close>

definition unit_hypot :: "'a lib_scheme \<Rightarrow> bool" where
  "unit_hypot L \<longleftrightarrow> lib_hypot L [Fin 0, Fin 0, Fin 0, Fin 1] = Fin 1"

lemma mock_target_request:
  assumes L: "strict_numbers L" "unit_hypot L" and n: "n \<in> {0, 1, 2}"
  obtains rq where "target_request L (PDict (mock_object n)) = Inr rq"
    "rq_joint_angles rq = None" "rq_force_limit rq = Fin 5"
proof -
  obtain p q r where f: "f64 (7 / 20) + f64 (1 / 20) * Fin (of_int n) = p" "- f64 (3 / 25) = q" "f64 (2 / 25) = r" by blast
  note fin = mock_floats [OF n, unfolded f]
  obtain e where e: "NORM_MIN = Fin e" "1 / (2 * 10 ^ 12) \<le> e" "e \<le> 11 / 10 ^ 13"
    by (rule f64_small [of "1 / 10 ^ 12"]) (simp_all add: NORM_MIN_def)
  have "e \<le> 1" using e(3) by (rule order_trans) simp
  then have "\<not> Fin 1 < NORM_MIN" by (simp add: e(1))
  then have "validate_orientation L [Fin 0, Fin 0, Fin 0, Fin 1] = Inr [Fin 0, Fin 0, Fin 0, Fin 1]"
    using L(2) by (simp add: validate_orientation_def unit_hypot_def)
  then have v: "validate_pose L (PDict
      [(''position'', PList [PFloat p, PFloat q, PFloat r]),
       (''orientation'', PList [PFloat (Fin 0), PFloat (Fin 0), PFloat (Fin 0), PFloat (Fin 1)])]) =
      Inr \<lparr>position = [p, q, r], orientation = [Fin 0, Fin 0, Fin 0, Fin 1]\<rparr>"
    by (simp add: validate_pose_def field_def strict_numbersD(1) [OF L(1)] fin no_extra_def guard_def)
  have "target_request L (PDict (mock_object n)) =
      Inr \<lparr>rq_grasp_pose = \<lparr>position = [p, q, r], orientation = [Fin 0, Fin 0, Fin 0, Fin 1]\<rparr>,
           rq_joint_angles = None, rq_force_limit = Fin 5\<rparr>"
    by (simp add: target_request_def mock_object_def Let_def f get_or_def validate_request_def v field_or_def field_def
        read_pos_def strict_numbersD(1) [OF L(1)] fin MOCK_FORCE_LIMIT_def no_extra_def guard_def)
  then show ?thesis by (rule that) simp_all
qed

text \<open>From the report of the mock to the wait for the submission lock.\<close>

lemma mock_detection_submitted:
  assumes L: "strict_numbers L" "unit_hypot L" and k: "k mod 4 \<noteq> 3"
    and task: "dget (tasks s) tid = Some i" "i < length (task_objs s)" "\<not> t_finished (task_obj s i)" "\<not> t_awaiting (task_obj s i)"
    and r: "has_robot s" "\<not> maximum_force S < Fin 5"
  obtains rq s' where
    "on_detection_result now (detection_message t (PStr tid) k) s = (s', Inr None)"
    "dget (background s') (next_bg s) = Some (BgPlan i (PDict (mock_object (2 - int (k mod 4)))))"
    "t_awaiting (task_obj s' i)"
    "plan_target_start L S now (next_bg s) i (PDict (mock_object (2 - int (k mod 4)))) s' = await_at (next_bg s) (BgSubmit i rq) s'"
    "target_request L (PDict (mock_object (2 - int (k mod 4)))) = Inr rq"
proof -
  let ?n = "2 - int (k mod 4)"
  have "k mod 4 < 4" by simp
  with k have "k mod 4 = 0 \<or> k mod 4 = 1 \<or> k mod 4 = 2" by linarith
  then have n: "?n \<in> {0, 1, 2}" by auto
  obtain rq where rq: "target_request L (PDict (mock_object ?n)) = Inr rq" "rq_joint_angles rq = None" "rq_force_limit rq = Fin 5"
    by (rule mock_target_request [OF L n])
  have c: "submit_check S rq = Inr ()" using r(2) rq(2,3) by (simp add: submit_check_def)
  have d: "data (detection_message t (PStr tid) k) = [(''task_id'', PStr tid), (''objects'', PList [PDict (mock_object ?n)])]"
    using k by (simp add: detection_message_def)
  let ?s = "schedule (BgPlan i (PDict (mock_object ?n))) (upd_task i (\<lambda>t. t\<lparr>t_awaiting := True\<rparr>) s)"
  show ?thesis
  proof (rule that [of ?s rq])
    show "on_detection_result now (detection_message t (PStr tid) k) s = (?s, Inr None)"
      using task r(1) by (simp add: on_detection_result_def d get_or_def find_task_def)
    show "dget (background ?s) (next_bg s) = Some (BgPlan i (PDict (mock_object ?n)))"
      by (simp add: schedule_def upd_task_def dict_simps)
    show "t_awaiting (task_obj ?s i)" using task(2) by (simp add: schedule_def upd_task_def task_obj_def)
    show "plan_target_start L S now (next_bg s) i (PDict (mock_object ?n)) ?s = await_at (next_bg s) (BgSubmit i rq) ?s"
      by (simp add: plan_target_start_def rq c)
  qed (rule rq(1))
qed

end
