(* ===== verification/DetectionTasks.thy ===== *)
theory DetectionTasks
  imports CommandRuns
begin

text \<open>
  The detection tasks of the dispatch service over whole runs: at most one is open at any time,
  its dictionary and its heap agree, and a task that is finished stays so.
\<close>

section \<open>The invariant\<close>

definition open_tasks :: "'a dispatch_scheme \<Rightarrow> (string \<times> nat) list" where
  "open_tasks s = filter (\<lambda>p. \<not> t_finished (task_obj s (snd p))) (tasks s)"

definition detect_inv :: "'a dispatch_scheme \<Rightarrow> bool" where
  "detect_inv s \<longleftrightarrow> has_robot s \<and> length (open_tasks s) \<le> 1
     \<and> (\<forall>(tid, k) \<in> set (tasks s). k < length (task_objs s) \<and> t_id (task_obj s k) = tid)"

text \<open>What any stretch of a run keeps: the invariant, every task object, its id, and its end.\<close>

definition evolves :: "'a dispatch_scheme \<Rightarrow> 'a dispatch_scheme \<Rightarrow> bool" where
  "evolves s s' \<longleftrightarrow> (detect_inv s \<longrightarrow> detect_inv s') \<and> length (task_objs s) \<le> length (task_objs s')
     \<and> (\<forall>k < length (task_objs s). t_id (task_obj s' k) = t_id (task_obj s k)
          \<and> (t_finished (task_obj s k) \<longrightarrow> t_finished (task_obj s' k)))"

lemma evolves_refl [simp]: "evolves s s"
  by (simp add: evolves_def)

lemma evolves_trans: "evolves s s1 \<Longrightarrow> evolves s1 s2 \<Longrightarrow> evolves s s2"
  unfolding evolves_def by (metis order.trans order_less_le_trans)

definition detect_part where
  "detect_part s = (tasks s, task_objs s, has_robot s)"

lemma evolves_part: "detect_part s' = detect_part s \<Longrightarrow> evolves r s' = evolves r s"
  by (simp add: evolves_def detect_inv_def open_tasks_def task_obj_def detect_part_def)

lemma evolves_more: "adapter.more s' = adapter.more s \<Longrightarrow> evolves r s' = evolves r s"
  by (rule evolves_part) (cases s; cases s'; simp add: detect_part_def)

lemma task_obj_upd:
  "task_obj (upd_task k f s) j = (if j = k \<and> k < length (task_objs s) then f (task_obj s j) else task_obj s j)"
  by (auto simp: task_obj_def upd_task_def)

lemma upd_task_fields: "tasks (upd_task k f s) = tasks s" "length (task_objs (upd_task k f s)) = length (task_objs s)"
  "has_robot (upd_task k f s) = has_robot s"
  by (simp_all add: upd_task_def)

lemma length_filter_mono: "(\<And>x. x \<in> set xs \<Longrightarrow> P x \<Longrightarrow> Q x) \<Longrightarrow> length (filter P xs) \<le> length (filter Q xs)"
  by (induction xs) (auto simp: le_SucI)

lemma evolves_upd:
  assumes "\<And>t. t_id (f t) = t_id t" "\<And>t. t_finished t \<Longrightarrow> t_finished (f t)"
  shows "evolves s (upd_task k f s)"
proof -
  have "length (open_tasks (upd_task k f s)) \<le> length (open_tasks s)"
    unfolding open_tasks_def upd_task_fields by (rule length_filter_mono) (auto simp: task_obj_upd assms(2) split: if_splits)
  then show ?thesis
    unfolding evolves_def detect_inv_def upd_task_fields by (auto simp: task_obj_upd assms split: if_splits)
qed

lemma filter_dset: "\<forall>p \<in> set d. \<not> P p \<Longrightarrow> length (filter P (dset k v d)) \<le> 1"
  by (induction d) auto

lemma set_dset: "set (dset k v d) \<subseteq> insert (k, v) (set d)"
  by (induction d) auto

lemma evolves_new_task:
  assumes "\<not> list_ex (\<lambda>(_, k). \<not> t_finished (task_obj s k)) (tasks s)" "t_id t = tid"
  shows "evolves s (s\<lparr>task_objs := task_objs s @ [t], tasks := dset tid (length (task_objs s)) (tasks s)\<rparr>)"
    (is "evolves s ?s")
proof -
  have o: "task_obj ?s j = (if j = length (task_objs s) then t else task_obj s j)" for j
    by (auto simp: task_obj_def nth_append)
  have "detect_inv ?s" if I: "detect_inv s"
  proof -
    let ?P = "\<lambda>p. \<not> t_finished (task_obj ?s (snd p))"
    have "\<forall>p \<in> set (tasks s). \<not> ?P p"
      using assms(1) I by (auto simp: o list_ex_iff detect_inv_def)
    then have "length (filter ?P (dset tid (length (task_objs s)) (tasks s))) \<le> 1" by (rule filter_dset)
    then have "length (open_tasks ?s) \<le> 1" by (simp add: open_tasks_def)
    moreover have "k < length (task_objs ?s) \<and> t_id (task_obj ?s k) = i" if "(i, k) \<in> set (tasks ?s)" for i k
    proof -
      have "(i, k) = (tid, length (task_objs s)) \<or> (i, k) \<in> set (tasks s)"
        using that set_dset [of tid "length (task_objs s)" "tasks s"] by auto
      then show ?thesis using I assms(2) by (auto simp: o detect_inv_def)
    qed
    ultimately show ?thesis using I by (auto simp: detect_inv_def)
  qed
  then show ?thesis by (simp add: evolves_def o)
qed

section \<open>The operations of the dispatch service\<close>

lemma evolves_frame [simp]:
  "evolves r (discard i s) = evolves r s" "evolves r (await_at i b s) = evolves r s"
  "evolves r (schedule b s) = evolves r s" "evolves r (fst (send_async md x s)) = evolves r s"
  "evolves r (push_task_result now k s) = evolves r s"
  by (rule evolves_part;
      simp add: detect_part_def discard_def await_at_def schedule_def send_async_def push_task_result_def split: sum.split)+

lemma evolves_upd_task [intro]:
  "evolves r s \<Longrightarrow> (\<And>t. t_id (f t) = t_id t) \<Longrightarrow> (\<And>t. t_finished t \<Longrightarrow> t_finished (f t)) \<Longrightarrow> evolves r (upd_task k f s)"
  by (rule evolves_trans) (auto intro: evolves_upd)

lemma evolves_ops [simp]:
  assumes "evolves r s"
  shows "evolves r (fail_task now c x k s)" "evolves r (plan_refused L now e k s)"
    "evolves r (dispatch_on_finished now k v s)" "evolves r (plan_target_done L now i k y s)"
    "evolves r (plan_target_start L S now i k obj s)"
proof -
  show f: "evolves r (fail_task now c x k s)" for c x using assms by (auto simp: fail_task_def)
  show p: "evolves r (plan_refused L now e k s)" for e using assms f by (simp add: plan_refused_def split: gexc.split)
  show "evolves r (dispatch_on_finished now k v s)" using assms by (auto simp: dispatch_on_finished_def)
  show "evolves r (plan_target_done L now i k y s)" using assms p by (auto simp: plan_target_done_def split: sum.split)
  show "evolves r (plan_target_start L S now i k obj s)" using assms p by (simp add: plan_target_start_def split: sum.split)
qed

lemma evolves_for_tasks:
  assumes "\<And>k s. evolves r s \<Longrightarrow> evolves r (f k s)" "evolves r s"
  shows "evolves r (for_tasks f s)"
proof -
  have "evolves r s \<Longrightarrow> evolves r (foldl (\<lambda>s k. f k s) s ks)" for ks s
    by (induction ks arbitrary: s) (simp_all add: assms(1))
  then show ?thesis using assms(2) by (simp add: for_tasks_def)
qed

lemma evolves_on_disconnect: "evolves r s \<Longrightarrow> evolves r (dispatch_on_disconnect now md s)"
  by (simp add: dispatch_on_disconnect_def evolves_for_tasks)

lemma evolves_no_robot: "\<not> has_robot s \<Longrightarrow> has_robot s' = has_robot s \<Longrightarrow> length (task_objs s) \<le> length (task_objs s') \<Longrightarrow>
   (\<And>k. k < length (task_objs s) \<Longrightarrow> task_obj s' k = task_obj s k) \<Longrightarrow> evolves s s'"
  by (simp add: evolves_def detect_inv_def)

lemma evolves_on_task_start: "evolves s (fst (on_task_start now m s))"
proof -
  let ?v = "get_or (data m) ''task_id'' (PStr [])"
  let ?t = "new_task (str_of (Some ?v)) (get_or (data m) ''category'' (PStr []))"
  let ?s = "s\<lparr>task_objs := task_objs s @ [?t], tasks := dset (str_of (Some ?v)) (length (task_objs s)) (tasks s)\<rparr>"
  have "evolves s ?s" if "\<not> (has_robot s \<and> list_ex (\<lambda>(_, k). \<not> t_finished (task_obj s k)) (tasks s))"
  proof (cases "has_robot s")
    case True
    then show ?thesis using that by (intro evolves_new_task) (simp_all add: new_task_def)
  next
    case False
    then show ?thesis by (intro evolves_no_robot) (simp_all add: task_obj_def nth_append)
  qed
  then show ?thesis by (simp add: on_task_start_def Let_def refuse_def)
qed

lemma evolves_on_message: "evolves r s \<Longrightarrow> evolves r (fst (dispatch_on_message now m s))"
proof -
  assume r: "evolves r s"
  have "evolves r (fst (on_task_start now m s))" by (rule evolves_trans [OF r evolves_on_task_start])
  moreover have "evolves r (fst (on_detection_result now m s))"
    using r by (auto simp: on_detection_result_def Let_def split: sum.split option.split)
  moreover have "evolves r (fst (on_motion_status now m s))"
    using r by (auto simp: on_motion_status_def Let_def split: sum.split option.split)
  moreover have "evolves r (fst (on_error_report m s))"
    using r by (auto simp: on_error_report_def intro!: evolves_for_tasks)
  ultimately show ?thesis using r by (simp add: dispatch_on_message_def refuse_def)
qed

interpretation detect: above_server "evolves r" "gateway_on_message now" "gateway_on_disconnect now" for r now
proof unfold_locales
  fix s s' :: "'a dispatch_scheme" assume "server.more s' = server.more s"
  then show "evolves r s' = evolves r s" using adapter_cong evolves_more by blast
next
  fix s :: "'a dispatch_scheme" and m assume s: "evolves r s"
  then have "evolves r (fst (adapter_on_message m s))" using evolves_more [OF adapter_on_message_more] by blast
  then show "evolves r (fst (gateway_on_message now m s))" by (simp add: gateway_on_message_fst evolves_on_message)
next
  fix s :: "'a dispatch_scheme" and md assume s: "evolves r s"
  then have "evolves r (adapter_on_disconnect md s)" using evolves_more [OF adapter_on_disconnect_more] by blast
  then show "evolves r (gateway_on_disconnect now md s)" by (simp add: gateway_on_disconnect_def evolves_on_disconnect)
qed

section \<open>Every step of the gateway\<close>

lemma evolves_robot:
  "evolves r (set_phase p s) = evolves r s" "evolves r (run_end s) = evolves r s"
  "evolves r (s\<lparr>db := t\<rparr>) = evolves r s" "evolves r (release_submission s) = evolves r s"
  "evolves r (submit_cancel s) = evolves r s" "evolves r (fst (submit_enter tid rq cb s)) = evolves r s"
  "evolves r (close_request s) = evolves r s" "evolves r (close_finish dbok now s) = evolves r s"
  "evolves r (fst (submit_created dbok now s)) = evolves r s"
  "evolves r (fst (submit_aborted dbok now s)) = evolves r s"
  "evolves r (fst (submit_abandoned dbok now s)) = evolves r s"
  "evolves r (s\<lparr>sub_lock := l\<rparr>) = evolves r s"
  by (rule evolves_part, simp add: detect_part_def set_phase_def run_end_def release_submission_def submit_cancel_def
      submit_enter_def close_request_def close_finish_def submit_created_def submit_aborted_def
      submit_abandoned_def split: submission.split option.split sum.split bool.split)+

lemma evolves_run_save: "evolves r (run_save L S w k x s) = evolves r s"
  by (simp add: run_save_def evolves_robot evolves_more [OF adapter_more(2)] split: prod.split)

lemma evolves_run_start: "evolves r (run_start free L S now w s) = evolves r s"
proof -
  obtain s1 k res where b: "plan_begin free now (w_task w) (w_payload w) s = (s1, k, res)"
    by (cases "plan_begin free now (w_task w) (w_payload w) s") auto
  have "evolves r s1 = evolves r s" by (rule evolves_more) (rule plan_begin_fields(4) [OF b])
  then show ?thesis
    by (simp add: run_start_def b evolves_run_save evolves_robot split: sum.split sending.split)
qed

lemma evolves_send_write: "evolves r (fst (send_write c m s)) = evolves r s"
  by (rule evolves_more) (simp add: adapter_cong [OF server_more(7)])

lemma evolves_run_queued: "evolves r (run_queued L S w k c m s) = evolves r s"
  using evolves_send_write [of r c m s]
  by (cases "send_write c m s") (simp add: run_queued_def evolves_run_save evolves_robot split: sum.split)

lemma evolves_run_cancel: "evolves r (run_cancel L S thr now w s) = evolves r s"
  by (simp add: run_cancel_def evolves_run_save evolves_robot split: phase.split sum.split)

lemma evolves_close_enter: "evolves r (close_enter L S delivered thr now s) = evolves r s"
  by (simp add: close_enter_def Let_def evolves_run_cancel evolves_robot split: option.split)

lemma evolves_dispatch_close: "evolves r (dispatch_close s) = evolves r s"
proof -
  have one: "evolves r (background_cancel s p) = evolves r s" for p and s :: "'a dispatch_scheme"
    by (cases p; cases "snd p") (simp_all add: background_cancel_def evolves_robot)
  have "evolves r (foldl background_cancel s ps) = evolves r s" for ps and s :: "'a dispatch_scheme"
    by (induction ps arbitrary: s) (simp_all add: one)
  then show ?thesis by (simp add: dispatch_close_def)
qed

lemma evolves_after_submit: "evolves r (fst p) \<Longrightarrow> evolves r (after_submit L now cb p)"
  by (cases p) (simp add: after_submit_def split: option.split)

lemma gstep_evolves:
  assumes "gstep L S B s s'"
  shows "evolves s s'"
  using assms
proof cases
  case (plan_enter i k rq now tid)
  then show ?thesis
    using evolves_robot(6) [of s tid rq "Some k" s]
    by (cases "submit_enter tid rq (Some k) s") (simp add: plan_target_enter_def split: sum.split)
next
  case (notified w now dbok)
  then show ?thesis by (simp add: run_notified_def evolves_robot split: prod.split option.split sum.split)
next
  case (drained w r c now ok)
  then show ?thesis
    using detect.above_send_finish [OF evolves_refl, of s now ok c]
    by (cases ok) (simp_all add: run_sent_def Let_def evolves_robot evolves_run_save)
next
  case (saved w st rs er dbok now)
  then show ?thesis by (simp add: run_saved_def evolves_robot split: sum.split)
next
  case (send i md m free)
  have "evolves s (fst (send_start free md m s))" using detect.above_fields(6) [of s] evolves_refl by blast
  then show ?thesis
    using send by (cases "send_start free md m s") (simp add: background_send_def split: sum.split sending.split)
next
  case (granted i c m)
  then show ?thesis
    using evolves_send_write [of s c m s]
    by (cases "send_write c m s") (simp add: background_queued_def split: sum.split)
qed (simp_all add: evolves_robot evolves_run_save evolves_run_start evolves_run_queued evolves_close_enter
      evolves_dispatch_close evolves_after_submit run_reply_def run_timeout_def background_sent_def
      detect.above_connect detect.above_handle_line detect.above_fields detect.above_end_client
      detect.above_patrol detect.above_send_finish detect.above_close_clients)

lemma gsteps_evolves: "gsteps L S B s s' \<Longrightarrow> evolves s s'"
  by (induction rule: gsteps.induct) (auto dest: gstep_evolves intro: evolves_trans)

lemma reachable_detect_inv: "reachable L S disk A s \<Longrightarrow> detect_inv s"
proof (induction rule: reachable.induct)
  case (start now)
  show ?case by (simp add: gateway_start_def detect_inv_def open_tasks_def)
next
  case (step A s B s')
  then show ?case using gstep_evolves [OF step(2)] unfolding evolves_def by blast
qed

text \<open>A task that awaits its plan is not ended by the loss of the algorithm module.\<close>

lemma fail_task_other: "j \<noteq> k \<Longrightarrow> task_obj (fail_task now c x j s) k = task_obj s k"
  by (simp add: fail_task_def push_task_result_def send_async_def schedule_def task_obj_def upd_task_def split: sum.split)

lemma awaiting_kept:
  assumes "\<not> t_finished (task_obj s k)" "t_awaiting (task_obj s k)"
  shows "\<not> t_finished (task_obj (dispatch_on_disconnect now md s) k)"
proof -
  define f where "f = (\<lambda>k (s :: 'a dispatch_scheme). if \<not> t_finished (task_obj s k) \<and> \<not> t_awaiting (task_obj s k)
    then fail_task now TARGET_OFFLINE TEXT_ALGORITHM_LOST k s else s)"
  have f: "task_obj (f j s) k = task_obj s k" if "\<not> t_finished (task_obj s k)" "t_awaiting (task_obj s k)" for j s
    using that by (cases "j = k") (simp_all add: f_def fail_task_other)
  have "task_obj (foldl (\<lambda>s j. f j s) s ks) k = task_obj s k" for ks
    using assms by (induction ks arbitrary: s) (simp_all add: f)
  then show ?thesis using assms by (simp add: dispatch_on_disconnect_def for_tasks_def flip: f_def)
qed

end
