(* ===== verification/SampleTask.thy ===== *)
theory SampleTask
  imports SampleRun ModuleLink DetectionTasks
begin

text \<open>A run in which the algorithm module and a frontend register, and a detection task starts.\<close>

definition sample_start :: message where
  "sample_start =
     \<lparr>msg_type = TASK_START, source = FRONTEND, target = BACKEND, code = 0, msg = [],
      data = [(''task_id'', PStr ''s'')], timestamp = 0\<rparr>"

lemma sample_start_line:
  "plain_message sample_start" "wf_message sample_start" "\<not> line_ends (line_of sample_start)"
proof -
  show "plain_message sample_start"
    by (simp add: plain_message_def sample_start_def msg_dict_def protocol_consts show_nat_small MAX_DIGITS_def)
  show "wf_message sample_start" by (simp add: wf_message_def sample_start_def protocol_consts)
  show "\<not> line_ends (line_of sample_start)"
    by (rule line_of_whole) (simp add: sample_start_def msg_dict_def protocol_consts show_str_def show_int_def
        show_nat_small MAX_LINE_BYTES_def escape_def QUOTE_def BACKSLASH_def digit_def)
qed

definition link0 :: gateway where
  "link0 = handle_line (gateway_on_message 0) (gateway_on_disconnect 0) 0 (Fin 0) 0 (line_of (register_of ALGORITHM 0))
     (connect (Fin 0) 0 (gateway_start 0 None))"

definition link1 :: gateway where
  "link1 = handle_line (gateway_on_message 0) (gateway_on_disconnect 0) 0 (Fin 0) 1 (line_of (register_of FRONTEND 0))
     (connect (Fin 0) 1 link0)"

definition link2 :: gateway where
  "link2 = handle_line (gateway_on_message 0) (gateway_on_disconnect 0) 0 (Fin 0) 1 (line_of sample_start) link1"

lemma link_clock: "clock_ok 0" by (simp add: clock_ok_def)

lemma link_regs: "ALGORITHM \<in> set REGISTRABLE" "FRONTEND \<in> set REGISTRABLE" "ALGORITHM \<noteq> FRONTEND" "FRONTEND \<noteq> ALGORITHM" "FRONTEND \<noteq> MOTION"
  by (simp_all add: REGISTRABLE_def protocol_consts)

lemma link0_eq:
  "link0 = (connect (Fin 0) 0 (gateway_start 0 None))\<lparr>
     conns := [0 \<mapsto> \<lparr>module_id = ALGORITHM, reply_target = ALGORITHM, last_heartbeat = Fin 0, writer_closing = False\<rparr>],
     sessions := [(ALGORITHM, 0)], sent := [(0, ack_of REGISTER_ACK ALGORITHM 0)]\<rparr>"
  unfolding link0_def
  by (subst register_line [OF link_regs(1) link_clock link_clock, where x = "new_session (Fin 0)"])
    (simp_all add: connect_def gateway_start_def new_session_def)

lemma link1_eq:
  "link1 = (connect (Fin 0) 1 link0)\<lparr>
     conns := [0 \<mapsto> \<lparr>module_id = ALGORITHM, reply_target = ALGORITHM, last_heartbeat = Fin 0, writer_closing = False\<rparr>,
               1 \<mapsto> \<lparr>module_id = FRONTEND, reply_target = FRONTEND, last_heartbeat = Fin 0, writer_closing = False\<rparr>],
     sessions := [(ALGORITHM, 0), (FRONTEND, 1)],
     sent := [(0, ack_of REGISTER_ACK ALGORITHM 0), (1, ack_of REGISTER_ACK FRONTEND 0)]\<rparr>"
  unfolding link1_def
  by (subst register_line [OF link_regs(2) link_clock link_clock, where x = "new_session (Fin 0)"])
    (simp_all add: connect_def link0_eq gateway_start_def new_session_def link_regs)

lemma link2_tasks: "tasks link2 = [(''s'', 0)]" "task_objs link2 = [new_task ''s'' (PStr [])]"
proof -
  have d: "decode_message (line_of sample_start) = Inr (Some (msg_dict sample_start))"
    by (rule plain_decodes [OF sample_start_line(2,1)])
  have f: "msg_type sample_start = TASK_START" "source sample_start = FRONTEND" "target sample_start = BACKEND"
      "data sample_start = [(''task_id'', PStr ''s'')]" by (simp_all add: sample_start_def)
  obtain u where u: "u = link1" by blast
  have l: "tasks u = []" "task_objs u = []" "has_robot u" "bound u" "active_id u = None" "is_online u ALGORITHM" "ident u 1 = FRONTEND"
    by (simp_all add: u link1_eq link0_eq connect_def gateway_start_def upd_session_def is_online_def is_closing_def ident_def link_regs)
  have a: "adapter_on_message sample_start u = (u, False)"
    by (simp add: adapter_on_message_def f link_regs)
  have b: "dispatch_on_message 0 sample_start u = on_task_start 0 sample_start u"
    by (simp add: dispatch_on_message_def f)
  obtain r where c: "capture_cmd 0 (PStr ''s'') = Inr r"
    by (simp add: capture_cmd_def build_message_def protocol_consts)
  have "snd (gateway_on_message 0 sample_start u) = Inr None"
    "tasks (fst (gateway_on_message 0 sample_start u)) = [(''s'', 0)]"
    "task_objs (fst (gateway_on_message 0 sample_start u)) = [new_task ''s'' (PStr [])]"
    unfolding gateway_on_message_def a
    by (simp_all add: b on_task_start_def Let_def f get_or_def py_len_def l send_async_def c schedule_def)
  then obtain s1 where g: "gateway_on_message 0 sample_start u = (s1, Inr None)" "tasks s1 = [(''s'', 0)]" "task_objs s1 = [new_task ''s'' (PStr [])]"
    by (cases "gateway_on_message 0 sample_start u") auto
  have "authorised link1 1 sample_start" using l(7) by (simp add: u authorised_def f REGISTRABLE_nonempty [OF link_regs(2)])
  then have "link2 = s1"
    using g(1) [unfolded u] sample_start_line(3)
    by (simp add: link2_def handle_line_def process_line_def d route_authorised)
  then show "tasks link2 = [(''s'', 0)]" "task_objs link2 = [new_task ''s'' (PStr [])]" using g(2,3) by simp_all
qed

lemma link2_reachable: "reachable sample_lib sample_settings None {} link1" "gsteps sample_lib sample_settings {} link1 link2"
proof -
  let ?R = "reachable sample_lib sample_settings None {}"
  have step: "?R s \<Longrightarrow> sstep {} s s' \<Longrightarrow> ?R s'" for s s'
    using reachable.step [of sample_lib sample_settings None "{}" s "{}" s'] by simp
  have "?R (connect (Fin 0) 0 (gateway_start 0 None))"
    by (rule step [OF reachable.start gstep.connected]) (simp_all add: gateway_start_def)
  then have 0: "?R link0"
    unfolding link0_def by (rule step) (rule gstep.line, simp add: connect_def)
  have "?R (connect (Fin 0) 1 link0)"
    by (rule step [OF 0 gstep.connected]) (simp_all add: link0_eq connect_def gateway_start_def)
  then show "?R link1"
    unfolding link1_def by (rule step) (rule gstep.line, simp add: connect_def)
  have "sstep {} link1 link2" unfolding link2_def by (rule gstep.line) (simp add: link1_eq)
  then show "gsteps sample_lib sample_settings {} link1 link2"
    using gsteps.more [OF _ gsteps.none] by fastforce
qed

end
