(* ===== verification/SampleConfig.thy ===== *)
theory SampleConfig
  imports Settings JsonRoundtrip
begin

text \<open>
  A configuration a gateway starts with, as files, for the witnesses; the file with the arm's
  limits is left open, so that it may be the one the exporter writes.
\<close>

definition sample_config :: pydict where
  "sample_config =
     [(''server'', PDict [(''host'', PStr ''h''), (''port'', PInt 9000)]),
      (''enable_hardware'', PBool False), (''api'', PDict [(''host'', PStr ''h''), (''port'', PInt 8000)]),
      (''gateway'', PDict [(''execution_mode'', PStr ''plan_only''), (''plan_timeout_sec'', PInt 5),
                           (''motion_config_file'', PStr ''m/base.json'')]),
      (''log_file'', PStr ''l''), (''database'', PDict [(''path'', PStr ''d'')])]"

definition sample_motion :: pydict where
  "sample_motion =
     [(''enable_hardware'', PBool False), (''execution_mode'', PStr ''plan_only''), (''model_file'', PStr ''u''),
      (''initial_joint_angles'', PList [PInt 0, PInt 0, PInt 0, PInt 0, PInt 0, PInt 0]),
      (''max_force_limit'', PInt 4)]"

definition sample_model :: pydict where
  "sample_model =
     [(''joint_min'', PList [PInt (-6), PInt (-6), PInt (-6), PInt (-6), PInt (-6), PInt (-6)]),
      (''joint_max'', PList [PInt 6, PInt 6, PInt 6, PInt 6, PInt 6, PInt 6])]"

definition sample_files :: files where
  "sample_files p =
     (if p = ''/r/m/base.json'' then Some (dumps (PDict sample_motion))
      else if p = ''/r/m/u'' then Some (dumps (PDict sample_model)) else None)"

lemma sample_file_load:
  "load_object (dumps (PDict sample_motion)) = Inr sample_motion"
  "load_object (dumps (PDict sample_model)) = Inr sample_model"
proof -
  have v: "valid_utf8 (dumps (PDict sample_motion))" "valid_utf8 (dumps (PDict sample_model))"
    by (rule valid_utf8_ascii, rule dumps_ascii, simp add: sample_motion_def sample_model_def)+
  have l: "loads (dumps (PDict sample_motion)) = Inr (PDict sample_motion)"
      "loads (dumps (PDict sample_model)) = Inr (PDict sample_model)"
    by (rule loads_dumps, simp add: sample_motion_def sample_model_def show_nat_small MAX_DIGITS_def)+
  show "load_object (dumps (PDict sample_motion)) = Inr sample_motion"
    "load_object (dumps (PDict sample_model)) = Inr sample_model"
    by (simp_all add: load_object_def load_json_def v l del: dumps.simps)
qed

lemma sample_paths:
  "path_join ''/r'' ''m/base.json'' = ''/r/m/base.json''" "path_parent ''/r/m/base.json'' = ''/r/m''"
  "path_join ''/r/m'' ''base.json'' = ''/r/m/base.json''" "path_join ''/r/m'' ''u'' = ''/r/m/u''"
  "path_join ''/r/m'' ''sim.json'' = ''/r/m/sim.json''"
  by code_simp+

lemma sample_from_config:
  assumes fs: "fs ''/r/m/base.json'' = Some (dumps (PDict sample_motion))" "fs ''/r/m/sim.json'' = None"
      "fs ''/r/m/u'' = Some body" "load_object body = Inr model"
    and lim: "dget model ''joint_min'' = Some (PList lo)" "dget model ''joint_max'' = Some (PList hi)"
      "check_vector (PList lo) = Inr lo" "check_vector (PList hi) = Inr hi" "\<not> list_ex bad_limit (zip (replicate 6 (PInt 0)) (zip lo hi))"
  shows "\<exists>s. from_config fs None ''/r'' sample_config = Inr s" "config_model_path fs None ''/r'' sample_config = Inr ''/r/m/u''"
proof -
  let ?motion = "dset ''env'' (PStr ''sim'') sample_motion"
  have c: "load_config fs None ''/r/m'' ''sim'' = Inr ?motion"
    by (simp add: load_config_def VALID_ENVS_def BASE_CONFIG_NAME_def sample_paths fs sample_file_load del: dumps.simps)
  have i: "to_float (PInt n) = Inr (Fin (of_int n))" if "\<bar>n\<bar> \<le> 10" for n using f64_of_int [of n] that by simp
  have g: "dget sample_config ''gateway'' = Some (PDict [(''execution_mode'', PStr ''plan_only''), (''plan_timeout_sec'', PInt 5),
                           (''motion_config_file'', PStr ''m/base.json'')])"
      "dget sample_config ''enable_hardware'' = Some (PBool False)" "dget sample_config ''env'' = None"
      "dget sample_config ''server'' = Some (PDict [(''host'', PStr ''h''), (''port'', PInt 9000)])"
      "dget sample_config ''api'' = Some (PDict [(''host'', PStr ''h''), (''port'', PInt 8000)])"
      "dget sample_config ''log_file'' = Some (PStr ''l'')" "dget sample_config ''database'' = Some (PDict [(''path'', PStr ''d'')])"
    by (simp_all add: sample_config_def)
  have m: "dget ?motion ''enable_hardware'' = Some (PBool False)" "dget ?motion ''execution_mode'' = Some (PStr ''plan_only'')"
      "dget ?motion ''model_file'' = Some (PStr ''u'')" "dget ?motion ''max_force_limit'' = Some (PInt 4)"
      "dget ?motion ''initial_joint_angles'' = Some (PList (replicate 6 (PInt 0)))"
    by (simp_all add: dict_simps sample_motion_def numeral_eq_Suc)
  have r: "read_motion fs None ''/r'' sample_config (PDict [(''execution_mode'', PStr ''plan_only''), (''plan_timeout_sec'', PInt 5),
                           (''motion_config_file'', PStr ''m/base.json'')]) = Inr (?motion, model)"
    by (simp add: read_motion_def getitem_def sample_paths g c m is_false_def fs del: dumps.simps)
  have f: "not_finite_number (PInt n) = Inr False" if "\<bar>n\<bar> \<le> 10" for n
    using i [OF that] by (simp add: not_finite_number_def num_isfinite_def)
  have v: "check_vector (PList (replicate 6 (PInt 0))) = Inr (replicate 6 (PInt 0))"
    by (simp add: check_vector_def f numeral_eq_Suc)
  show "\<exists>s. from_config fs None ''/r'' sample_config = Inr s"
    by (simp add: from_config_def getitem_def g m r lim v is_false_def f check_force_def
        check_listen_def nonempty_str_def i del: to_float.simps dget_dset replicate.simps)
  show "config_model_path fs None ''/r'' sample_config = Inr ''/r/m/u''"
    by (simp add: config_model_path_def getitem_def g m c sample_paths del: dget_dset)
qed

lemma sample_starts: "\<exists>s. from_config sample_files None ''/r'' sample_config = Inr s"
proof -
  have f: "not_finite_number (PInt n) = Inr False" if "\<bar>n\<bar> \<le> 10" for n
    using f64_of_int [of n] that by (simp add: not_finite_number_def num_isfinite_def)
  let ?lo = "[PInt (- 6), PInt (- 6), PInt (- 6), PInt (- 6), PInt (- 6), PInt (- 6)]"
    and ?hi = "[PInt 6, PInt 6, PInt 6, PInt 6, PInt 6, PInt 6]"
  have r: "replicate 6 (PInt 0) = [PInt 0, PInt 0, PInt 0, PInt 0, PInt 0, PInt 0]" by (simp add: numeral_eq_Suc)
  have v: "check_vector (PList ?lo) = Inr ?lo" "check_vector (PList ?hi) = Inr ?hi"
    by (simp_all add: check_vector_def f)
  have b: "\<not> list_ex bad_limit (zip (replicate 6 (PInt 0)) (zip ?lo ?hi))"
    unfolding r by (simp add: bad_limit_def)
  have d: "dget sample_model ''joint_min'' = Some (PList ?lo)" "dget sample_model ''joint_max'' = Some (PList ?hi)"
    by (simp_all add: sample_model_def)
  have s: "sample_files ''/r/m/base.json'' = Some (dumps (PDict sample_motion))" "sample_files ''/r/m/sim.json'' = None"
    "sample_files ''/r/m/u'' = Some (dumps (PDict sample_model))"
    by (simp_all add: sample_files_def del: dumps.simps)
  show ?thesis by (rule sample_from_config(1) [OF s sample_file_load(2) d v b])
qed

end
