(* ===== verification/PlanningDesk.thy ===== *)
theory PlanningDesk
  imports CommandRuns
begin

text \<open>
  The abstract planning service: what the gateway promises of planning tasks, without its locks,
  coroutines and messages. It has one slot; a task takes it, gets its row, is settled, and leaves
  it. Every step of the gateway is a sequence of such steps.
\<close>

section \<open>The abstract service\<close>

text \<open>The rows' statuses, the task in the slot, the tasks given up, and whether it closes.\<close>

record desk =
  d_rows :: "string \<Rightarrow> string option"
  d_slot :: "string option"
  d_lost :: "string set"
  d_closing :: bool

inductive desk_step :: "desk \<Rightarrow> desk \<Rightarrow> bool" where
  takes: "d_slot a = None \<Longrightarrow> \<not> d_closing a \<Longrightarrow> desk_step a (a\<lparr>d_slot := Some tid\<rparr>)"
| opens: "d_slot a = Some tid \<Longrightarrow> d_rows a tid = None \<Longrightarrow>
    desk_step a (a\<lparr>d_rows := (d_rows a)(tid \<mapsto> PLANNING)\<rparr>)"
| settles: "d_slot a = Some tid \<Longrightarrow> d_rows a tid = Some PLANNING \<Longrightarrow> st \<in> {PLANNED, FAILED, INTERRUPTED} \<Longrightarrow>
    desk_step a (a\<lparr>d_rows := (d_rows a)(tid \<mapsto> st)\<rparr>)"
| leaves: "d_slot a = Some tid \<Longrightarrow> (d_rows a tid = Some PLANNING \<Longrightarrow> tid \<in> d_lost a) \<Longrightarrow>
    desk_step a (a\<lparr>d_slot := None\<rparr>)"
| loses: "d_slot a = Some tid \<Longrightarrow> desk_step a (a\<lparr>d_slot := None, d_lost := insert tid (d_lost a)\<rparr>)"
| shuts: "desk_step a (a\<lparr>d_closing := True\<rparr>)"

abbreviation desk_steps :: "desk \<Rightarrow> desk \<Rightarrow> bool" where
  "desk_steps \<equiv> desk_step\<^sup>*\<^sup>*"

definition desk_of :: "string set \<Rightarrow> 'a robot_scheme \<Rightarrow> desk" where
  "desk_of A s = \<lparr>d_rows = status_of (db s), d_slot = active_id s, d_lost = A, d_closing = closing s\<rparr>"

lemma desk_of_simps [simp]:
  "d_rows (desk_of A s) = status_of (db s)" "d_slot (desk_of A s) = active_id s"
  "d_lost (desk_of A s) = A" "d_closing (desk_of A s) = closing s"
  by (simp_all add: desk_of_def)

lemma desk_of_view: "robot_part s' = robot_part s \<Longrightarrow> desk_of A s' = desk_of A s"
  by (simp add: desk_of_def robot_part_eq)

lemma desk_of_robot_view: "robot_view s' = robot_view s \<Longrightarrow> desk_of A s' = desk_of A s"
  by (rule desk_of_view) (simp add: robot_view_def)

lemma desk_of_set_phase [simp]: "desk_of A (set_phase p s) = desk_of A s"
  by (simp add: desk_of_def set_phase_def)

lemma desk_of_run_save [simp]: "desk_of A (run_save L S w r x s) = desk_of A s"
proof -
  have "desk_of A (plan_end t r s) = desk_of A s" for t
    by (rule desk_of_view, rule robot_cong) (rule adapter_more(2))
  then show ?thesis by (simp add: run_save_def split: prod.split)
qed

lemma desk_of_run_start [simp]: "desk_of A (run_start free L S now w s) = desk_of A s"
proof -
  obtain s1 r res where b: "plan_begin free now (w_task w) (w_payload w) s = (s1, r, res)"
    by (cases "plan_begin free now (w_task w) (w_payload w) s") auto
  have "desk_of A s1 = desk_of A s" by (rule desk_of_view, rule robot_cong) (rule plan_begin_fields(4) [OF b])
  then show ?thesis by (simp add: run_start_def b split: sum.split sending.split)
qed

lemma desk_of_run_queued [simp]: "desk_of A (run_queued L S w r c m s) = desk_of A s"
proof -
  have "desk_of A (fst (send_write c m s)) = desk_of A s"
    by (rule desk_of_view, rule robot_cong) (simp add: adapter_cong [OF server_more(7)])
  then show ?thesis by (cases "send_write c m s") (simp add: run_queued_def split: sum.split)
qed

section \<open>The operations as steps of the service\<close>

lemma desk_release:
  assumes "active_id s = Some tid" "status_of (db s) tid = Some PLANNING \<Longrightarrow> tid \<in> A"
  shows "desk_steps (desk_of A s) (desk_of A (s\<lparr>active_id := None, sub_lock := l\<rparr>))"
  using desk_step.leaves [of "desk_of A s" tid] assms by (auto simp: desk_of_def)

lemma desk_lose:
  assumes "active_id s = Some tid"
  shows "desk_steps (desk_of A s) (desk_of (insert tid A) (s\<lparr>active_id := None, sub_lock := l\<rparr>))"
  using desk_step.loses [of "desk_of A s" tid] assms by (auto simp: desk_of_def)

lemma desk_create:
  assumes "active_id s = Some tid" "db_create dbok now tid rq (db s) = Inr t"
  shows "desk_steps (desk_of A s) (desk_of A (s\<lparr>db := t, sub_lock := l, worker := wk\<rparr>))"
  using desk_step.opens [of "desk_of A s" tid] assms db_create_InrD(3,4) [OF assms(2)]
  by (auto simp: desk_of_def)

lemma desk_finish:
  assumes "active_id s = Some tid" "db_finish dbok now tid st rs er (db s) = Inr t"
  shows "desk_steps (desk_of A s) (desk_of A (s\<lparr>db := t\<rparr>))"
  using desk_step.settles [of "desk_of A s" tid st] assms(1) db_finish_InrD(2,3) [OF assms(2)]
  by (cases "status_of (db s) tid = Some PLANNING") (auto simp: desk_of_def)

lemma desk_lock [simp]:
  "desk_of A (s\<lparr>sub_lock := l\<rparr>) = desk_of A s" "desk_of A (s\<lparr>worker := wk\<rparr>) = desk_of A s"
  "desk_of A (s\<lparr>db := t, sub_lock := l\<rparr>) = desk_of A (s\<lparr>db := t\<rparr>)"
  "desk_of A (s\<lparr>db := t, sub_lock := l, worker := wk\<rparr>) = desk_of A (s\<lparr>db := t\<rparr>)"
  "desk_of A (s\<lparr>db := t, worker := wk, sub_lock := l\<rparr>) = desk_of A (s\<lparr>db := t\<rparr>)"
  "desk_of A (s\<lparr>active_id := a, sub_lock := l\<rparr>) = desk_of A (s\<lparr>active_id := a\<rparr>)"
  by (simp_all add: desk_of_def)

lemma desk_run_end [simp]: "desk_of A (run_end s) = desk_of A (s\<lparr>active_id := None\<rparr>)"
  by (simp add: run_end_def)

lemma desk_release_submission [simp]: "desk_of A (release_submission s) = desk_of A (s\<lparr>active_id := None\<rparr>)"
  by (simp add: release_submission_def)

lemma finished_row:
  assumes "db_finish dbok now tid st rs er t = Inr t'"
  shows "status_of t' tid \<noteq> Some PLANNING"
  using db_finish_InrD(2,3) [OF assms] by (auto simp: status_consts split: if_splits)

text \<open>Settled and out of the slot in one step, as \<open>submit\<close> and \<open>close\<close> do it.\<close>

lemma desk_finish_release:
  assumes "active_id s = Some tid" "db_finish dbok now tid st rs er (db s) = Inr t"
  shows "desk_steps (desk_of A s) (desk_of A (s\<lparr>db := t, active_id := None\<rparr>))"
  using desk_finish [OF assms, of A] desk_release [of "s\<lparr>db := t\<rparr>" tid A "sub_lock s"]
    assms(1) finished_row [OF assms(2)]
  by (force intro: rtranclp_trans)

lemma desk_submit_enter:
  "desk_steps (desk_of A s) (desk_of A (fst (submit_enter tid rq cb s)))"
  using desk_step.takes [of "desk_of A s" tid] by (auto simp: submit_enter_def desk_of_def)

lemma desk_submit_created:
  assumes I: "robot_inv A s" and l: "sub_lock s = LCreating tid p cb c"
  shows "desk_steps (desk_of A s) (desk_of A (fst (submit_created dbok now s)))"
proof -
  have a: "active_id s = Some tid" "status_of (db s) tid = Some PLANNING \<Longrightarrow> tid \<in> A"
    using I l by (auto simp: robot_inv_def)
  show ?thesis
    using desk_release [OF a, of LFree] desk_create [OF a(1), of dbok now p _ A]
    by (auto simp: submit_created_def l split: sum.split)
qed

lemma desk_submit_aborted:
  assumes I: "robot_inv A s" and l: "sub_lock s = LAborting tid cb"
  shows "desk_steps (desk_of A s)
    (desk_of (A \<union> (if snd (submit_aborted dbok now s) = Some (Inl Cancelled) then {} else {tid})) (fst (submit_aborted dbok now s)))"
proof -
  have a: "active_id s = Some tid" using I l by (auto simp: robot_inv_def)
  show ?thesis
    using desk_lose [OF a, of A LFree] desk_finish_release [OF a, of dbok now INTERRUPTED None _ _ A]
    by (auto simp: submit_aborted_def l release_submission_def split: sum.split)
qed

lemma desk_submit_abandoned:
  assumes I: "robot_inv A s" and l: "sub_lock s = LCreating tid p cb True \<or> sub_lock s = LAborting tid cb"
  shows "desk_steps (desk_of A s) (desk_of (insert tid A) (fst (submit_abandoned thr now s)))"
proof -
  have a: "active_id s = Some tid" using I l by (auto simp: robot_inv_def)
  have lose: "desk_steps (desk_of A x) (desk_of (insert tid A) (release_submission x))"
    if "active_id x = Some tid" for x :: "'a robot_scheme"
    using desk_lose [OF that, of A LFree] by simp
  have c: "desk_steps (desk_of A s) (desk_of A (s\<lparr>db := t\<rparr>))" if "db_create thr now tid p (db s) = Inr t" for t
    using desk_create [OF a that, of A] by simp
  have f: "desk_steps (desk_of A s) (desk_of A (s\<lparr>db := t\<rparr>))"
    if "db_finish thr now tid INTERRUPTED None (Some (error_dict 3001 TEXT_CANCELLED)) (db s) = Inr t" for t
    by (rule desk_finish [OF a that])
  show ?thesis
    using l
  proof
    assume l: "sub_lock s = LCreating tid p cb True"
    show ?thesis
    proof (cases "db_create thr now tid p (db s)")
      case (Inl e)
      then show ?thesis using lose [OF a] by (simp add: submit_abandoned_def l)
    next
      case (Inr t)
      then show ?thesis using rtranclp_trans [OF c [OF Inr] lose] a by (simp add: submit_abandoned_def l)
    qed
  next
    assume l: "sub_lock s = LAborting tid cb"
    show ?thesis
    proof (cases "db_finish thr now tid INTERRUPTED None (Some (error_dict 3001 TEXT_CANCELLED)) (db s)")
      case (Inl e)
      then show ?thesis using lose [OF a] by (simp add: submit_abandoned_def l)
    next
      case (Inr t)
      then show ?thesis using rtranclp_trans [OF f [OF Inr] lose] a by (simp add: submit_abandoned_def l)
    qed
  qed
qed

text \<open>The worker's end, by saving, by a failed save, or by a cancellation.\<close>

lemma worker_active:
  "robot_inv A s \<Longrightarrow> worker s = Some w \<Longrightarrow> w_phase w \<noteq> WDone \<Longrightarrow> active_id s = Some (w_task w)"
  by (cases "sub_lock s") (auto simp: robot_inv_def idle_def)

lemma desk_run_saved:
  assumes I: "robot_inv A s" and w: "worker s = Some w" "w_phase w = WSaving st rs er"
  shows "desk_steps (desk_of A s)
    (desk_of (A \<union> (case db_finish dbok now (w_task w) st rs er (db s) of Inl _ \<Rightarrow> {w_task w} | Inr _ \<Rightarrow> {}))
      (run_saved dbok now w st rs er s))"
proof -
  have a: "active_id s = Some (w_task w)" using worker_active [OF I w(1)] w(2) by simp
  show ?thesis
    using desk_lose [OF a, of A "sub_lock s"] desk_finish_release [OF a, of dbok now st rs er _ A]
      desk_finish [OF a, of dbok now st rs er _ A]
    by (auto simp: run_saved_def split: sum.split)
qed

lemma desk_run_cancel:
  assumes I: "robot_inv A s" and w: "worker s = Some w"
  shows "desk_steps (desk_of A s) (desk_of (A \<union> given_up thr now s) (run_cancel L S thr now w s))"
proof (cases "w_phase w")
  case (WSaving st rs er)
  have a: "active_id s = Some (w_task w)" using worker_active [OF I w] WSaving by simp
  show ?thesis
    using desk_lose [OF a, of A "sub_lock s"] desk_finish_release [OF a, of thr now st rs er _ A]
    by (auto simp: run_cancel_def given_up_def w WSaving split: sum.split)
next
  case WNotifying
  have a: "active_id s = Some (w_task w)" using worker_active [OF I w] WNotifying by simp
  have "status_of (db s) (w_task w) \<noteq> Some PLANNING" using I w WNotifying by (simp add: robot_inv_def worker_row_ok_def)
  then show ?thesis
    using desk_release [OF a, of A "sub_lock s"] by (auto simp: run_cancel_def given_up_def w WNotifying)
qed (auto simp: run_cancel_def given_up_def w)

lemma desk_close_enter:
  assumes I: "robot_inv A s" and c: "closing s" "sub_lock s = LFree"
  shows "desk_steps (desk_of A s) (desk_of (A \<union> (if delivered then given_up thr now s else {})) (close_enter L S delivered thr now s))"
proof -
  have J: "robot_inv A (s\<lparr>sub_lock := LClosing\<rparr>)" using I c by (cases "worker s") (simp_all add: robot_inv_def)
  have g: "given_up thr now (s\<lparr>sub_lock := LClosing\<rparr>) = given_up thr now s"
    by (simp add: given_up_def split: option.split phase.split)
  show ?thesis
  proof (cases "delivered \<and> worker s \<noteq> None")
    case True
    then show ?thesis
      using desk_run_cancel [OF J, of _ thr now L S, unfolded g] by (auto simp: close_enter_def Let_def)
  next
    case False
    then show ?thesis by (cases "worker s") (auto simp: close_enter_def Let_def given_up_def)
  qed
qed

lemma desk_close_finish: "desk_steps (desk_of A s) (desk_of A (close_finish dbok now s))"
  using desk_finish_release [of s _ dbok now INTERRUPTED None _ _ A]
  by (auto simp: close_finish_def split: option.split sum.split)

section \<open>Every step of the gateway\<close>

lemma desk_of_truncate: "robot.truncate s' = robot.truncate s \<Longrightarrow> desk_of A s' = desk_of A s"
  by (rule desk_of_robot_view) (rule robot_truncateD(2))

lemma desk_of_dispatch [simp]:
  "desk_of A (discard i s) = desk_of A s" "desk_of A (await_at i b s) = desk_of A s"
  "desk_of A (plan_refused L now e k s) = desk_of A s" "desk_of A (plan_target_start L S now i k obj s) = desk_of A s"
  "desk_of A (dispatch_on_finished now k v s) = desk_of A s"
  "desk_of A (after_submit L now cb p) = desk_of A (fst p)"
  by (rule desk_of_truncate, simp add: after_submit_frame)+

lemma desk_of_background_send [simp]:
  "desk_of A (background_send free i md m s) = desk_of A s" "desk_of A (background_queued i c m s) = desk_of A s"
  by (rule desk_of_robot_view, rule background_send_view)+

lemma desk_of_server [simp]:
  "desk_of A (connect tick c s) = desk_of A s"
  "desk_of A (handle_line (gateway_on_message now) (gateway_on_disconnect now) now tick c line s) = desk_of A s"
  "desk_of A (end_client (gateway_on_disconnect now) c s) = desk_of A s"
  "desk_of A (heartbeat_patrol (gateway_on_disconnect now) tick s) = desk_of A s"
  "desk_of A (close_clients (gateway_on_disconnect now) s) = desk_of A s"
  "desk_of A (send_finish (gateway_on_disconnect now) ok c s) = desk_of A s"
  "desk_of A (close_listener s) = desk_of A s"
  by (rule desk_of_robot_view, rule gw.view_server gw.view_send_finish)+

lemma desk_of_dispatch_close [simp]: "desk_of A (dispatch_close s) = desk_of A s"
proof -
  have one: "desk_of A (background_cancel s p) = desk_of A s" for p and s :: "'a dispatch_scheme"
    by (cases p; cases "snd p") (simp_all add: background_cancel_def submit_cancel_def split: submission.split)
  have "desk_of A (foldl background_cancel s ps) = desk_of A s" for ps and s :: "'a dispatch_scheme"
    by (induction ps arbitrary: s) (simp_all add: one)
  then show ?thesis by (simp add: dispatch_close_def)
qed

lemma gstep_desk:
  assumes "gstep L S B s s'" and I: "robot_inv A s"
  shows "desk_steps (desk_of A s) (desk_of (A \<union> B) s')"
  using assms(1)
proof cases
  case (lost c)
  have "desk_of A s' = desk_of A s" by (rule desk_of_robot_view, rule robot_view_more) (simp add: lost more_simps)
  then show ?thesis using lost by simp
next
  case (plan_enter i k rq now tid)
  then show ?thesis
    using desk_submit_enter [of A s tid rq "Some k"]
    by (cases "submit_enter tid rq (Some k) s") (simp add: plan_target_enter_def split: sum.split)
next
  case (http_enter rq tid)
  then show ?thesis using desk_submit_enter by simp
next
  case (created tid p cb c now dbok)
  then show ?thesis using desk_submit_created [OF I] by simp
next
  case (aborted tid cb dbok now)
  then show ?thesis using desk_submit_aborted [OF I aborted(3), of dbok now] by simp
next
  case (abandoned tid p cb now thr)
  then show ?thesis using desk_submit_abandoned [OF I abandoned(3)] by simp
next
  case (drained w r c now ok)
  then show ?thesis by (cases ok) (simp_all add: run_sent_def Let_def)
next
  case (saved w st rs er dbok now)
  then show ?thesis using desk_run_saved [OF I saved(3,4), of dbok now] by simp
next
  case (notified w now dbok)
  have a: "active_id s = Some (w_task w)" using worker_active [OF I notified(3)] notified(4) by simp
  have "status_of (db s) (w_task w) \<noteq> Some PLANNING" using I notified by (simp add: robot_inv_def worker_row_ok_def)
  then have "desk_steps (desk_of A s) (desk_of A (s\<lparr>active_id := None\<rparr>))"
    using desk_release [OF a, of A "sub_lock s"] by auto
  moreover have "desk_of A (dispatch_on_finished now k v s\<lparr>active_id := None\<rparr>) = desk_of A (s\<lparr>active_id := None\<rparr>)" for k v
    using desk_of_dispatch(5) [of A now k v s] by (simp add: desk_of_def)
  ultimately show ?thesis
    using notified by (simp add: run_notified_def split: prod.split option.split sum.split)
next
  case close_requested
  then show ?thesis using desk_step.shuts [of "desk_of A s"] by (auto simp: desk_of_def close_request_def)
next
  case (close_entered delivered thr now)
  then show ?thesis using desk_close_enter [OF I close_entered(3,4), of delivered thr now L S] by (simp only: close_entered(1,2))
next
  case (close_finished dbok now)
  then show ?thesis using desk_close_finish by simp
next
  case (http_cancel tid p c)
  then show ?thesis by (simp add: submit_cancel_def)
qed (simp_all add: background_sent_def run_reply_def run_timeout_def)

lemma gsteps_desk:
  "gsteps L S B s s' \<Longrightarrow> robot_inv A s \<Longrightarrow> desk_steps (desk_of A s) (desk_of (A \<union> B) s')"
proof (induction arbitrary: A rule: gsteps.induct)
  case (more B s s1 C s2)
  have "desk_steps (desk_of (A \<union> B) s1) (desk_of (A \<union> B \<union> C) s2)"
    by (rule more.IH) (rule gstep_robot_inv [OF more.hyps(1) more.prems])
  then show ?case using gstep_desk [OF more.hyps(1) more.prems] by (simp add: Un_assoc)
qed simp

end
