(* ===== verification/HttpGateway.thy ===== *)
theory HttpGateway
  imports GatewaySteps
begin

text \<open>
  The HTTP side of \<open>backend/app/api/application.py\<close>: the uniform reply, the exception handlers
  and the four routes, each as the status and the body it answers with. \<open>POST /robot/plan\<close>
  awaits the submission, so it is the step that enters and the answer to what the submission ended
  with.
\<close>

section \<open>Replies\<close>

record http_reply =
  http_status :: int
  http_body :: pydict

text \<open>\<open>response\<close>; its defaults are \<open>0\<close> and \<open>"success"\<close>.\<close>

definition response :: "int \<Rightarrow> pydict option \<Rightarrow> int \<Rightarrow> string \<Rightarrow> pydict" where
  "response now d c txt =
     [(''code'', PInt c), (''msg'', PStr txt), (''data'', PDict (case d of None \<Rightarrow> [] | Some x \<Rightarrow> x)),
      (''timestamp'', PInt now)]"

definition ok_reply :: "int \<Rightarrow> int \<Rightarrow> pydict \<Rightarrow> http_reply" where
  "ok_reply now st d = \<lparr>http_status = st, http_body = response now (Some d) 0 ''success''\<rparr>"

section \<open>Exception handlers\<close>

definition gateway_error :: "int \<Rightarrow> int \<Rightarrow> int \<Rightarrow> string \<Rightarrow> http_reply" where
  "gateway_error now st c txt = \<lparr>http_status = st, http_body = response now None c txt\<rparr>"

definition TEXT_INVALID_REQUEST :: string where (* illegal request parameters *)
  "TEXT_INVALID_REQUEST = utf8 [0x8BF7, 0x6C42, 0x53C2, 0x6570, 0x975E, 0x6CD5]"

definition TEXT_INTERNAL :: string where (* internal error of the backend, see the log *)
  "TEXT_INTERNAL = utf8 [0x540E, 0x7AEF, 0x5185, 0x90E8, 0x9519, 0x8BEF, 0xFF0C, 0x8BF7, 0x67E5, 0x770B, 0x65E5, 0x5FD7]"

text \<open>What pydantic reports of a refused body is the library's; of each report two fields are sent on.\<close>

type_synonym report = "pyval list \<times> string"

definition invalid_request :: "int \<Rightarrow> report list \<Rightarrow> http_reply" where
  "invalid_request now reports =
     \<lparr>http_status = 422,
      http_body = response now
        (Some [(''errors'', PList (map (\<lambda>(loc, m). PDict [(''field'', PList loc), (''msg'', PStr m)]) reports))])
        INVALID_PARAM TEXT_INVALID_REQUEST\<rparr>"

definition internal_error :: "int \<Rightarrow> http_reply" where
  "internal_error now = \<lparr>http_status = 500, http_body = response now None 3001 TEXT_INTERNAL\<rparr>"

text \<open>An exception that leaves a route; a cancelled request has no answer.\<close>

definition failed :: "int \<Rightarrow> gexc \<Rightarrow> http_reply option" where
  "failed now e =
     (case e of
        GatewayError st c txt \<Rightarrow> Some (gateway_error now st c txt)
      | PyError x \<Rightarrow> Some (internal_error now)
      | Cancelled \<Rightarrow> None)"

section \<open>Routes\<close>

definition health :: "int \<Rightarrow> http_reply" where
  "health now = ok_reply now 200 [(''status'', PStr ''ok''), (''execution_mode'', PStr ''plan_only'')]"

definition status_route :: "settings \<Rightarrow> int \<Rightarrow> 'a robot_scheme \<Rightarrow> http_reply" where
  "status_route S now s = ok_reply now 200 (robot_status S s)"

definition planning_reply :: "int \<Rightarrow> string \<Rightarrow> http_reply" where
  "planning_reply now tid =
     ok_reply now 202 [(''task_id'', PStr tid), (''status'', PStr ''planning''), (''task_url'', PStr (''/tasks/'' @ tid))]"

text \<open>
  \<open>plan\<close> up to the lock: an answer, or the request that waits for it. Then what the holder of the
  lock is told, and what the end of the submission answers.
\<close>

definition plan_route_start ::
  "'l lib_scheme \<Rightarrow> settings \<Rightarrow> int \<Rightarrow> report list \<Rightarrow> pyval \<Rightarrow> http_reply option + plan_request" where
  "plan_route_start L S now reports body =
     (case validate_request L body of
        Inl _ \<Rightarrow> Inl (Some (invalid_request now reports))
      | Inr rq \<Rightarrow> (case submit_check S rq of Inl e \<Rightarrow> Inl (failed now e) | Inr _ \<Rightarrow> Inr rq))"

definition plan_route_enter ::
  "int \<Rightarrow> string \<Rightarrow> plan_request \<Rightarrow> 'a robot_scheme \<Rightarrow> 'a robot_scheme \<times> http_reply option" where
  "plan_route_enter now tid rq s =
     (case submit_enter tid rq None s of
        (s1, Inl e) \<Rightarrow> (s1, failed now e) | (s1, Inr _) \<Rightarrow> (s1, None))"

definition plan_route_end :: "int \<Rightarrow> gexc + string \<Rightarrow> http_reply option" where
  "plan_route_end now r = (case r of Inl e \<Rightarrow> failed now e | Inr tid \<Rightarrow> Some (planning_reply now tid))"

text \<open>The record of a task as the dictionary \<open>get\<close> returns.\<close>

definition view_dict :: "task_view \<Rightarrow> pydict" where
  "view_dict v =
     [(''task_id'', PStr (v_task_id v)), (''status'', PStr (v_status v)), (''request'', v_request v),
      (''result'', case v_result v of None \<Rightarrow> PNone | Some x \<Rightarrow> x),
      (''error'', case v_error v of None \<Rightarrow> PNone | Some x \<Rightarrow> x),
      (''created_at'', PInt (v_created_at v)), (''updated_at'', PInt (v_updated_at v))]"

definition task_route :: "int \<Rightarrow> bool \<Rightarrow> string \<Rightarrow> 'a robot_scheme \<Rightarrow> http_reply option" where
  "task_route now dbok tid s =
     (case get_task dbok tid s of
        Inl e \<Rightarrow> failed now e | Inr v \<Rightarrow> Some (ok_reply now 200 (view_dict v)))"

end
