(* ===== verification/GatewayLock.thy ===== *)
theory GatewayLock
  imports Prelude
begin

text \<open>
  \<open>backend/app/model/gateway_lock.py\<close>: the advisory file lock that keeps a second gateway off
  the same database. The operating system's part is a table of the open streams that hold a lock;
  closing a stream, or the end of its process, releases it. Several gateways run as a transition
  system.
\<close>

section \<open>The operating system\<close>

text \<open>The size of every file, the stream that holds the lock of a file, and the open streams.\<close>

record lock_os =
  file_size :: "string \<Rightarrow> nat option"
  holder :: "string \<Rightarrow> nat option"
  streams :: "nat set"
  next_stream :: nat

definition close_stream :: "nat \<Rightarrow> lock_os \<Rightarrow> lock_os" where
  "close_stream sid fs =
     fs\<lparr>holder := (\<lambda>p. if holder fs p = Some sid then None else holder fs p), streams := streams fs - {sid}\<rparr>"

section \<open>The lock\<close>

record gateway_lock =
  lock_path :: string
  lock_stream :: "nat option"

definition new_lock :: "string \<Rightarrow> gateway_lock" where
  "new_lock database_path = \<lparr>lock_path = database_path @ ''.lock'', lock_stream = None\<rparr>"

text \<open>
  \<open>opened\<close>: whether the directory could be made and the file opened; \<open>failing\<close>: the system's
  lock call fails for a reason of its own.
\<close>

definition acquire :: "unit res \<Rightarrow> bool \<Rightarrow> gateway_lock \<Rightarrow> lock_os \<Rightarrow> gateway_lock \<times> lock_os \<times> unit res" where
  "acquire opened failing k fs =
     (case opened of
        Inl e \<Rightarrow> (k, fs, Inl e)
      | Inr _ \<Rightarrow>
          (let p = lock_path k; sid = next_stream fs;
               n = (case file_size fs p of None \<Rightarrow> 0 | Some n \<Rightarrow> n);
               fs1 = fs\<lparr>file_size := (file_size fs)(p \<mapsto> if n = 0 then 1 else n),
                        streams := insert sid (streams fs), next_stream := Suc sid\<rparr>
           in if failing \<or> holder fs1 p \<noteq> None then (k, close_stream sid fs1, Inl RuntimeError)
              else (k\<lparr>lock_stream := Some sid\<rparr>, fs1\<lparr>holder := (holder fs1)(p \<mapsto> sid)\<rparr>, Inr ())))"

definition release :: "gateway_lock \<Rightarrow> lock_os \<Rightarrow> gateway_lock \<times> lock_os" where
  "release k fs =
     (case lock_stream k of
        None \<Rightarrow> (k, fs)
      | Some sid \<Rightarrow> (k\<lparr>lock_stream := None\<rparr>, close_stream sid fs))"

section \<open>Several gateways\<close>

record lock_world =
  lock_sys :: lock_os
  instances :: "nat \<Rightarrow> gateway_lock option"

text \<open>A process makes its lock, acquires it, releases it, or ends, and the system closes its streams.\<close>

inductive lock_step :: "lock_world \<Rightarrow> lock_world \<Rightarrow> bool" where
  made: "instances w i = None \<Longrightarrow> lock_step w (w\<lparr>instances := (instances w)(i \<mapsto> new_lock db)\<rparr>)"
| acquired: "instances w i = Some k \<Longrightarrow> acquire opened failing k (lock_sys w) = (k', fs, r) \<Longrightarrow>
    lock_step w (w\<lparr>lock_sys := fs, instances := (instances w)(i \<mapsto> k')\<rparr>)"
| released: "instances w i = Some k \<Longrightarrow> release k (lock_sys w) = (k', fs) \<Longrightarrow>
    lock_step w (w\<lparr>lock_sys := fs, instances := (instances w)(i \<mapsto> k')\<rparr>)"
| ended: "instances w i = Some k \<Longrightarrow>
    lock_step w (w\<lparr>lock_sys := snd (release k (lock_sys w)), instances := (instances w)(i := None)\<rparr>)"

definition lock_start :: "(string \<Rightarrow> nat option) \<Rightarrow> lock_world" where
  "lock_start files =
     \<lparr>lock_sys = \<lparr>file_size = files, holder = \<lambda>_. None, streams = {}, next_stream = 0\<rparr>, instances = \<lambda>_. None\<rparr>"

inductive lock_reachable :: "(string \<Rightarrow> nat option) \<Rightarrow> lock_world \<Rightarrow> bool" for files where
  begins: "lock_reachable files (lock_start files)"
| goes: "lock_reachable files w \<Longrightarrow> lock_step w w' \<Longrightarrow> lock_reachable files w'"

section \<open>The lock excludes\<close>

lemma close_stream_fields [simp]:
  "holder (close_stream sid fs) p = (if holder fs p = Some sid then None else holder fs p)"
  "streams (close_stream sid fs) = streams fs - {sid}"
  "next_stream (close_stream sid fs) = next_stream fs"
  by (simp_all add: close_stream_def)

text \<open>What \<open>acquire\<close> leaves: nothing new, or the lock of a file nobody held.\<close>

lemma acquire_cases:
  assumes "acquire opened failing k fs = (k', fs', r)"
    and "\<And>p sid. holder fs p = Some sid \<Longrightarrow> sid < next_stream fs" "\<And>sid. sid \<in> streams fs \<Longrightarrow> sid < next_stream fs"
  obtains e where "r = Inl e" "k' = k" "holder fs' = holder fs" "streams fs' = streams fs" "next_stream fs \<le> next_stream fs'"
  | "r = Inr ()" "k' = k\<lparr>lock_stream := Some (next_stream fs)\<rparr>" "holder fs (lock_path k) = None"
    "holder fs' = (holder fs)(lock_path k \<mapsto> next_stream fs)" "streams fs' = insert (next_stream fs) (streams fs)"
    "next_stream fs' = Suc (next_stream fs)"
proof -
  have n: "next_stream fs \<notin> streams fs" using assms(3) by blast
  have h: "holder fs p \<noteq> Some (next_stream fs)" for p using assms(2) by (metis less_irrefl)
  show ?thesis
  proof (cases "opened")
    case (Inl e)
    then show ?thesis using assms(1) by (intro that(1) [of e]) (simp_all add: acquire_def)
  next
    case (Inr u)
    show ?thesis
    proof (cases "failing \<or> holder fs (lock_path k) \<noteq> None")
      case True
      then have "r = Inl RuntimeError" "k' = k" "next_stream fs' = Suc (next_stream fs)"
        "holder fs' = holder fs" "streams fs' = streams fs"
        using assms(1) Inr n h by (auto simp: acquire_def Let_def fun_eq_iff)
      then show ?thesis using that(1) by simp
    next
      case False
      then show ?thesis using assms(1) Inr that(2) by (auto simp: acquire_def Let_def)
    qed
  qed
qed

text \<open>Instance \<open>i\<close> has the lock of the file \<open>p\<close>, by its open stream \<open>sid\<close>.\<close>

definition owns :: "lock_world \<Rightarrow> nat \<Rightarrow> string \<Rightarrow> nat \<Rightarrow> bool" where
  "owns w i p sid \<longleftrightarrow> (\<exists>k. instances w i = Some k \<and> lock_path k = p \<and> lock_stream k = Some sid)"

definition lock_inv :: "lock_world \<Rightarrow> bool" where
  "lock_inv w \<longleftrightarrow>
     (\<forall>i p sid. owns w i p sid \<longrightarrow> holder (lock_sys w) p = Some sid \<and> sid \<in> streams (lock_sys w))
   \<and> (\<forall>p sid. holder (lock_sys w) p = Some sid \<longrightarrow> (\<exists>i. owns w i p sid))
   \<and> (\<forall>i j p q sid. owns w i p sid \<longrightarrow> owns w j q sid \<longrightarrow> i = j)
   \<and> (\<forall>sid. sid \<in> streams (lock_sys w) \<longrightarrow> sid < next_stream (lock_sys w) \<and> (\<exists>i p. owns w i p sid))"

lemma lock_invD:
  assumes "lock_inv w"
  shows "owns w i p sid \<Longrightarrow> holder (lock_sys w) p = Some sid \<and> sid \<in> streams (lock_sys w)"
    and "holder (lock_sys w) p = Some sid \<Longrightarrow> \<exists>i. owns w i p sid"
    and "owns w i p sid \<Longrightarrow> owns w j q sid \<Longrightarrow> i = j"
    and "sid \<in> streams (lock_sys w) \<Longrightarrow> sid < next_stream (lock_sys w) \<and> (\<exists>i p. owns w i p sid)"
  using assms unfolding lock_inv_def by blast+

lemma lock_inv_start: "lock_inv (lock_start files)"
  by (simp add: lock_inv_def lock_start_def owns_def)

lemma owns_upd:
  "owns (w\<lparr>lock_sys := fs, instances := (instances w)(i := x)\<rparr>) j p sid
     \<longleftrightarrow> (if j = i then (\<exists>k. x = Some k \<and> lock_path k = p \<and> lock_stream k = Some sid) else owns w j p sid)"
  by (simp add: owns_def)

lemma lock_inv_acquire:
  assumes I: "lock_inv w" and k: "instances w i = Some k"
    and a: "acquire opened failing k (lock_sys w) = (k', fs, r)"
  shows "lock_inv (w\<lparr>lock_sys := fs, instances := (instances w)(i \<mapsto> k')\<rparr>)"
proof (rule acquire_cases [OF a])
  show "holder (lock_sys w) p = Some sid \<Longrightarrow> sid < next_stream (lock_sys w)" for p sid
    using lock_invD [OF I] by blast
  show "sid \<in> streams (lock_sys w) \<Longrightarrow> sid < next_stream (lock_sys w)" for sid using lock_invD(4) [OF I] by blast
next
  fix e
  assume *: "k' = k" "holder fs = holder (lock_sys w)" "streams fs = streams (lock_sys w)" "next_stream (lock_sys w) \<le> next_stream fs"
  have "owns (w\<lparr>lock_sys := fs, instances := (instances w)(i \<mapsto> k')\<rparr>) = owns w"
    using k by (auto simp: fun_eq_iff owns_upd *(1)) (auto simp: owns_def)
  then show ?thesis using I * unfolding lock_inv_def by (auto dest: less_le_trans)
next
  let ?n = "next_stream (lock_sys w)"
  assume *: "k' = k\<lparr>lock_stream := Some ?n\<rparr>" "holder (lock_sys w) (lock_path k) = None"
    "holder fs = (holder (lock_sys w))(lock_path k \<mapsto> ?n)" "streams fs = insert ?n (streams (lock_sys w))" "next_stream fs = Suc ?n"
  have o: "owns (w\<lparr>lock_sys := fs, instances := (instances w)(i \<mapsto> k')\<rparr>) j p sid
      \<longleftrightarrow> (if j = i then p = lock_path k \<and> sid = ?n else owns w j p sid)" for j p sid
    by (auto simp: owns_upd *(1))
  have none: "\<not> owns w i p sid" for p sid using lock_invD(1) [OF I, of i p sid] *(2) k by (auto simp: owns_def)
  have fresh: "\<not> owns w j p ?n" for j p using lock_invD(1) [OF I, of j p ?n] lock_invD(4) [OF I, of ?n] by blast
  show ?thesis
    unfolding lock_inv_def o
    using lock_invD [OF I] none fresh *(2) by (auto simp: *(3-5)) (metis less_SucI | metis)+
qed

lemma lock_inv_release:
  assumes I: "lock_inv w" and k: "instances w i = Some k" and r: "release k (lock_sys w) = (k', fs)"
    and x: "x = Some k' \<or> x = None"
  shows "lock_inv (w\<lparr>lock_sys := fs, instances := (instances w)(i := x)\<rparr>)"
proof (cases "lock_stream k")
  case None
  then have "k' = k" "fs = lock_sys w" using r by (simp_all add: release_def)
  moreover have "owns (w\<lparr>lock_sys := lock_sys w, instances := (instances w)(i := x)\<rparr>) = owns w"
    using k None x \<open>k' = k\<close> by (auto simp: fun_eq_iff owns_def split: if_splits)
  ultimately show ?thesis using I unfolding lock_inv_def by auto
next
  case (Some sid)
  then have *: "lock_stream k' = None" "fs = close_stream sid (lock_sys w)" using r by (auto simp: release_def)
  have me: "owns w i (lock_path k) sid" using k Some by (simp add: owns_def)
  have o: "owns (w\<lparr>lock_sys := fs, instances := (instances w)(i := x)\<rparr>) j p t \<longleftrightarrow> j \<noteq> i \<and> owns w j p t" for j p t
    using x *(1) by (auto simp: owns_upd)
  have only: "owns w i p t \<Longrightarrow> t = sid" for p t using k Some by (simp add: owns_def)
  show ?thesis
    unfolding lock_inv_def o
  proof (intro conjI allI impI)
    fix j p t
    assume "j \<noteq> i \<and> owns w j p t"
    then have "owns w j p t" "t \<noteq> sid" using lock_invD(3) [OF I] me by blast+
    then show "holder (lock_sys (w\<lparr>lock_sys := fs, instances := (instances w)(i := x)\<rparr>)) p = Some t"
        "t \<in> streams (lock_sys (w\<lparr>lock_sys := fs, instances := (instances w)(i := x)\<rparr>))"
      using lock_invD(1) [OF I, of j p t] by (simp_all add: *(2))
  next
    fix p t
    assume "holder (lock_sys (w\<lparr>lock_sys := fs, instances := (instances w)(i := x)\<rparr>)) p = Some t"
    then have "holder (lock_sys w) p = Some t" "t \<noteq> sid" by (auto simp: *(2) split: if_splits)
    then obtain j where "owns w j p t" using lock_invD(2) [OF I] by blast
    with only \<open>t \<noteq> sid\<close> show "\<exists>j. j \<noteq> i \<and> owns w j p t" by metis
  next
    fix t
    assume "t \<in> streams (lock_sys (w\<lparr>lock_sys := fs, instances := (instances w)(i := x)\<rparr>))"
    then have t: "t \<in> streams (lock_sys w)" "t \<noteq> sid" by (auto simp: *(2))
    then show "t < next_stream (lock_sys (w\<lparr>lock_sys := fs, instances := (instances w)(i := x)\<rparr>))"
      using lock_invD(4) [OF I t(1)] by (simp add: *(2))
    obtain j p where "owns w j p t" using lock_invD(4) [OF I t(1)] by blast
    with only t(2) show "\<exists>j p. j \<noteq> i \<and> owns w j p t" by metis
  qed (use lock_invD(3) [OF I] in blast)
qed

lemma lock_step_inv: "lock_step w w' \<Longrightarrow> lock_inv w \<Longrightarrow> lock_inv w'"
proof (induction rule: lock_step.induct)
  case (made w i db)
  have "owns (w\<lparr>instances := (instances w)(i \<mapsto> new_lock db)\<rparr>) = owns w"
    using made.hyps by (auto simp: fun_eq_iff owns_def new_lock_def)
  then show ?case using made.prems unfolding lock_inv_def by simp
next
  case (acquired w i k opened failing k' fs r)
  then show ?case using lock_inv_acquire by blast
next
  case (released w i k k' fs)
  then show ?case using lock_inv_release by blast
next
  case (ended w i k)
  then show ?case using lock_inv_release [of w i k _ _ None] by (cases "release k (lock_sys w)") simp
qed

lemma lock_reachable_inv: "lock_reachable files w \<Longrightarrow> lock_inv w"
  by (induction rule: lock_reachable.induct) (auto intro: lock_inv_start lock_step_inv)

text \<open>When an instance gets the lock: exactly when the file opens, the system lets it, and nobody has it.\<close>

lemma acquire_succeeds:
  "snd (snd (acquire opened failing k fs)) = Inr () \<longleftrightarrow>
     opened = Inr () \<and> \<not> failing \<and> holder fs (lock_path k) = None"
  by (cases opened) (simp_all add: acquire_def Let_def)

end
