(* ===== verification/Settling.thy ===== *)
theory Settling
  imports CommandRuns JsonRoundtrip
begin

text \<open>
  No accepted task hangs: while the gateway is not shutting down, some run of it brings every task
  that is still \<open>planning\<close> and was not given up to a terminal status. The error texts the backend
  itself writes are always stored; an outcome the database refuses is the one exception.
\<close>

section \<open>The texts of the backend are valid\<close>

lemma utf8_enc_wide:
  assumes n: "4096 \<le> n" "n < 65536" "n div 4096 \<noteq> 13"
  shows "valid_utf8 (utf8_enc n @ s) = valid_utf8 s" "\<forall>c \<in> set (utf8_enc n). 128 \<le> byte c"
proof -
  obtain a b c where abc: "n div 4096 = a" "n div 64 mod 64 = b" "n mod 64 = c" by blast
  have "1 \<le> n div 4096" "n div 4096 \<le> 15"
    using div_le_mono [of 4096 n 4096] div_le_mono [of n 65535 4096] n(1,2) by simp_all
  then have a: "1 \<le> a" "a \<le> 15" "a \<noteq> 13" using n(3) abc(1) by simp_all
  have "n div 64 mod 64 < 64" "n mod 64 < 64" by simp_all
  then have bc: "b < 64" "c < 64" unfolding abc by simp_all
  have e: "utf8_enc n = [char_of (224 + a), char_of (128 + b), char_of (128 + c)]"
    using n(1,2) unfolding utf8_enc_def abc by simp
  have B: "byte (char_of (224 + a)) = 224 + a" "byte (char_of (128 + b)) = 128 + b" "byte (char_of (128 + c)) = 128 + c"
    using a bc by (simp_all add: of_char_of)
  show "valid_utf8 (utf8_enc n @ s) = valid_utf8 s"
    using a bc unfolding e by (simp add: is_cont_def B Let_def)
  show "\<forall>c \<in> set (utf8_enc n). 128 \<le> byte c" unfolding e using B by (auto simp del: of_char_of)
qed

definition wide :: "nat list \<Rightarrow> bool" where
  "wide ns \<longleftrightarrow> list_all (\<lambda>n. 4096 \<le> n \<and> n < 65536 \<and> n div 4096 \<noteq> 13) ns"

lemma utf8_wide:
  assumes "wide ns"
  shows "valid_utf8 (utf8 ns @ s) = valid_utf8 s" "concat (map escape (utf8 ns)) = utf8 ns"
proof -
  show "valid_utf8 (utf8 ns @ s) = valid_utf8 s"
    using assms
  proof (induction ns)
    case (Cons n ns)
    have n: "4096 \<le> n" "n < 65536" "n div 4096 \<noteq> 13" and ns: "wide ns"
      using Cons.prems unfolding wide_def list.pred_inject(2) by blast+
    have u: "utf8 (n # ns) @ s = utf8_enc n @ (utf8 ns @ s)" by (simp add: utf8_def)
    show ?case unfolding u utf8_enc_wide(1) [OF n] by (rule Cons.IH [OF ns])
  qed (simp add: utf8_def)
  have "\<forall>c \<in> set (utf8_enc n). 128 \<le> byte c" if "n \<in> set ns" for n
    using assms that unfolding wide_def list_all_iff by (intro utf8_enc_wide(2)) blast+
  then have "\<forall>c \<in> set (utf8 ns). 128 \<le> byte c" by (auto simp: utf8_def)
  then have e: "map escape (utf8 ns) = map (\<lambda>c. [c]) (utf8 ns)" by (simp add: escape_high)
  show "concat (map escape (utf8 ns)) = utf8 ns" unfolding e by simp
qed

text \<open>The codes of the errors the backend writes itself.\<close>

definition FIXED_CODES :: "int set" where
  "FIXED_CODES = {3001, REQUEST_TIMEOUT, TARGET_OFFLINE}"

lemma fixed_error_stored:
  assumes w: "wide ns" and c: "c \<in> FIXED_CODES" and st: "st \<in> {PLANNED, FAILED, INTERRUPTED}"
  shows "\<exists>t'. db_finish True now tid st None (Some (error_dict c (utf8 ns))) t = Inr t'"
proof -
  have codes: "show_int 3001 = ''3001''" "show_int 1002 = ''1002''" "show_int 4000 = ''4000''" by code_simp+
  have nats: "show_nat 3001 = ''3001''" "show_nat 1002 = ''1002''" "show_nat 4000 = ''4000''" by code_simp+
  have "valid_utf8 (dumps (PDict (error_dict c (utf8 ns))))"
    using c by (auto simp: FIXED_CODES_def error_dict_def codes show_str_def escape_def QUOTE_def BACKSLASH_def
        REQUEST_TIMEOUT_def TARGET_OFFLINE_def utf8_wide [OF w])
  moreover have "ints_fit (PDict (error_dict c (utf8 ns)))"
    using c by (auto simp: FIXED_CODES_def error_dict_def MAX_DIGITS_def nats REQUEST_TIMEOUT_def TARGET_OFFLINE_def)
  moreover have "all_finite (PDict (error_dict c (utf8 ns)))" by (simp add: error_dict_def)
  ultimately show ?thesis
    using st by (simp add: db_finish_def finish_def json_dumps_def bind_text_def rmap_snd_def split: option.split del: dumps.simps)
qed

section \<open>From the worker's save to the end\<close>

text \<open>The outcome the worker is saving, if it is saving one, is one the database takes.\<close>

definition storable :: "'a robot_scheme \<Rightarrow> bool" where
  "storable s \<longleftrightarrow>
     (case worker s of None \<Rightarrow> True
      | Some w \<Rightarrow>
          (case w_phase w of
             WSaving st rs er \<Rightarrow> (case db_finish True 0 (w_task w) st rs er (db s) of Inl _ \<Rightarrow> False | Inr _ \<Rightarrow> True)
           | _ \<Rightarrow> True))"

definition TERMINAL :: "string set" where
  "TERMINAL = {PLANNED, FAILED, INTERRUPTED}"

definition settles :: "'l lib_scheme \<Rightarrow> settings \<Rightarrow> string \<Rightarrow> gateway \<Rightarrow> bool" where
  "settles L S tid s \<longleftrightarrow>
     (\<exists>s' st. gsteps L S {} s s' \<and> st \<in> TERMINAL \<and> status_of (db s') tid = Some st \<and> active_id s' = None)"

lemma settles_step: "gstep L S {} s s1 \<Longrightarrow> settles L S tid s1 \<Longrightarrow> settles L S tid s"
  unfolding settles_def using gsteps.more [of L S "{}" s s1 "{}"] by fastforce

lemma saving_settles:
  assumes I: "robot_inv A s" and w: "worker s = Some w" "w_phase w = WSaving st rs er"
    and f: "db_finish True 0 (w_task w) st rs er (db s) = Inr t"
  shows "settles L S (w_task w) s"
proof -
  have st: "st \<in> TERMINAL" "status_of (db s) (w_task w) = Some PLANNING"
    using I w by (auto simp: robot_inv_def TERMINAL_def)
  have row: "status_of t (w_task w) = Some st" using db_finish_InrD(3) [OF f] st(2) by simp
  have g: "gstep L S {} s (run_saved True 0 w st rs er s)" using saved [OF w, of L S True 0] f by simp
  show ?thesis
  proof (cases "w_cb w")
    case None
    then have "db (run_saved True 0 w st rs er s) = t" "active_id (run_saved True 0 w st rs er s) = None"
      by (simp_all add: run_saved_def f run_end_def)
    then show ?thesis using gsteps.more [OF g gsteps.none] row st(1) unfolding settles_def by fastforce
  next
    case (Some k)
    then have r: "run_saved True 0 w st rs er s = set_phase WNotifying (s\<lparr>db := t\<rparr>)" by (simp add: run_saved_def f)
    let ?s = "set_phase WNotifying (s\<lparr>db := t\<rparr>)"
    let ?w = "w\<lparr>w_phase := WNotifying\<rparr>"
    have n: "gstep L S {} ?s (run_notified (dispatch_on_finished 0) True ?w ?s)"
      by (rule notified) (simp_all add: w(1) set_phase_def)
    have fin: "db (dispatch_on_finished 0 k v ?s) = db ?s" for v
      using gw.fin_view [of 0 k v ?s] by (simp add: robot_view_def robot_part_eq)
    have "db (run_notified (dispatch_on_finished 0) True ?w ?s) = db ?s"
      using fin by (simp add: run_notified_def Some split: sum.split option.split)
    moreover have "db ?s = t" by (simp add: set_phase_def)
    moreover have "active_id (run_notified (dispatch_on_finished 0) True ?w ?s) = None"
      by (simp add: run_notified_def run_end_def)
    moreover have "gsteps L S {} s (run_notified (dispatch_on_finished 0) True ?w ?s)"
      using gsteps.more [OF g [unfolded r] gsteps.more [OF n gsteps.none]] by simp
    ultimately show ?thesis using row st(1) unfolding settles_def by metis
  qed
qed

lemma saving_fixed_settles:
  assumes "robot_inv A s" "worker s = Some (w\<lparr>w_phase := WSaving FAILED None (Some (error_dict c (utf8 ns)))\<rparr>)"
    and "wide ns" "c \<in> FIXED_CODES"
  shows "settles L S (w_task w) s"
  using saving_settles [OF assms(1,2), where L = L and S = S]
    fixed_error_stored [OF assms(3,4), of FAILED 0 "w_task w" "db s"] by auto

lemma pending_settles:
  assumes I: "robot_inv A s" and w: "worker s = Some w" "phase_pending (w_phase w) (w_task w) = [(w_task w, r)]"
  shows "settles L S (w_task w) s"
proof -
  let ?s = "run_timeout L S w r s"
  let ?w = "w\<lparr>w_phase := WSaving FAILED None (Some (error_dict REQUEST_TIMEOUT TEXT_PLAN_TIMEOUT))\<rparr>"
  have g: "gstep L S {} s ?s" by (rule timed_out [OF w])
  have J: "robot_inv A ?s" using gstep_robot_inv [OF g I] by simp
  have "worker ?s = Some ?w" by (simp add: run_timeout_def run_save_worker w(1) run_outcome_def)
  then have "settles L S (w_task w) ?s"
    unfolding TEXT_PLAN_TIMEOUT_def by (rule saving_fixed_settles [OF J]) (simp_all add: wide_def FIXED_CODES_def)
  then show ?thesis by (rule settles_step [OF g])
qed

text \<open>A worker that starts offline or with a request it cannot send fails; else it waits.\<close>

lemma start_settles:
  assumes I: "robot_inv A s" and w: "worker s = Some w" "w_phase w = WCreated"
  shows "settles L S (w_task w) s"
proof -
  let ?s = "run_start False L S 0 w s"
  have g: "gstep L S {} s ?s" by (rule started [OF w]) (simp add: may_send_def)
  have J: "robot_inv A ?s" using gstep_robot_inv [OF g I] by simp
  obtain s1 r res where b: "plan_begin False 0 (w_task w) (w_payload w) s = (s1, r, res)"
    by (cases "plan_begin False 0 (w_task w) (w_payload w) s") auto
  have w1: "worker s1 = Some w"
    using robot_cong [OF plan_begin_fields(4) [OF b]] w(1) by (simp add: robot_part_eq)
  note fixed = saving_fixed_settles [OF J, where L = L and S = S]
  have "settles L S (w_task w) ?s"
    using b
  proof (cases rule: plan_begin_cases)
    case (failed e)
    then have "worker ?s = Some (w\<lparr>w_phase := WSaving FAILED None (Some (error_dict 3001 TEXT_BAD_RESULT))\<rparr>)"
      by (simp add: run_start_def b run_save_worker w1 run_outcome_def)
    then show ?thesis unfolding TEXT_BAD_RESULT_def by (rule fixed) (simp_all add: wide_def FIXED_CODES_def)
  next
    case offline
    then have "worker ?s = Some (w\<lparr>w_phase := WSaving FAILED None (Some (error_dict TARGET_OFFLINE TEXT_SEND_FAILED))\<rparr>)"
      by (simp add: run_start_def b run_save_worker w1 run_outcome_def)
    then show ?thesis unfolding TEXT_SEND_FAILED_def by (rule fixed) (simp_all add: wide_def FIXED_CODES_def)
  next
    case (queued c m)
    then have "worker ?s = Some (w\<lparr>w_phase := WQueued r c m\<rparr>)" by (simp add: run_start_def b w1)
    from pending_settles [OF J this, where L = L and S = S] show ?thesis by simp
  next
    case (written c m)
    then have "worker ?s = Some (w\<lparr>w_phase := WSending r c\<rparr>)" by (simp add: run_start_def b w1)
    from pending_settles [OF J this, where L = L and S = S] show ?thesis by simp
  qed
  then show ?thesis by (rule settles_step [OF g])
qed

section \<open>Every open task can be settled\<close>

lemma aborting_settles:
  assumes I: "robot_inv A s" and l: "sub_lock s = LAborting tid cb"
  shows "settles L S tid s"
proof -
  obtain t where f: "db_finish True 0 tid INTERRUPTED None (Some (error_dict 3001 TEXT_CANCELLED)) (db s) = Inr t"
    unfolding TEXT_CANCELLED_def using fixed_error_stored [of _ 3001 INTERRUPTED 0 tid "db s"]
    by (fastforce simp: wide_def FIXED_CODES_def)
  have a: "submit_aborted True 0 s = (release_submission (s\<lparr>db := t\<rparr>), Some (Inl Cancelled))"
    by (simp add: submit_aborted_def l f)
  let ?s = "after_submit L 0 cb (submit_aborted True 0 s)"
  have g: "gstep L S {} s ?s" using aborted [OF l, of L S True 0] by (simp add: a)
  have "robot_view ?s = robot_view (release_submission (s\<lparr>db := t\<rparr>))"
    by (rule robot_truncateD(2)) (simp add: after_submit_frame a)
  then have s: "db ?s = t" "active_id ?s = None"
    by (simp_all add: robot_view_def robot_part_eq release_submission_def)
  have "status_of (db s) tid = Some PLANNING" using I l by (auto simp: robot_inv_def)
  then have "status_of t tid = Some INTERRUPTED" using db_finish_InrD(3) [OF f] by simp
  then show ?thesis
    using gsteps.more [OF g gsteps.none] s unfolding settles_def TERMINAL_def by fastforce
qed

lemma open_task_settles:
  assumes I: "robot_inv A s" and n: "\<not> closing s" and p: "status_of (db s) tid = Some PLANNING" "tid \<notin> A"
    and st: "storable s"
  shows "settles L S tid s"
proof (cases "sub_lock s")
  case (LAborting t cb)
  moreover have "t = tid" using I p LAborting by (auto simp: robot_inv_def)
  ultimately show ?thesis using aborting_settles [OF I] by blast
next
  case (LCreating t q cb c)
  then show ?thesis using I p by (auto simp: robot_inv_def)
next
  case LClosing
  then show ?thesis using I n by (auto simp: robot_inv_def)
next
  case LFree
  have a: "active_id s = Some tid" using I p by (auto simp: robot_inv_def)
  then have "\<not> idle (worker s)" using I n LFree by (auto simp: robot_inv_def)
  then obtain w where w: "worker s = Some w" "w_phase w \<noteq> WDone" by (cases "worker s") auto
  then have t: "w_task w = tid" using I a LFree by (auto simp: robot_inv_def)
  show ?thesis
  proof (cases "w_phase w")
    case (WSaving x rs er)
    then obtain t where "db_finish True 0 (w_task w) x rs er (db s) = Inr t"
      using st w(1) by (auto simp: storable_def split: sum.splits)
    then show ?thesis using saving_settles [OF I w(1) WSaving, where L = L and S = S] t by simp
  next
    case WNotifying
    then show ?thesis using I w t p by (auto simp: robot_inv_def)
  qed (use w start_settles [OF I w(1), where L = L and S = S] pending_settles [OF I w(1), where L = L and S = S] t in simp_all)
qed

end
