(* ===== verification/Lifespan.thy ===== *)
theory Lifespan
  imports HttpGateway GatewayLock LogUtil Settling
begin

text \<open>
  \<open>lifespan\<close> of \<open>backend/app/api/application.py\<close>: the start of the gateway with its stack of
  cleanups, what a failure in it undoes, and the shutdown, which closes the robot service, the
  dispatch service and the server, restores the logs and gives the lock back, in this order.
\<close>

section \<open>The world of a gateway process\<close>

text \<open>
  The lock object and the system's table of locks, the loggers, the database file, and the running
  gateway while its server is open.
\<close>

record world =
  w_lock :: gateway_lock
  w_os :: lock_os
  w_logs :: logging
  w_disk :: "table option"
  w_gateway :: "gateway option"

text \<open>What the environment does to each action of the start.\<close>

record start_env =
  lock_opened :: "unit res"
  lock_failing :: bool
  log_opened :: "unit res"
  table_made :: "unit res"
  rows_recovered :: "unit res"
  listening_done :: "unit res"

section \<open>The cleanup stack\<close>

text \<open>\<open>AsyncExitStack\<close>: the callbacks pushed so far, the last one first.\<close>

datatype cleanup = Unlock | RestoreLogs "nat \<times> (string \<times> nat) list" | CloseServer | CloseDispatch | CloseRobot

definition unlock :: "world \<Rightarrow> world" where
  "unlock w = (case release (w_lock w) (w_os w) of (k, fs) \<Rightarrow> w\<lparr>w_lock := k, w_os := fs\<rparr>)"

definition restore_logs :: "nat \<times> (string \<times> nat) list \<Rightarrow> world \<Rightarrow> world" where
  "restore_logs c w = w\<lparr>w_logs := cleanup_logs c (w_logs w)\<rparr>"

text \<open>Before the server listens only these two are on the stack.\<close>

fun undo :: "cleanup list \<Rightarrow> world \<Rightarrow> world" where
  "undo [] w = w"
| "undo (Unlock # cs) w = undo cs (unlock w)"
| "undo (RestoreLogs c # cs) w = undo cs (restore_logs c w)"
| "undo (_ # cs) w = undo cs w"

section \<open>Start\<close>

definition lifespan_start ::
  "start_env \<Rightarrow> pyval \<Rightarrow> int \<Rightarrow> world \<Rightarrow> world \<times> cleanup list res" where
  "lifespan_start e level now w =
     (case acquire (lock_opened e) (lock_failing e) (w_lock w) (w_os w) of
        (k, fs, Inl x) \<Rightarrow> (w\<lparr>w_lock := k, w_os := fs\<rparr>, Inl x)
      | (k, fs, Inr _) \<Rightarrow>
          (let w1 = w\<lparr>w_lock := k, w_os := fs\<rparr>
           in case configure_logs (log_opened e) level (w_logs w1) of
                (ls, Inl x) \<Rightarrow> (undo [Unlock] (w1\<lparr>w_logs := ls\<rparr>), Inl x)
              | (ls, Inr c) \<Rightarrow>
                  (let w2 = w1\<lparr>w_logs := ls\<rparr>; stack = [RestoreLogs c, Unlock]
                   in case table_made e of
                        Inl x \<Rightarrow> (undo stack w2, Inl x)
                      | Inr _ \<Rightarrow>
                          (let t = initialize (w_disk w2); w3 = w2\<lparr>w_disk := Some t\<rparr>
                           in case rows_recovered e of
                                Inl x \<Rightarrow> (undo stack w3, Inl x)
                              | Inr _ \<Rightarrow>
                                  (let w4 = w3\<lparr>w_disk := Some (snd (recover_interrupted now t))\<rparr>
                                   in case listening_done e of
                                        Inl x \<Rightarrow> (undo stack w4, Inl x)
                                      | Inr _ \<Rightarrow>
                                          (w4\<lparr>w_gateway := Some (gateway_start now (w_disk w))\<rparr>,
                                           Inr ([CloseRobot, CloseDispatch, CloseServer] @ stack)))))))"

section \<open>Shutdown\<close>

text \<open>
  \<open>RobotService.close\<close>: the flag is set at once; the lock is awaited, the worker cancelled and
  awaited; then a task left open is closed. Other coroutines run in between.
\<close>

inductive robot_closes :: "'l lib_scheme \<Rightarrow> settings \<Rightarrow> string set \<Rightarrow> bool \<Rightarrow> gateway \<Rightarrow> gateway \<Rightarrow> bool"
  for L :: "'l lib_scheme" and S :: settings where
  robot_closes: "gsteps L S A (close_request s) s1 \<Longrightarrow> sub_lock s1 = LClosing \<Longrightarrow> idle (worker s1) \<Longrightarrow>
    robot_closes L S A dbok s (close_finish dbok now s1)"

text \<open>\<open>DispatchService.close\<close>: every background coroutine is cancelled, and all are awaited.\<close>

inductive dispatch_closes :: "'l lib_scheme \<Rightarrow> settings \<Rightarrow> string set \<Rightarrow> gateway \<Rightarrow> gateway \<Rightarrow> bool"
  for L :: "'l lib_scheme" and S :: settings where
  dispatch_closes: "gsteps L S A (dispatch_close s) s1 \<Longrightarrow> background s1 = [] \<Longrightarrow> dispatch_closes L S A s s1"

text \<open>
  The exit of the stack. \<open>waits\<close> says whether \<open>Server.wait_closed\<close> waits for the open connections, as it
  does from Python 3.12.1 on; before, it returns at once. The patrol runs until then.
\<close>

inductive lifespan_exit :: "bool \<Rightarrow> 'l lib_scheme \<Rightarrow> settings \<Rightarrow> string set \<Rightarrow> bool \<Rightarrow> cleanup list \<Rightarrow> world \<Rightarrow> world \<Rightarrow> bool"
  for waits :: bool and L :: "'l lib_scheme" and S :: settings where
  empty: "lifespan_exit waits L S {} dbok [] w w"
| robot: "w_gateway w = Some s \<Longrightarrow> robot_closes L S B dbok s s1 \<Longrightarrow>
    lifespan_exit waits L S C dbok cs (w\<lparr>w_gateway := Some s1, w_disk := Some (db s1)\<rparr>) w' \<Longrightarrow>
    lifespan_exit waits L S (B \<union> C) dbok (CloseRobot # cs) w w'"
| dispatch: "w_gateway w = Some s \<Longrightarrow> dispatch_closes L S B s s1 \<Longrightarrow>
    lifespan_exit waits L S C dbok cs (w\<lparr>w_gateway := Some s1, w_disk := Some (db s1)\<rparr>) w' \<Longrightarrow>
    lifespan_exit waits L S (B \<union> C) dbok (CloseDispatch # cs) w w'"
| server: "w_gateway w = Some s \<Longrightarrow> gsteps L S B (close_listener s) s1 \<Longrightarrow> (waits \<Longrightarrow> clients s1 = []) \<Longrightarrow>
    lifespan_exit waits L S C dbok cs (w\<lparr>w_gateway := None, w_disk := Some (db (close_clients (gateway_on_disconnect now) s1))\<rparr>) w' \<Longrightarrow>
    lifespan_exit waits L S (B \<union> C) dbok (CloseServer # cs) w w'"
| logs: "lifespan_exit waits L S C dbok cs (restore_logs c w) w' \<Longrightarrow> lifespan_exit waits L S C dbok (RestoreLogs c # cs) w w'"
| lock: "lifespan_exit waits L S C dbok cs (unlock w) w' \<Longrightarrow> lifespan_exit waits L S C dbok (Unlock # cs) w w'"

section \<open>A closed robot service stays closed\<close>

definition robot_closed :: "'a robot_scheme \<Rightarrow> bool" where
  "robot_closed s \<longleftrightarrow> closing s \<and> active_id s = None \<and> idle (worker s) \<and> sub_lock s \<in> {LFree, LClosing}"

lemma robot_closed_part: "robot_part s' = robot_part s \<Longrightarrow> robot_closed s' = robot_closed s"
  by (simp add: robot_closed_def robot_part_eq)

lemma robot_closed_view: "robot_view s' = robot_view s \<Longrightarrow> robot_closed s' = robot_closed s"
  by (rule robot_closed_part) (simp add: robot_view_def)

lemma robot_closed_dispatch: "robot.truncate s' = robot.truncate s \<Longrightarrow> robot_closed s' = robot_closed s"
  by (rule robot_closed_view) (rule robot_truncateD(2))

lemma robot_view_background [simp]:
  "robot_view (discard i s) = robot_view s" "robot_view (await_at i b s) = robot_view s"
  by (rule robot_truncateD(2), simp)+

lemma background_cancel_closed: "robot_closed s \<Longrightarrow> robot_closed (background_cancel s p)"
  using robot_closed_dispatch [OF dispatch_fields(2)]
  by (cases p; cases "snd p") (auto simp: background_cancel_def submit_cancel_def robot_closed_def)

lemma dispatch_close_closed: "robot_closed s \<Longrightarrow> robot_closed (dispatch_close s)"
proof -
  have "robot_closed s \<Longrightarrow> robot_closed (foldl background_cancel s ps)" for ps and s :: "'a dispatch_scheme"
    by (induction ps arbitrary: s) (simp_all add: background_cancel_closed)
  then show "robot_closed s \<Longrightarrow> ?thesis" by (simp add: dispatch_close_def)
qed

lemma server_closed_iff:
  "robot_closed (connect tick c s) = robot_closed s"
  "robot_closed (handle_line (gateway_on_message now) (gateway_on_disconnect now) now tick c line s) = robot_closed s"
  "robot_closed (end_client (gateway_on_disconnect now) c s) = robot_closed s"
  "robot_closed (heartbeat_patrol (gateway_on_disconnect now) tick s) = robot_closed s"
  "robot_closed (close_clients (gateway_on_disconnect now) s) = robot_closed s"
  "robot_closed (close_listener s) = robot_closed s"
  by (rule robot_closed_view, rule gw.view_server)+

lemma gstep_closed:
  assumes "gstep L S B s s'" and c: "robot_closed s"
  shows "robot_closed s'"
  using assms(1)
proof cases
  case (send i md m free)
  then show ?thesis using c robot_closed_view [OF background_send_view(1)] by blast
next
  case (granted i c' m)
  then show ?thesis using c robot_closed_view [OF background_send_view(2)] by blast
next
  case (sent i c' now drained)
  have "robot_view s' = robot_view s"
    by (simp add: sent background_sent_def gw.view_send_finish)
  then show ?thesis using c robot_closed_view by blast
next
  case (plan_start i k obj now)
  then show ?thesis using c robot_closed_dispatch [OF push_fields(5)] by blast
next
  case (plan_enter i k rq now tid)
  have "submit_enter tid rq (Some k) s = (s, Inl (GatewayError 503 TARGET_OFFLINE TEXT_CLOSING))"
    using c by (simp add: submit_enter_def robot_closed_def)
  then have "robot.truncate s' = robot.truncate s" by (simp add: plan_enter plan_target_enter_def)
  then show ?thesis using c robot_closed_dispatch by blast
next
  case (http_enter rq tid)
  then show ?thesis using c by (simp add: submit_enter_def robot_closed_def)
next
  case (lost c')
  have "robot_view s' = robot_view s" by (rule robot_view_more) (simp add: lost more_simps)
  then show ?thesis using c robot_closed_view by blast
next
  case close_requested
  then show ?thesis using c by (simp add: close_request_def robot_closed_def)
next
  case (close_entered delivered thr now)
  then show ?thesis
    using c by (cases "worker s") (auto simp: close_enter_def run_cancel_def set_phase_def robot_closed_def Let_def)
next
  case (close_finished dbok now)
  then show ?thesis using c by (simp add: close_finish_def robot_closed_def)
next
  case dispatch_closed
  then show ?thesis using c by (simp add: dispatch_close_closed)
qed (insert c, (simp add: server_closed_iff; fail | force simp: robot_closed_def; fail)+)

lemma gsteps_closed: "gsteps L S B s s' \<Longrightarrow> robot_closed s \<Longrightarrow> robot_closed s'"
  by (induction rule: gsteps.induct) (auto dest: gstep_closed)

section \<open>Logs and lock come back\<close>

text \<open>No logger writes to a file that was not opened by then, and levels are those of before.\<close>

definition logs_fresh :: "logging \<Rightarrow> bool" where
  "logs_fresh s \<longleftrightarrow> (\<forall>n f. LogFile f \<in> set (log_handlers (loggers s n)) \<longrightarrow> f < next_file s) \<and> (\<forall>f \<in> set (open_files s). f < next_file s)"

definition logs_restored :: "logging \<Rightarrow> logging \<Rightarrow> bool" where
  "logs_restored s s' \<longleftrightarrow>
     (\<forall>n. filter (\<lambda>h. h \<noteq> Console) (log_handlers (loggers s' n)) = filter (\<lambda>h. h \<noteq> Console) (log_handlers (loggers s n))
        \<and> log_level (loggers s' n) = log_level (loggers s n))"

lemma configure_fails:
  assumes "configure_logs opened level s = (s', Inl e)"
  shows "logs_restored s s'"
proof (cases opened)
  case (Inl x)
  then show ?thesis using assms by (simp add: configure_logs_def logs_restored_def)
next
  case (Inr u)
  show ?thesis
  proof (cases "level_of level")
    case (Inl x)
    then show ?thesis
      using assms Inr
      by (auto simp: configure_logs_def Let_def LOG_NAMES_def get_logger_def logs_restored_def upd_logger_def add_handler_def)
  next
    case lev: (Inr v)
    have "\<exists>s'. attach ns level h s = (s', Inr ())" for ns h s
      by (induction ns arbitrary: s) (simp_all add: get_logger_def lev Let_def)
    then obtain s2 where "attach LOG_NAMES level (LogFile (next_file s)) (s\<lparr>open_files := open_files s @ [next_file s], next_file := Suc (next_file s)\<rparr>) = (s2, Inr ())"
      by blast
    then show ?thesis using assms Inr by (simp add: configure_logs_def Let_def)
  qed
qed

lemma configure_then_cleanup:
  assumes c: "configure_logs opened level s = (s1, Inr p)" and f: "logs_fresh s"
  shows "logs_restored s (cleanup_logs p s1)" "open_files (cleanup_logs p s1) = open_files s"
proof -
  let ?f = "next_file s"
  let ?s = "s\<lparr>open_files := open_files s @ [?f], next_file := Suc ?f\<rparr>"
  obtain u where a: "attach LOG_NAMES level (LogFile ?f) ?s = (s1, Inr u)"
      and p: "p = (?f, map (\<lambda>n. (n, log_level (loggers s n))) LOG_NAMES)"
    using c by (auto simp: configure_logs_def Let_def split: sum.splits prod.splits)
  note A = attach_fields [OF a LOG_NAMES_distinct]
  have l: "loggers s1 = (\<lambda>n. if n \<in> set LOG_NAMES then add_handler (LogFile ?f) (got level (loggers s n)) else loggers s n)"
      "open_files s1 = open_files s @ [?f]" using A by (simp_all add: fun_eq_iff)
  have new: "LogFile ?f \<notin> set (log_handlers (loggers s n))" "?f \<notin> set (open_files s)" for n
    using f by (auto simp: logs_fresh_def)
  have k: "loggers (cleanup_logs p s1) n = (if n \<in> set LOG_NAMES
      then (got level (loggers s n))\<lparr>log_level := log_level (loggers s n)\<rparr> else loggers s n)" for n
    using new(1) [of n]
    by (auto simp: cleanup_logs_def p foldl_upd_logger [OF LOG_NAMES_distinct] l(1) map_of_levels remove_handler_def
        add_handler_def got_def remove1_append)
  show "logs_restored s (cleanup_logs p s1)" by (simp add: logs_restored_def k got_def)
  show "open_files (cleanup_logs p s1) = open_files s"
  proof -
    have "open_files (foldl (\<lambda>s n. upd_logger n (g n) s) t ns) = open_files t" for g ns t
      by (induction ns arbitrary: t) (simp_all add: upd_logger_def)
    then show ?thesis using new(2) by (simp add: cleanup_logs_def p l(2) remove1_append)
  qed
qed

section \<open>Start and exit\<close>

lemma acquire_release:
  assumes a: "acquire opened failing k fs = (k', fs1, Inr u)" and k: "lock_stream k = None"
    and h: "\<And>p sid. holder fs p = Some sid \<Longrightarrow> sid < next_stream fs"
  shows "fst (release k' fs1) = k" "holder (snd (release k' fs1)) = holder fs" "lock_stream k' = Some (next_stream fs)"
proof -
  have "opened = Inr ()" "holder fs (lock_path k) = None" "k' = k\<lparr>lock_stream := Some (next_stream fs)\<rparr>"
      "holder fs1 = (holder fs)(lock_path k \<mapsto> next_stream fs)"
    using a by (auto simp: acquire_def Let_def split: sum.splits if_splits)
  moreover have "holder fs p \<noteq> Some (next_stream fs)" for p using h [of p] by blast
  ultimately show "fst (release k' fs1) = k" "holder (snd (release k' fs1)) = holder fs" "lock_stream k' = Some (next_stream fs)"
    using k by (auto simp: release_def fun_eq_iff)
qed

lemma acquire_refused:
  assumes a: "acquire opened failing k fs = (k', fs1, Inl e)"
    and h: "\<And>p sid. holder fs p = Some sid \<Longrightarrow> sid < next_stream fs"
  shows "k' = k" "holder fs1 = holder fs"
proof -
  have "holder fs p \<noteq> Some (next_stream fs)" for p using h [of p] by blast
  then show "k' = k" "holder fs1 = holder fs"
    using a by (auto simp: acquire_def Let_def fun_eq_iff split: sum.splits if_splits)
qed

lemma logs_restored_refl: "logs_restored s s"
  by (simp add: logs_restored_def)

text \<open>What a start that fails leaves behind: the lock free, the logs as they were, no gateway.\<close>

lemma start_fails:
  assumes st: "lifespan_start e level now w = (w', Inl x)" and logs: "logs_fresh (w_logs w)"
    and k: "lock_stream (w_lock w) = None" and h: "\<And>p sid. holder (w_os w) p = Some sid \<Longrightarrow> sid < next_stream (w_os w)"
  shows "w_lock w' = w_lock w \<and> holder (w_os w') = holder (w_os w) \<and> logs_restored (w_logs w) (w_logs w') \<and> w_gateway w' = w_gateway w"
proof -
  obtain k1 fs r where a: "acquire (lock_opened e) (lock_failing e) (w_lock w) (w_os w) = (k1, fs, r)"
    by (cases "acquire (lock_opened e) (lock_failing e) (w_lock w) (w_os w)") auto
  show ?thesis
  proof (cases r)
    case (Inl y)
    then show ?thesis
      using st a acquire_refused [OF a [unfolded Inl] h] by (auto simp: lifespan_start_def logs_restored_refl)
  next
    case (Inr u)
    note R = acquire_release [OF a [unfolded Inr] k h]
    have U: "w_lock (unlock v) = w_lock w" "holder (w_os (unlock v)) = holder (w_os w)"
        "w_logs (unlock v) = w_logs v" "w_gateway (unlock v) = w_gateway v"
      if "w_lock v = k1" "w_os v = fs" for v
      using that R by (cases "release k1 fs"; simp add: unlock_def)+
    obtain ls c where l: "configure_logs (log_opened e) level (w_logs w) = (ls, c)"
      by (cases "configure_logs (log_opened e) level (w_logs w)")
    show ?thesis
    proof (cases c)
      case (Inl y)
      then show ?thesis
        using st configure_fails [of "log_opened e" level "w_logs w" ls y] l
        by (auto simp: lifespan_start_def a Inr Let_def U)
    next
      case cc: (Inr p)
      have "logs_restored (w_logs w) (cleanup_logs p ls)"
        using configure_then_cleanup(1) [OF _ logs] l cc by simp
      then show ?thesis
        using st by (auto simp: lifespan_start_def a Inr Let_def l cc restore_logs_def U split: sum.splits)
    qed
  qed
qed

lemma start_succeeds:
  assumes st: "lifespan_start e level now w = (w', Inr stack)" and k: "lock_stream (w_lock w) = None"
    and h: "\<And>p sid. holder (w_os w) p = Some sid \<Longrightarrow> sid < next_stream (w_os w)"
  obtains c where "stack = [CloseRobot, CloseDispatch, CloseServer, RestoreLogs c, Unlock]"
    "configure_logs (log_opened e) level (w_logs w) = (w_logs w', Inr c)" "lock_stream (w_lock w') = Some (next_stream (w_os w))"
    "w_gateway w' = Some (gateway_start now (w_disk w))" "w_disk w' = Some (db (gateway_start now (w_disk w)))"
proof -
  obtain k1 fs u where a: "acquire (lock_opened e) (lock_failing e) (w_lock w) (w_os w) = (k1, fs, Inr u)"
    using st by (auto simp: lifespan_start_def split: prod.splits sum.splits)
  note R = acquire_release(3) [OF a k h]
  obtain ls c where "configure_logs (log_opened e) level (w_logs w) = (ls, Inr c)"
    using st by (auto simp: lifespan_start_def a Let_def split: prod.splits sum.splits)
  with st R show ?thesis
    by (intro that [of c]) (auto simp: lifespan_start_def a Let_def gateway_start_def split: sum.splits)
qed

lemma finish_stopped: "\<exists>t'. db_finish True now tid INTERRUPTED None (Some (error_dict 3001 TEXT_STOPPED)) t = Inr t'"
  unfolding TEXT_STOPPED_def by (rule fixed_error_stored) (simp_all add: wide_def FIXED_CODES_def)

section \<open>The shutdown\<close>

lemma robot_closes_closed:
  assumes r: "reachable L S disk A s" and d: "\<And>t. disk = Some t \<Longrightarrow> table_ok t"
    and c: "robot_closes L S B True s s'"
  shows "reachable L S disk (A \<union> B) s'" "robot_closed s'"
proof -
  obtain s1 now where robot_closes: "s' = close_finish True now s1" "gsteps L S B (close_request s) s1" "sub_lock s1 = LClosing" "idle (worker s1)"
    using c by cases blast
  have "reachable L S disk (A \<union> {}) (close_request s)" using r by (rule reachable.step) (rule gstep.close_requested)
  then have r1: "reachable L S disk (A \<union> B) s1" using gsteps_reachable [OF robot_closes(2)] by simp
  have "reachable L S disk (A \<union> B \<union> {}) s'"
    unfolding robot_closes(1) by (rule reachable.step [OF r1]) (rule gstep.close_finished [OF robot_closes(3,4)])
  then show "reachable L S disk (A \<union> B) s'" by simp
  have "robot_inv (A \<union> B) s1" using reachable_invs [OF r1] d by blast
  then have "closing s1" using robot_closes(3) by (simp add: robot_inv_def)
  moreover obtain t' where "\<And>tid. active_id s1 = Some tid \<Longrightarrow>
      db_finish True now tid INTERRUPTED None (Some (error_dict 3001 TEXT_STOPPED)) (db s1) = Inr t'"
    using finish_stopped [of now "the (active_id s1)" "db s1"] by (metis option.sel)
  ultimately show "robot_closed s'"
    using robot_closes(3,4)
    by (cases "active_id s1") (simp_all add: robot_closes(1) close_finish_def robot_closed_def)
qed

lemma dispatch_closes_closed:
  assumes r: "reachable L S disk A s" "robot_closed s" and c: "dispatch_closes L S B s s'"
  shows "reachable L S disk (A \<union> B) s'" "robot_closed s'"
proof -
  have g: "gsteps L S B (dispatch_close s) s'" using c by cases
  have "closing s" using r(2) by (simp add: robot_closed_def)
  then have "reachable L S disk (A \<union> {}) (dispatch_close s)" by (intro reachable.step [OF r(1)] gstep.dispatch_closed)
  then show "reachable L S disk (A \<union> B) s'" using gsteps_reachable [OF g] by simp
  show "robot_closed s'" by (rule gsteps_closed [OF g dispatch_close_closed [OF r(2)]])
qed

lemma close_waits_closed:
  assumes r: "reachable L S disk A s" "robot_closed s" and g: "gsteps L S B (close_listener s) s'"
  shows "reachable L S disk (A \<union> B) s'" "robot_closed s'"
proof -
  have "closing s" using r(2) by (simp add: robot_closed_def)
  then have "reachable L S disk (A \<union> {}) (close_listener s)" by (intro reachable.step [OF r(1)] gstep.listener_closed)
  then show "reachable L S disk (A \<union> B) s'" using gsteps_reachable [OF g] by simp
  show "robot_closed s'" by (rule gsteps_closed [OF g]) (simp add: server_closed_iff r(2))
qed

inductive_cases exitE [elim!]:
  "lifespan_exit waits L S A dbok [] w w'" "lifespan_exit waits L S A dbok (CloseRobot # cs) w w'"
  "lifespan_exit waits L S A dbok (CloseDispatch # cs) w w'" "lifespan_exit waits L S A dbok (CloseServer # cs) w w'"
  "lifespan_exit waits L S A dbok (RestoreLogs c # cs) w w'" "lifespan_exit waits L S A dbok (Unlock # cs) w w'"

lemma exit_effects:
  assumes x: "lifespan_exit waits L S B True [CloseRobot, CloseDispatch, CloseServer, RestoreLogs c, Unlock] w w'"
    and s: "w_gateway w = Some s" and r: "reachable L S disk A s" and d: "\<And>t. disk = Some t \<Longrightarrow> table_ok t"
  obtains s' where "reachable L S disk (A \<union> B) s'" "robot_closed s'"
    "w' = unlock (restore_logs c (w\<lparr>w_gateway := None, w_disk := Some (db s')\<rparr>))"
proof -
  obtain B1 B2 B3 s1 s2 s3 now where B: "B = B1 \<union> (B2 \<union> (B3 \<union> {}))"
      and c: "robot_closes L S B1 True s s1" "dispatch_closes L S B2 s1 s2" "gsteps L S B3 (close_listener s2) s3"
      and w': "w' = unlock (restore_logs c (w\<lparr>w_gateway := None, w_disk := Some (db (close_clients (gateway_on_disconnect now) s3))\<rparr>))"
    using x s by auto
  note R1 = robot_closes_closed [OF r d c(1)]
  note R2 = dispatch_closes_closed [OF R1 c(2)]
  note R3 = close_waits_closed [OF R2 c(3)]
  let ?s = "close_clients (gateway_on_disconnect now) s3"
  have "closing s3" using R3(2) by (simp add: robot_closed_def)
  then have "reachable L S disk (A \<union> B1 \<union> B2 \<union> B3 \<union> {}) ?s" by (intro reachable.step [OF R3(1)] gstep.clients_closed)
  then have "reachable L S disk (A \<union> B) ?s" by (simp add: B Un_assoc)
  then show ?thesis by (rule that [OF _ _ w']) (simp add: server_closed_iff R3(2))
qed

text \<open>In a closed gateway only rows that were given up are still \<open>planning\<close>.\<close>

lemma closed_rows:
  assumes "reachable L S disk A s" "\<And>t. disk = Some t \<Longrightarrow> table_ok t" "robot_closed s"
    and "status_of (db s) tid = Some PLANNING"
  shows "tid \<in> A"
proof -
  have "robot_inv A s" using reachable_invs [OF assms(1)] assms(2) by blast
  then show ?thesis using assms(3,4) by (simp add: robot_inv_def robot_closed_def)
qed

lemma unlock_released:
  "lock_stream (w_lock (unlock w)) = None" 
  "lock_stream (w_lock w) = Some sid \<Longrightarrow> holder (w_os (unlock w)) p \<noteq> Some sid"
  "w_gateway (unlock w) = w_gateway w" "w_disk (unlock w) = w_disk w" "w_logs (unlock w) = w_logs w"
  by (cases "lock_stream (w_lock w)"; simp add: unlock_def release_def)+

end
