(* ===== verification/HeldShutdown.thy ===== *)
theory HeldShutdown
  imports Lifespan ModuleLink
begin

text \<open>
  The shutdown while a module stays connected: the listener is closed and the server waits for the
  open connections, but the handler of the connection still answers heartbeats and the patrol finds
  the module alive.
\<close>

text \<open>What happens to the connection meanwhile: its module's heartbeat at a clock's time, or a round of the patrol.\<close>

datatype hold_event = Beat int pyfloat | Patrol int pyfloat

fun hold :: "string \<Rightarrow> nat \<Rightarrow> gateway \<Rightarrow> hold_event \<Rightarrow> gateway" where
  "hold md c s (Beat now tick) =
     handle_line (gateway_on_message now) (gateway_on_disconnect now) now tick c (line_of (heartbeat_of md now)) s"
| "hold md c s (Patrol now tick) = heartbeat_patrol (gateway_on_disconnect now) tick s"

text \<open>No round of the patrol is more than ten seconds after the last heartbeat.\<close>

fun timely :: "pyfloat \<Rightarrow> hold_event list \<Rightarrow> bool" where
  "timely since [] = True"
| "timely since (Beat now tick # es) = (clock_ok now \<and> timely tick es)"
| "timely since (Patrol now tick # es) = (\<not> HEARTBEAT_OFFLINE_SEC < tick - since \<and> timely since es)"

fun acks :: "string \<Rightarrow> nat \<Rightarrow> hold_event list \<Rightarrow> (nat \<times> message) list" where
  "acks md c [] = []"
| "acks md c (Beat now tick # es) = (c, ack_of HEARTBEAT_ACK md now) # acks md c es"
| "acks md c (Patrol now tick # es) = acks md c es"

definition held :: "string \<Rightarrow> nat \<Rightarrow> pyfloat \<Rightarrow> gateway \<Rightarrow> bool" where
  "held md c since s \<longleftrightarrow> server_inv s \<and> dget (sessions s) md = Some c
     \<and> (\<exists>x. conns s c = Some x \<and> \<not> writer_closing x \<and> last_heartbeat x = since)"

lemma held_beat:
  assumes h: "held md c since s" and t: "clock_ok now"
  shows "held md c tick (hold md c s (Beat now tick))"
    "sent (hold md c s (Beat now tick)) = sent s @ [(c, ack_of HEARTBEAT_ACK md now)]"
    "gstep L S {} s (hold md c s (Beat now tick))"
proof -
  obtain x where x: "server_inv s" "dget (sessions s) md = Some c" "conns s c = Some x" "\<not> writer_closing x"
    using h by (auto simp: held_def)
  have md: "md \<in> set REGISTRABLE" "module_id x = md"
    using server_invD(3,4) [OF x(1,2)] x(3) by (simp_all add: ident_def)
  note e = heartbeat_line [OF md(1) t t x(3) md(2) x(4)]
  show "gstep L S {} s (hold md c s (Beat now tick))" by (simp add: gstep.line x(3))
  have "server_inv (hold md c s (Beat now tick))" using gw.inv_handle_line [OF x(1)] by simp
  then show "held md c tick (hold md c s (Beat now tick))" using x by (simp add: held_def e)
  show "sent (hold md c s (Beat now tick)) = sent s @ [(c, ack_of HEARTBEAT_ACK md now)]" by (simp add: e)
qed

lemma held_patrol:
  assumes h: "held md c since s" and t: "\<not> HEARTBEAT_OFFLINE_SEC < tick - since"
  shows "held md c since (hold md c s (Patrol now tick))" "sent (hold md c s (Patrol now tick)) = sent s"
    "gstep L S {} s (hold md c s (Patrol now tick))"
proof -
  obtain x where x: "server_inv s" "dget (sessions s) md = Some c" "conns s c = Some x" "\<not> writer_closing x" "last_heartbeat x = since"
    using h by (auto simp: held_def)
  have n: "\<not> expired tick s c" using t x(3,5) by (simp add: expired_def)
  then show "held md c since (hold md c s (Patrol now tick))"
    using x gw.conns_patrol [OF n] gw.sessions_patrol [OF x(1)] gw.inv_heartbeat_patrol [OF x(1)]
    by (simp add: held_def)
  show "sent (hold md c s (Patrol now tick)) = sent s" by (simp add: gw.sent_frames)
  show "gstep L S {} s (hold md c s (Patrol now tick))" by (simp add: gstep.patrol)
qed

lemma held_run:
  assumes "held md c since s" "timely since es"
  shows "gsteps L S {} s (foldl (hold md c) s es)" "sent (foldl (hold md c) s es) = sent s @ acks md c es"
    "\<exists>since'. held md c since' (foldl (hold md c) s es)"
proof -
  have "gsteps L S {} s (foldl (hold md c) s es) \<and> sent (foldl (hold md c) s es) = sent s @ acks md c es
      \<and> (\<exists>since'. held md c since' (foldl (hold md c) s es))"
    using assms
  proof (induction es arbitrary: s since)
    case (Cons e es)
    have more: "gsteps L S {} s s2" if "gstep L S {} s s1" "gsteps L S {} s1 s2" for s1 s2
      using gsteps.more [OF that] by simp
    show ?case
    proof (cases e)
      case (Beat now tick)
      then have t: "clock_ok now" "timely tick es" using Cons.prems(2) by simp_all
      note H = held_beat [OF Cons.prems(1) t(1), where tick = tick]
      show ?thesis using Cons.IH [OF H(1) t(2)] more [OF H(3)] H(2) unfolding Beat by (simp del: hold.simps)
    next
      case (Patrol now tick)
      then have t: "\<not> HEARTBEAT_OFFLINE_SEC < tick - since" "timely since es" using Cons.prems(2) by simp_all
      note H = held_patrol [OF Cons.prems(1) t(1), where now = now]
      show ?thesis using Cons.IH [OF H(1) t(2)] more [OF H(3)] H(2) unfolding Patrol by (simp del: hold.simps)
    qed
  qed (auto intro: gsteps.none)
  then show "gsteps L S {} s (foldl (hold md c) s es)" "sent (foldl (hold md c) s es) = sent s @ acks md c es"
    "\<exists>since'. held md c since' (foldl (hold md c) s es)" by blast+
qed

lemma held_client: "held md c since s \<Longrightarrow> c \<in> set (clients s)"
  using server_invD(6) by (fastforce simp: held_def)

end
