(* ===== verification/GatewayMain.thy ===== *)
theory GatewayMain
  imports Settings GatewayLock LogUtil
begin

text \<open>
  The construction of the gateway: \<open>create_app\<close> of \<open>backend/app/api/application.py\<close> up to its
  objects, and \<open>main\<close> of \<open>backend/main/main.py\<close>, which hands the application to the HTTP server.
\<close>

text \<open>The settings, the lock of the database, the address of the TCP server, and the log level.\<close>

record app =
  app_settings :: settings
  app_lock :: gateway_lock
  app_host :: pyval
  app_port :: pyval
  app_level :: pyval

definition create_app :: "files \<Rightarrow> string option \<Rightarrow> string \<Rightarrow> pydict option \<Rightarrow> app res" where
  "create_app fs environ repo_root c =
     rbind (case c of None \<Rightarrow> load_config fs environ (path_join repo_root ''backend/config'') [] | Some d \<Rightarrow> Inr d) (\<lambda>config.
     rbind (from_config fs environ repo_root config) (\<lambda>S.
     rbind (rbind (getitem config ''server'') (\<lambda>v. subscript v ''host'')) (\<lambda>h.
     rbind (rbind (getitem config ''server'') (\<lambda>v. subscript v ''port'')) (\<lambda>p.
       Inr \<lparr>app_settings = S, app_lock = new_lock (database_path S), app_host = h, app_port = p,
            app_level = get_or config ''log_level'' (PStr ''INFO'')\<rparr>))))"

text \<open>What \<open>main\<close> passes to \<open>uvicorn.run\<close>; \<open>str.lower\<close> on ASCII letters.\<close>

record serving =
  served :: app
  api_host :: pyval
  api_port :: pyval
  workers :: nat
  api_level :: string

definition lower :: "string \<Rightarrow> string" where
  "lower = map (\<lambda>c. if 65 \<le> byte c \<and> byte c \<le> 90 then char_of (byte c + 32) else c)"

definition gateway_main :: "files \<Rightarrow> string option \<Rightarrow> string \<Rightarrow> serving res" where
  "gateway_main fs environ repo_root =
     rbind (load_config fs environ (path_join repo_root ''backend/config'') []) (\<lambda>config.
     rbind (create_app fs environ repo_root (Some config)) (\<lambda>a.
     rbind (rbind (getitem config ''api'') (\<lambda>v. subscript v ''host'')) (\<lambda>h.
     rbind (rbind (getitem config ''api'') (\<lambda>v. subscript v ''port'')) (\<lambda>p.
       case get_or config ''log_level'' (PStr ''INFO'') of
         PStr l \<Rightarrow> Inr \<lparr>served = a, api_host = h, api_port = p, workers = 1, api_level = lower l\<rparr>
       | _ \<Rightarrow> Inl AttributeError))))"

text \<open>
  Settings that were accepted leave nothing to fail but the log level: both addresses are there,
  and both are a host and a port.
\<close>

lemma check_listen_InrD:
  assumes "check_listen config name = Inr u"
  shows "\<exists>v h p. getitem config name = Inr v \<and> subscript v ''host'' = Inr (PStr h) \<and> h \<noteq> []
    \<and> subscript v ''port'' = Inr (PInt p) \<and> 0 \<le> p \<and> p \<le> 65535"
proof -
  obtain v h q where v: "getitem config name = Inr v" "subscript v ''host'' = Inr h" "is_str h" "truthy h"
      "subscript v ''port'' = Inr q" "(case q of PInt n \<Rightarrow> if 0 \<le> n \<and> n \<le> 65535 then Inr () else Inl ValueError | _ \<Rightarrow> Inl ValueError) = Inr u"
    using assms by (auto simp: check_listen_def res_simps split: if_splits)
  then show ?thesis by (cases h; cases q) (auto split: if_splits)
qed

lemma create_app_listens:
  assumes "from_config fs environ repo_root config = Inr S"
  shows "\<exists>h p. create_app fs environ repo_root (Some config) =
      Inr \<lparr>app_settings = S, app_lock = new_lock (database_path S), app_host = PStr h, app_port = PInt p,
           app_level = get_or config ''log_level'' (PStr ''INFO'')\<rparr> \<and> h \<noteq> [] \<and> 0 \<le> p \<and> p \<le> 65535"
proof -
  obtain u where "check_listen config ''server'' = Inr u"
    using assms by (auto simp: from_config_def res_simps split: if_splits)
  from check_listen_InrD [OF this] show ?thesis using assms by (auto simp: create_app_def)
qed

lemma gateway_main_outcome:
  assumes "load_config fs environ (path_join repo_root ''backend/config'') [] = Inr config"
    and "from_config fs environ repo_root config = Inr S" "get_or config ''log_level'' (PStr ''INFO'') = PStr l"
  shows "\<exists>a h p. gateway_main fs environ repo_root =
      Inr \<lparr>served = a, api_host = PStr h, api_port = PInt p, workers = 1, api_level = lower l\<rparr>
      \<and> app_settings a = S \<and> h \<noteq> [] \<and> 0 \<le> p \<and> p \<le> 65535"
proof -
  obtain u where "check_listen config ''api'' = Inr u"
    using assms(2) by (auto simp: from_config_def res_simps split: if_splits)
  from check_listen_InrD [OF this] show ?thesis
    using create_app_listens [OF assms(2)] assms(1,3) by (auto simp: gateway_main_def)
qed

end
