(* ===== verification/SceneData.thy ===== *)
theory SceneData
  imports PyValue "HOL-Library.Word"
begin

text \<open>
  \<open>embedded/tools/export_ur5_model.py\<close>, the reading half: the container of a scene file with its
  Huffman compression, the records in it, and the scene objects with their fields. Bytes are
  \<open>8 word\<close>s; offsets and bit positions are Python's unbounded integers.
\<close>

section \<open>Numbers in little-endian bytes\<close>

type_synonym bytes = "8 word list"

fun le_uint :: "bytes \<Rightarrow> int" where
  "le_uint [] = 0"
| "le_uint (b # bs) = uint b + 256 * le_uint bs"

text \<open>\<open>unpack_from('<I', data, i)\<close> and \<open>'<i'\<close>, at a place with four bytes.\<close>

definition u32_at :: "bytes \<Rightarrow> nat \<Rightarrow> int" where
  "u32_at bs i = le_uint (take 4 (drop i bs))"

definition i32_at :: "bytes \<Rightarrow> nat \<Rightarrow> int" where
  "i32_at bs i = (if u32_at bs i < 2 ^ 31 then u32_at bs i else u32_at bs i - 2 ^ 32)"

text \<open>\<open>'<d'\<close> at a place with eight bytes: the IEEE-754 fields of a double.\<close>

definition double_at :: "bytes \<Rightarrow> nat \<Rightarrow> pyfloat" where
  "double_at bs i =
     (let u = le_uint (take 8 (drop i bs));
          e = u div 2 ^ 52 mod 2 ^ 11; m = u mod 2 ^ 52;
          s = (if u < 2 ^ 63 then 1 else - 1) :: rat
      in if e = 2047 then (if m \<noteq> 0 then NaN else if s = 1 then PInf else NInf)
         else if e = 0 then with_sign (s = - 1) (Fin (s * of_int m * 2 powi - 1074))
         else Fin (s * of_int (2 ^ 52 + m) * 2 powi (e - 1075)))"

text \<open>\<open>struct.unpack('<7d', value)\<close> and its like: the length must fit exactly.\<close>

definition doubles :: "nat \<Rightarrow> bytes \<Rightarrow> pyfloat list res" where
  "doubles n bs = (if length bs \<noteq> 8 * n then Inl StructError else Inr (map (\<lambda>k. double_at bs (8 * k)) [0..<n]))"

text \<open>Bytes as text.\<close>

definition text_bytes :: "bytes \<Rightarrow> string" where
  "text_bytes bs = map (\<lambda>b. char_of (unat b)) bs"

definition bytes_of :: "string \<Rightarrow> bytes" where
  "bytes_of s = map (\<lambda>c. of_nat (byte c)) s"

section \<open>Huffman-coded data\<close>

text \<open>Bit \<open>i\<close> of the data, the first bit of a byte being its highest: \<open>(data[i // 8] >> (7 - i % 8)) & 1\<close>.\<close>

definition bit_at :: "bytes \<Rightarrow> nat \<Rightarrow> bool" where
  "bit_at bs i = bit (bs ! (i div 8)) (7 - i mod 8)"

fun read_bits :: "bytes \<Rightarrow> nat \<Rightarrow> nat \<Rightarrow> nat \<Rightarrow> (nat \<times> nat) res" where
  "read_bits bs 0 v i = Inr (v, i)"
| "read_bits bs (Suc n) v i =
     (if length bs * 8 \<le> i then Inl ValueError
      else read_bits bs n (2 * v + of_bool (bit_at bs i)) (i + 1))"

datatype htree = HLeaf nat | HNode htree htree

definition MAX_DEPTH :: nat where "MAX_DEPTH = 255"

text \<open>\<open>read_tree\<close>, with the bit position and the set \<open>leaves\<close>; its result is the tree and both after it.\<close>

function read_tree :: "bytes \<Rightarrow> nat \<Rightarrow> nat \<Rightarrow> nat set \<Rightarrow> (htree \<times> nat \<times> nat set) res" where
  "read_tree bs depth i leaves =
     (if MAX_DEPTH < depth then Inl ValueError
      else rbind (read_bits bs 1 0 i) (\<lambda>(b, i1).
        if b \<noteq> 0 then
          rbind (read_bits bs 8 0 i1) (\<lambda>(symbol, i2).
            if symbol \<in> leaves then Inl ValueError else Inr (HLeaf symbol, i2, insert symbol leaves))
        else
          rbind (read_tree bs (depth + 1) i1 leaves) (\<lambda>(l, i2, leaves2).
          rbind (read_tree bs (depth + 1) i2 leaves2) (\<lambda>(r, i3, leaves3).
            Inr (HNode l r, i3, leaves3)))))"
  by pat_completeness auto
termination
  by (relation "measure (\<lambda>(bs, depth, i, leaves). 256 - depth)") (auto simp: MAX_DEPTH_def)

declare read_tree.simps [simp del]

text \<open>One symbol: from the root to a leaf; then as many as the header says.\<close>

fun read_symbol :: "bytes \<Rightarrow> htree \<Rightarrow> nat \<Rightarrow> (nat \<times> nat) res" where
  "read_symbol bs (HLeaf s) i = Inr (s, i)"
| "read_symbol bs (HNode l r) i =
     rbind (read_bits bs 1 0 i) (\<lambda>(b, i1). if b = 0 then read_symbol bs l i1 else read_symbol bs r i1)"

fun read_symbols :: "bytes \<Rightarrow> htree \<Rightarrow> nat \<Rightarrow> nat \<Rightarrow> bytes res" where
  "read_symbols bs t 0 i = Inr []"
| "read_symbols bs t (Suc n) i =
     rbind (read_symbol bs t i) (\<lambda>(s, i1). rbind (read_symbols bs t n i1) (\<lambda>out. Inr (of_nat s # out)))"

definition HEADER :: nat where "HEADER = 1021"

definition decode_scene :: "bytes \<Rightarrow> bytes res" where
  "decode_scene raw =
     (if length raw < HEADER \<or> take 4 raw \<noteq> bytes_of ''VREP'' \<or> u32_at raw 4 \<noteq> 25 then Inl ValueError
      else let size = u32_at raw 13; bs = drop HEADER raw
      in if \<not> (0 < size \<and> size \<le> 100000000) then Inl ValueError
         else if raw ! 12 = 0 then (if int (length bs) \<noteq> size then Inl ValueError else Inr bs)
         else if raw ! 12 \<noteq> 1 then Inl ValueError
         else rbind (read_tree bs 0 0 {}) (\<lambda>(t, i, leaves). read_symbols bs t (nat size) i))"

section \<open>Records\<close>

text \<open>
  \<open>records\<close> is a generator: the records it yields from an offset on, and the exception that ends
  it, if one does.
\<close>

function records :: "bytes \<Rightarrow> nat \<Rightarrow> (string \<times> bytes) list \<times> pyexc option" where
  "records bs offset =
     (if length bs < offset + 3 then ([], None)
      else let raw_name = take 3 (drop offset bs); name = text_bytes raw_name; offset = offset + 3
      in if list_ex (\<lambda>b. 128 \<le> b) raw_name then ([], Some UnicodeDecodeError)
         else if name = ''EOF'' then ([], None)
         else if name = ''NXT'' \<or> name = ''EOO'' then records bs offset
         else if length bs < offset + 4 then ([], Some ValueError)
         else let size = i32_at bs offset; offset = offset + 4
         in if size < 0 \<or> int (length bs) < int offset + size then ([], Some ValueError)
            else case records bs (offset + nat size) of
                   (rs, e) \<Rightarrow> ((name, take (nat size) (drop offset bs)) # rs, e))"
  by pat_completeness auto
termination
  by (relation "measure (\<lambda>(bs, offset). length bs - offset)") auto

declare records.simps [simp del]

section \<open>Objects\<close>

text \<open>The dictionary of one object; a key that is absent is \<open>None\<close>.\<close>

record scene_object =
  obj_kind :: string
  obj_id :: "int option"
  obj_parent :: "int option"
  obj_ali :: "string option"
  obj_name :: "string option"
  obj_pose :: "pyfloat list option"
  obj_minimum :: "pyfloat option"
  obj_range :: "pyfloat option"
  obj_angle :: "pyfloat option"

definition new_object :: "string \<Rightarrow> scene_object" where
  "new_object k =
     \<lparr>obj_kind = k, obj_id = None, obj_parent = None, obj_ali = None, obj_name = None, obj_pose = None,
      obj_minimum = None, obj_range = None, obj_angle = None\<rparr>"

definition decode_text :: "bytes \<Rightarrow> string res" where
  "decode_text bs = (if valid_utf8 (text_bytes bs) then Inr (text_bytes bs) else Inl UnicodeDecodeError)"

definition read_field :: "scene_object \<Rightarrow> string \<Rightarrow> bytes \<Rightarrow> scene_object res" where
  "read_field ob name v =
     (if name = ''Ids'' then
        (if length v \<noteq> 8 then Inl StructError
         else Inr (ob\<lparr>obj_id := Some (i32_at v 0), obj_parent := Some (i32_at v 4)\<rparr>))
      else if name = ''Ali'' then rbind (decode_text (drop 4 v)) (\<lambda>s. Inr (ob\<lparr>obj_ali := Some s\<rparr>))
      else if name = ''Nme'' then rbind (decode_text (drop 4 v)) (\<lambda>s. Inr (ob\<lparr>obj_name := Some s\<rparr>))
      else if name = ''_fq'' then rbind (doubles 7 v) (\<lambda>p. Inr (ob\<lparr>obj_pose := Some p\<rparr>))
      else if obj_kind ob = ''JNT'' \<and> name = ''_mr'' \<and> length v = 16 then
        Inr (ob\<lparr>obj_minimum := Some (double_at v 0), obj_range := Some (double_at v 8)\<rparr>)
      else if obj_kind ob = ''JNT'' \<and> name = ''_rt'' then
        rbind (doubles 1 v) (\<lambda>a. Inr (ob\<lparr>obj_angle := Some (hd a)\<rparr>))
      else Inr ob)"

text \<open>A loop over a generator: the body may raise before the generator does.\<close>

fun for_records :: "('s \<Rightarrow> string \<Rightarrow> bytes \<Rightarrow> 's res) \<Rightarrow> 's \<Rightarrow> (string \<times> bytes) list \<times> pyexc option \<Rightarrow> 's res" where
  "for_records f s ([], None) = Inr s"
| "for_records f s ([], Some e) = Inl e"
| "for_records f s ((name, v) # rs, e) = rbind (f s name v) (\<lambda>s1. for_records f s1 (rs, e))"

type_synonym objects = "(int, scene_object) dict"

definition read_object :: "objects \<Rightarrow> string \<Rightarrow> bytes \<Rightarrow> objects res" where
  "read_object objs kind payload =
     (if take 3 payload \<noteq> bytes_of ''3do'' then Inr objs
      else rbind (for_records read_field (new_object kind) (records payload 0)) (\<lambda>ob.
        case (obj_id ob, obj_parent ob, obj_pose ob, obj_name ob) of
          (Some k, Some _, Some _, Some _) \<Rightarrow> Inr (dset k ob objs)
        | _ \<Rightarrow> Inl ValueError))"

definition read_objects :: "bytes \<Rightarrow> objects res" where
  "read_objects bs = for_records read_object [] (records bs 0)"

end
