(* ===== verification/PyRandom.thy ===== *)
theory PyRandom
  imports PyFloat "HOL-Library.Word"
begin

text \<open>
  \<open>random.Random(seed)\<close> with \<open>random()\<close> and \<open>uniform(a, b)\<close>: the Mersenne Twister MT19937 as the
  interpreter has it, seeded by an integer. The exporter's test poses are drawn from it.
\<close>

unbundle bit_operations_syntax

section \<open>The generator\<close>

type_synonym w32 = "32 word"

definition MT_SIZE :: nat where "MT_SIZE = 624"
definition MT_SHIFT :: nat where "MT_SHIFT = 397"

text \<open>The state: 624 words and the index of the next one.\<close>

type_synonym mt = "w32 list \<times> nat"

text \<open>\<open>init_genrand\<close>: each word from the one before it, the latest first.\<close>

fun init_words :: "nat \<Rightarrow> nat \<Rightarrow> w32 list \<Rightarrow> w32 list" where
  "init_words 0 i ws = ws"
| "init_words (Suc n) i ws =
     init_words n (i + 1) ((1812433253 * (hd ws XOR drop_bit 30 (hd ws)) + of_nat i) # ws)"

definition init_genrand :: "w32 \<Rightarrow> w32 list" where
  "init_genrand s = rev (init_words (MT_SIZE - 1) 1 [s])"

text \<open>\<open>mt[i] = (mt[i] ^ ((mt[i-1] ^ (mt[i-1] >> 30)) * f)) + c\<close>, and the wrap of the index.\<close>

definition mix :: "w32 \<Rightarrow> w32 \<Rightarrow> nat \<Rightarrow> w32 list \<Rightarrow> w32 list \<times> nat" where
  "mix f c i ws =
     (let p = ws ! (i - 1); vs = ws[i := (ws ! i XOR (p XOR drop_bit 30 p) * f) + c]
      in if MT_SIZE \<le> i + 1 then (vs[0 := vs ! (MT_SIZE - 1)], 1) else (vs, i + 1))"

text \<open>The two loops of \<open>init_by_array\<close>, counted down by their first argument.\<close>

fun mix_key :: "nat \<Rightarrow> w32 list \<Rightarrow> nat \<Rightarrow> w32 list \<times> nat \<Rightarrow> w32 list \<times> nat" where
  "mix_key 0 key j (ws, i) = (ws, i)"
| "mix_key (Suc k) key j (ws, i) =
     mix_key k key (if length key \<le> j + 1 then 0 else j + 1) (mix 1664525 (key ! j + of_nat j) i ws)"

fun mix_index :: "nat \<Rightarrow> w32 list \<times> nat \<Rightarrow> w32 list \<times> nat" where
  "mix_index 0 (ws, i) = (ws, i)"
| "mix_index (Suc k) (ws, i) = mix_index k (mix 1566083941 (- of_nat i) i ws)"

definition init_by_array :: "w32 list \<Rightarrow> mt" where
  "init_by_array key =
     (case mix_index (MT_SIZE - 1) (mix_key (max MT_SIZE (length key)) key 0 (init_genrand 19650218, 1)) of
        (ws, i) \<Rightarrow> (ws[0 := 0x80000000], MT_SIZE))"

text \<open>The key of an integer seed: the 32-bit digits of its absolute value, the lowest first.\<close>

function digits32 :: "int \<Rightarrow> w32 list" where
  "digits32 n = word_of_int n # (if n < 2 ^ 32 then [] else digits32 (n div 2 ^ 32))"
  by pat_completeness auto
termination
  by (relation "measure nat") (auto simp: int_div_less_self)

declare digits32.simps [simp del]

definition seeded :: "int \<Rightarrow> mt" where
  "seeded n = init_by_array (digits32 \<bar>n\<bar>)"

text \<open>All words are renewed when they are used up.\<close>

definition twist_at :: "w32 list \<Rightarrow> nat \<Rightarrow> w32 list" where
  "twist_at ws k =
     (let y = (ws ! k AND 0x80000000) OR (ws ! ((k + 1) mod MT_SIZE) AND 0x7fffffff)
      in ws[k := ws ! ((k + MT_SHIFT) mod MT_SIZE) XOR drop_bit 1 y XOR (if bit y 0 then 0x9908b0df else 0)])"

definition temper :: "w32 \<Rightarrow> w32" where
  "temper x =
     (let a = x XOR drop_bit 11 x;
          b = a XOR (push_bit 7 a AND 0x9d2c5680);
          c = b XOR (push_bit 15 b AND 0xefc60000)
      in c XOR drop_bit 18 c)"

definition genrand :: "mt \<Rightarrow> w32 \<times> mt" where
  "genrand g =
     (let (ws, i) = (if MT_SIZE \<le> snd g then (foldl twist_at (fst g) [0..<MT_SIZE], 0) else g)
      in (temper (ws ! i), (ws, i + 1)))"

section \<open>Floats\<close>

text \<open>\<open>random()\<close>: 53 random bits, as a multiple of \<open>2 ** -53\<close>.\<close>

definition random_float :: "mt \<Rightarrow> pyfloat \<times> mt" where
  "random_float g =
     (let (a, g1) = genrand g; (b, g2) = genrand g1
      in ((Fin (of_int (uint (drop_bit 5 a))) * Fin 67108864 + Fin (of_int (uint (drop_bit 6 b))))
            * Fin (1 / 9007199254740992), g2))"

definition uniform :: "pyfloat \<Rightarrow> pyfloat \<Rightarrow> mt \<Rightarrow> pyfloat \<times> mt" where
  "uniform a b g = (case random_float g of (r, g1) \<Rightarrow> (a + (b - a) * r, g1))"

text \<open>\<open>[draw() for _ in range(n)]\<close>.\<close>

fun draws :: "nat \<Rightarrow> ('g \<Rightarrow> 'a \<times> 'g) \<Rightarrow> 'g \<Rightarrow> 'a list \<times> 'g" where
  "draws 0 draw g = ([], g)"
| "draws (Suc n) draw g =
     (case draw g of (x, g1) \<Rightarrow> (case draws n draw g1 of (xs, g2) \<Rightarrow> (x # xs, g2)))"

lemma draws_length: "length (fst (draws n draw g)) = n"
proof (induction n arbitrary: g)
  case (Suc n)
  show ?case using Suc.IH [of "snd (draw g)"] by (simp add: split_beta)
qed simp

lemma draws_all: "(\<And>g. P (fst (draw g))) \<Longrightarrow> \<forall>x \<in> set (fst (draws n draw g)). P x"
proof (induction n arbitrary: g)
  case (Suc n)
  show ?case using Suc.prems [of g] Suc.IH [OF Suc.prems, of "snd (draw g)"] by (simp add: split_beta)
qed simp

section \<open>What is drawn\<close>

lemma drop_bit_bound: "uint (drop_bit n (w :: w32)) < 2 ^ (32 - n)" if "n \<le> 32"
proof -
  have "uint w < 2 ^ LENGTH(32)" by (rule unsigned_less)
  then have w: "uint w < 2 ^ 32" by simp
  then have t: "take_bit 32 (uint w) = uint w" by (simp only: take_bit_int_eq_self_iff) simp
  note w
  also have "(2 :: int) ^ 32 = 2 ^ (32 - n) * 2 ^ n" using that by (simp flip: power_add)
  finally have "uint w < 2 ^ (32 - n) * 2 ^ n" .
  then have "uint w div 2 ^ n < 2 ^ (32 - n)"
  proof -
    assume u: "uint w < 2 ^ (32 - n) * 2 ^ n"
    have "uint w div 2 ^ n * 2 ^ n \<le> uint w"
    proof -
      have "0 \<le> uint w mod 2 ^ n" by simp
      then show ?thesis using div_mult_mod_eq [of "uint w" "2 ^ n"] by linarith
    qed
    then have "uint w div 2 ^ n * 2 ^ n < 2 ^ (32 - n) * 2 ^ n" using u by (rule le_less_trans)
    then show ?thesis by (rule mult_right_less_imp_less) simp
  qed
  then show ?thesis by (subst unsigned_drop_bit_eq) (simp add: drop_bit_eq_div t)
qed

lemma random_float_range:
  obtains k where "fst (random_float g) = Fin (of_int k / 2 ^ 53)" "0 \<le> k" "k < 2 ^ 53"
proof -
  obtain a g1 where a: "genrand g = (a, g1)" by (cases "genrand g")
  obtain b g2 where b: "genrand g1 = (b, g2)" by (cases "genrand g1")
  obtain x where x: "x = uint (drop_bit 5 a)" by blast
  obtain y where y: "y = uint (drop_bit 6 b)" by blast
  define k where "k = x * 67108864 + y"
  have l: "0 \<le> x" "x < 2 ^ 27" "0 \<le> y" "y < 2 ^ 26"
    using drop_bit_bound [of 5 a] drop_bit_bound [of 6 b] by (simp_all add: x y)
  then have k: "0 \<le> k" "k < 2 ^ 53" unfolding k_def by simp_all
  have "f64 (of_int (x * 67108864)) = Fin (of_int (x * 67108864))" using l by (intro f64_of_int) simp
  then have m: "Fin (of_int x) * Fin 67108864 = Fin (of_int (x * 67108864))" using l(1) by simp
  have "f64 (of_int k) = Fin (of_int k)" using k by (intro f64_of_int) simp
  then have s: "Fin (of_int (x * 67108864)) + Fin (of_int y) = Fin (of_int k)" by (simp add: k_def)
  have "(of_int k / 2 ^ 53 :: rat) = of_int k * 2 powi - 53" by (simp only: power_int_minus power_int_numeral divide_inverse)
  then have "f64 (of_int k / 2 ^ 53) = Fin (of_int k / 2 ^ 53)" using k by (intro f64_exact [of _ k "- 53"]) simp_all
  then have p: "Fin (of_int k) * Fin (1 / 9007199254740992) = Fin (of_int k / 2 ^ 53)" using k(1) by simp
  have "fst (random_float g) = (Fin (of_int x) * Fin 67108864 + Fin (of_int y)) * Fin (1 / 9007199254740992)"
    unfolding random_float_def x y by (simp only: a b Let_def prod.case fst_conv)
  then have "fst (random_float g) = Fin (of_int k / 2 ^ 53)" by (simp only: m s p)
  then show ?thesis using k by (rule that)
qed

end
