(* ===== verification/SceneExport.thy ===== *)
theory SceneExport
  imports SceneData PyRandom
begin

text \<open>
  \<open>embedded/tools/export_ur5_model.py\<close>, the computing half: four-by-four transforms, the pose of
  one scene object relative to another, the modified Denavit-Hartenberg rows with their check, and
  the reference poses at angles drawn from \<open>random.Random\<close>. Sums are added from the left, as \<open>sum\<close> does before Python 3.12; sine, cosine
  and arctangent are the platform's and parameters.
\<close>

section \<open>Transforms\<close>

type_synonym matrix = "pyfloat list list"

record trig =
  cosf :: "pyfloat \<Rightarrow> pyfloat"
  sinf :: "pyfloat \<Rightarrow> pyfloat"
  atan2f :: "pyfloat \<Rightarrow> pyfloat \<Rightarrow> pyfloat"

text \<open>\<open>math.pi\<close>: the double nearest to it.\<close>

definition MATH_PI :: pyfloat where
  "MATH_PI = Fin (884279719003555 / 281474976710656)"

definition py_sum :: "pyfloat list \<Rightarrow> pyfloat" where
  "py_sum xs = foldl (+) (Fin 0) xs"

definition identity :: matrix where
  "identity = map (\<lambda>row. map (\<lambda>col. Fin (of_bool (row = col))) [0..<4]) [0..<4]"

definition multiply :: "matrix \<Rightarrow> matrix \<Rightarrow> matrix" where
  "multiply l r = map (\<lambda>row. map (\<lambda>col. py_sum (map (\<lambda>k. l ! row ! k * r ! k ! col) [0..<4])) [0..<4]) [0..<4]"

definition inverse_pose :: "matrix \<Rightarrow> matrix" where
  "inverse_pose p =
     map (\<lambda>row. map (\<lambda>col. p ! col ! row) [0..<3]
                @ [- py_sum (map (\<lambda>k. p ! k ! row * p ! k ! 3) [0..<3])]) [0..<3]
     @ [[Fin 0, Fin 0, Fin 0, Fin 1]]"

definition z_frame :: "trig \<Rightarrow> pyfloat \<Rightarrow> pyfloat \<Rightarrow> matrix" where
  "z_frame T angle distance =
     (let c = cosf T angle; s = sinf T angle
      in [[c, - s, Fin 0, Fin 0], [s, c, Fin 0, Fin 0], [Fin 0, Fin 0, Fin 1, distance], [Fin 0, Fin 0, Fin 0, Fin 1]])"

definition pose_matrix :: "pyfloat list \<Rightarrow> matrix" where
  "pose_matrix v =
     (let w = v ! 0; x = v ! 1; y = v ! 2; z = v ! 3; two = Fin 2; one = Fin 1
      in [[one - two * (y * y + z * z), two * (x * y - z * w), two * (x * z + y * w), v ! 4],
          [two * (x * y + z * w), one - two * (x * x + z * z), two * (y * z - x * w), v ! 5],
          [two * (x * z - y * w), two * (y * z + x * w), one - two * (x * x + y * y), v ! 6],
          [Fin 0, Fin 0, Fin 0, Fin 1]])"

definition mdh_matrix :: "trig \<Rightarrow> pyfloat list \<Rightarrow> pyfloat \<Rightarrow> matrix" where
  "mdh_matrix T row angle =
     (let len = row ! 0; twist = row ! 1; dist = row ! 2; off = row ! 3;
          ca = cosf T twist; sa = sinf T twist; ct = cosf T (angle + off); st = sinf T (angle + off)
      in [[ct, - st, Fin 0, len], [ca * st, ca * ct, - sa, (- dist) * sa],
          [sa * st, sa * ct, ca, dist * ca], [Fin 0, Fin 0, Fin 0, Fin 1]])"

text \<open>\<open>max\<close> keeps its candidate unless the next item is greater; nothing is greater than a NaN, nor a NaN than anything.\<close>

fun py_max :: "pyfloat list \<Rightarrow> pyfloat" where
  "py_max (x # xs) = foldl (\<lambda>m x. if m < x then x else m) x xs"
| "py_max [] = NaN"

definition difference :: "matrix \<Rightarrow> matrix \<Rightarrow> pyfloat" where
  "difference l r = py_max (concat (map (\<lambda>row. map (\<lambda>col. \<bar>l ! row ! col - r ! row ! col\<bar>) [0..<4]) [0..<4]))"

definition TOLERANCE :: pyfloat where "TOLERANCE = f64 (1 / 10 ^ 10)"

section \<open>Relative poses\<close>

text \<open>The loop of \<open>relative\<close>; every object of a scene that was read has its pose and its parent.\<close>

function relative_from ::
  "objects \<Rightarrow> int \<Rightarrow> int \<Rightarrow> int set \<Rightarrow> matrix \<Rightarrow> matrix res" where
  "relative_from objs child par visited result =
     (if child = par then Inr result
      else if child \<in> visited then Inl ValueError
      else case dget objs child of
             None \<Rightarrow> Inl ValueError
           | Some ob \<Rightarrow>
               (case (obj_pose ob, obj_parent ob) of
                  (Some p, Some up) \<Rightarrow>
                    relative_from objs up par (insert child visited) (multiply (pose_matrix p) result)
                | _ \<Rightarrow> Inl KeyError))"
  by pat_completeness auto
termination
proof (relation "measure (\<lambda>(objs, child, par, visited, result). card (set (dkeys objs) - visited))", goal_cases)
  case prems: (2 objs child par visited result)
  then have "child \<in> set (dkeys objs) - visited" by (auto dest: dget_Some_key)
  then have "set (dkeys objs) - insert child visited \<subset> set (dkeys objs) - visited" by blast
  then show ?case by (simp add: psubset_card_mono)
qed simp

declare relative_from.simps [simp del]

definition relative :: "objects \<Rightarrow> int \<Rightarrow> int \<Rightarrow> matrix res" where
  "relative objs child par = relative_from objs child par {} identity"

section \<open>The exported model\<close>

record ur5_model =
  m_joints :: "string list"
  m_world_from_base :: matrix
  m_base_from_mdh :: matrix
  m_mdh :: "pyfloat list list"
  m_origins :: "matrix list"
  m_flange :: matrix
  m_tool :: matrix
  m_joint_min :: "pyfloat list"
  m_joint_max :: "pyfloat list"

text \<open>\<open>{obj['Nme']: idx for idx, obj in objects.items()}\<close>, and \<open>names[name]\<close>.\<close>

definition scene_names :: "objects \<Rightarrow> (string, int) dict" where
  "scene_names objs = foldl (\<lambda>d (k, ob). dset (the (obj_name ob)) k d) [] objs"

definition named :: "objects \<Rightarrow> string \<Rightarrow> int res" where
  "named objs n = (case dget (scene_names objs) n of None \<Rightarrow> Inl KeyError | Some k \<Rightarrow> Inr k)"

definition attribute :: "objects \<Rightarrow> (scene_object \<Rightarrow> 'a option) \<Rightarrow> int \<Rightarrow> 'a res" where
  "attribute objs f k =
     (case dget objs k of None \<Rightarrow> Inl KeyError
      | Some ob \<Rightarrow> (case f ob of None \<Rightarrow> Inl KeyError | Some v \<Rightarrow> Inr v))"

definition adapters :: "trig \<Rightarrow> matrix list \<Rightarrow> matrix list" where
  "adapters T ors =
     (let half = (case fdiv MATH_PI (Fin 2) of Inr h \<Rightarrow> h | Inl _ \<Rightarrow> NaN)
      in [z_frame T half (ors ! 1 ! 2 ! 3), z_frame T (atan2f T (ors ! 2 ! 1 ! 3) (ors ! 2 ! 0 ! 3)) (Fin 0),
          z_frame T (atan2f T (ors ! 3 ! 1 ! 3) (ors ! 3 ! 0 ! 3)) (Fin 0), z_frame T half (ors ! 4 ! 2 ! 3),
          z_frame T half (ors ! 5 ! 2 ! 3), z_frame T (Fin 0) (Fin 0)])"

text \<open>One row from the transform between two adapted joint frames, refused when it does not give it back.\<close>

definition mdh_row :: "trig \<Rightarrow> matrix \<Rightarrow> pyfloat list res" where
  "mdh_row T t =
     (let twist = atan2f T (- (t ! 1 ! 2)) (t ! 2 ! 2);
          row = [t ! 0 ! 3, twist, t ! 2 ! 3 * cosf T twist - t ! 1 ! 3 * sinf T twist,
                 atan2f T (- (t ! 0 ! 1)) (t ! 0 ! 0)]
      in if TOLERANCE < difference t (mdh_matrix T row (Fin 0)) then Inl ValueError else Inr row)"

definition mdh_rows :: "trig \<Rightarrow> matrix list \<Rightarrow> pyfloat list list res" where
  "mdh_rows T ors =
     rbind (rmap (\<lambda>k. mdh_row T (multiply (multiply (inverse_pose (adapters T ors ! (k - 1))) (ors ! k)) (adapters T ors ! k)))
              [1..<6]) (\<lambda>rows.
       Inr ([Fin 0, Fin 0, Fin 0, Fin 0] # rows))"

definition midpoint :: "matrix \<Rightarrow> matrix \<Rightarrow> matrix" where
  "midpoint l r =
     map (\<lambda>row. (identity ! row)[3 := case fdiv (l ! row ! 3 + r ! row ! 3) (Fin 2) of Inr h \<Rightarrow> h | Inl _ \<Rightarrow> NaN]) [0..<3]
     @ [identity ! 3]"

definition JOINT_NAMES :: "string list" where
  "JOINT_NAMES = [''UR5_joint1'', ''UR5_joint2'', ''UR5_joint3'', ''UR5_joint4'', ''UR5_joint5'', ''UR5_joint6'']"

definition export_model :: "trig \<Rightarrow> objects \<Rightarrow> ur5_model res" where
  "export_model T objs =
     rbind (named objs ''UR5'') (\<lambda>base.
     rbind (rmap (named objs) JOINT_NAMES) (\<lambda>joints.
     rbind (named objs ''UR5_link7'') (\<lambda>flange.
     rbind (rmap (\<lambda>(child, par). relative objs child par) (zip joints (base # butlast joints))) (\<lambda>ors.
     rbind (mdh_rows T ors) (\<lambda>mdh.
     rbind (rbind (named objs ''RG2_leftTouch'') (\<lambda>k. relative objs k flange)) (\<lambda>left.
     rbind (rbind (named objs ''RG2_rightTouch'') (\<lambda>k. relative objs k flange)) (\<lambda>right.
     rbind (rmap (attribute objs obj_name) joints) (\<lambda>names.
     rbind (relative objs base (- 1)) (\<lambda>world.
     rbind (relative objs flange (last joints)) (\<lambda>j6.
     rbind (rmap (attribute objs obj_minimum) joints) (\<lambda>lo.
     rbind (rmap (\<lambda>k. rbind (attribute objs obj_minimum k) (\<lambda>a. rbind (attribute objs obj_range k) (\<lambda>b. Inr (a + b)))) joints) (\<lambda>hi.
       Inr \<lparr>m_joints = names, m_world_from_base = world, m_base_from_mdh = multiply (ors ! 0) (adapters T ors ! 0),
            m_mdh = mdh, m_origins = ors, m_flange = j6, m_tool = midpoint left right, m_joint_min = lo, m_joint_max = hi\<rparr>))))))))))))"

section \<open>The reference poses\<close>

definition actual_pose :: "trig \<Rightarrow> ur5_model \<Rightarrow> pyfloat list \<Rightarrow> matrix" where
  "actual_pose T m values =
     multiply (foldl (\<lambda>p (origin, angle). multiply (multiply p origin) (z_frame T angle (Fin 0))) identity
                 (zip (m_origins m) values)) (m_flange m)"

definition mdh_pose :: "trig \<Rightarrow> ur5_model \<Rightarrow> pyfloat list \<Rightarrow> matrix" where
  "mdh_pose T m values =
     multiply (foldl (\<lambda>p (row, angle). multiply p (mdh_matrix T row angle)) (m_base_from_mdh m)
                 (zip (m_mdh m) values)) (m_flange m)"

definition export_case :: "trig \<Rightarrow> ur5_model \<Rightarrow> pyfloat list \<Rightarrow> (pyfloat list \<times> matrix) res" where
  "export_case T m values =
     (if TOLERANCE < difference (actual_pose T m values) (mdh_pose T m values) then Inl ValueError
      else Inr (values, actual_pose T m values))"

text \<open>
  The joint angles: two fixed vectors, a hundred drawn freely, and eight for each wrist angle near
  its singularities, all from \<open>random.Random(20261006)\<close>.
\<close>

definition SEED :: int where "SEED = 20261006"

definition draw_vector :: "mt \<Rightarrow> pyfloat list \<times> mt" where
  "draw_vector = draws 6 (uniform (- MATH_PI) MATH_PI)"

definition wrists :: "pyfloat list" where
  "wrists = [Fin 0, MATH_PI, - MATH_PI, f64 (1 / 10 ^ 8), - f64 (1 / 10 ^ 8)]"

fun bent_vectors :: "pyfloat list \<Rightarrow> mt \<Rightarrow> pyfloat list list" where
  "bent_vectors [] g = []"
| "bent_vectors (wrist # ws) g =
     (case draws 8 draw_vector g of (vs, g1) \<Rightarrow> map (\<lambda>v. v[4 := wrist]) vs @ bent_vectors ws g1)"

definition case_angles :: "pyfloat list list" where
  "case_angles =
     (case draws 100 draw_vector (seeded SEED) of
        (vs, g) \<Rightarrow>
          [replicate 6 (Fin 0), [f64 (3 / 10), - f64 (2 / 5), f64 (7 / 10), f64 (1 / 5), - f64 (1 / 2), f64 (3 / 5)]]
          @ vs @ bent_vectors wrists g)"

definition export_scene :: "trig \<Rightarrow> bytes \<Rightarrow> (ur5_model \<times> (pyfloat list \<times> matrix) list) res" where
  "export_scene T raw =
     rbind (decode_scene raw) (\<lambda>d.
     rbind (read_objects d) (\<lambda>objs.
     rbind (export_model T objs) (\<lambda>m.
     rbind (rmap (export_case T m) case_angles) (\<lambda>cases. Inr (m, cases)))))"

section \<open>The drawn angles\<close>

lemma MATH_PI_arith: "MATH_PI - - MATH_PI = Fin (884279719003555 / 140737488355328)" "isfinite MATH_PI"
proof -
  have "f64 (884279719003555 / 140737488355328) = Fin (884279719003555 / 140737488355328)"
    by (rule f64_exact [of _ 884279719003555 "- 47"]) (simp_all add: power_int_minus)
  then show "MATH_PI - - MATH_PI = Fin (884279719003555 / 140737488355328)"
    by (simp add: MATH_PI_def)
  show "isfinite MATH_PI" by (simp add: MATH_PI_def)
qed

text \<open>A joint angle as the exporter uses them: a finite number from \<open>-pi\<close> to \<open>pi\<close>.\<close>

definition joint_angle :: "pyfloat \<Rightarrow> bool" where
  "joint_angle x \<longleftrightarrow> isfinite x \<and> - MATH_PI \<le> x \<and> x \<le> MATH_PI"

lemma uniform_angle: "joint_angle (fst (uniform (- MATH_PI) MATH_PI g))"
proof -
  define p :: rat where "p = 884279719003555 / 281474976710656"
  obtain k where k: "fst (random_float g) = Fin (of_int k / 2 ^ 53)" "0 \<le> k" "k < 2 ^ 53" by (rule random_float_range)
  define r :: rat where "r = of_int k / 2 ^ 53"
  have r: "0 \<le> r" "r \<le> 1" using k(2,3) unfolding r_def by (simp_all add: le_divide_eq divide_le_eq)
  have p: "0 < p" "p \<le> 4" "MATH_PI = Fin p" "- MATH_PI = Fin (- p)" by (simp_all add: p_def MATH_PI_def)
  have d: "f64 (2 * p) = Fin (2 * p)" "f64 p = Fin p" "f64 (- p) = Fin (- p)"
    unfolding p_def by (rule f64_exact [of _ 884279719003555 "- 47"] f64_exact [of _ 884279719003555 "- 48"]
        f64_exact [of _ "- 884279719003555" "- 48"]; simp add: power_int_minus)+
  have b: "(8 :: rat) \<le> 2 powi 100" by simp
  have pr: "0 \<le> 2 * p * r" "2 * p * r \<le> 2 * p" using p(1) r by (simp_all add: mult_le_cancel_left1)
  then have "\<bar>2 * p * r\<bar> \<le> 2 powi 100" using p(2) b by linarith
  then obtain v where v: "f64 (2 * p * r) = Fin v" "v \<le> 2 * p" "0 \<le> v"
    using f64_le_Fin [OF pr(2) d(1)] f64_ge_Fin [OF pr(1) f64_0] by auto
  have "\<bar>v - p\<bar> \<le> 2 powi 100" using v(2,3) p(1,2) b by linarith
  then obtain u where u: "f64 (v - p) = Fin u" "u \<le> p" "- p \<le> u"
    using f64_le_Fin [of "v - p" p, OF _ d(2)] f64_ge_Fin [of "- p" "v - p", OF _ d(3)] v(2,3) by auto
  have "MATH_PI - - MATH_PI = Fin (2 * p)" using MATH_PI_arith(1) by (simp add: p_def)
  moreover have "Fin (2 * p) * Fin r = Fin v" using p(1) r(1) v(1) by (simp add: not_less)
  moreover have "Fin (- p) + Fin v = Fin u" using u(1) by simp
  moreover have "fst (uniform (- MATH_PI) MATH_PI g) = - MATH_PI + (MATH_PI - - MATH_PI) * Fin r"
    unfolding uniform_def r_def by (simp only: split_beta fst_conv k(1))
  ultimately have "fst (uniform (- MATH_PI) MATH_PI g) = Fin u" by (simp only: p(4))
  then show ?thesis using u(2,3) by (simp add: joint_angle_def p(3,4))
qed

lemma draw_vector_angles: "length (fst (draw_vector g)) = 6 \<and> list_all joint_angle (fst (draw_vector g))"
  using draws_all [of joint_angle, OF uniform_angle] by (simp add: draw_vector_def draws_length list_all_iff)

definition angle_vector :: "pyfloat list \<Rightarrow> bool" where
  "angle_vector v \<longleftrightarrow> length v = 6 \<and> list_all joint_angle v"

lemma bent_vectors_angles:
  "list_all joint_angle ws \<Longrightarrow> length (bent_vectors ws g) = 8 * length ws \<and> list_all angle_vector (bent_vectors ws g)"
proof (induction ws g rule: bent_vectors.induct)
  case (2 w ws g)
  obtain vs g1 where d: "draws 8 draw_vector g = (vs, g1)" by (cases "draws 8 draw_vector g")
  have n: "length vs = 8" using draws_length [of 8 draw_vector g] d by simp
  have "\<forall>v \<in> set vs. angle_vector v"
    using draws_all [of angle_vector draw_vector 8 g] draw_vector_angles d by (simp add: angle_vector_def)
  then have "list_all angle_vector (map (\<lambda>v. v[4 := w]) vs)"
    using 2(2) by (auto simp: list_all_iff angle_vector_def dest: set_update_subset_insert [THEN subsetD])
  moreover have "length (bent_vectors ws g1) = 8 * length ws \<and> list_all angle_vector (bent_vectors ws g1)"
    using 2 d by simp
  ultimately show ?case by (simp add: d n)
qed simp

lemma case_angles_vectors: "length case_angles = 142 \<and> list_all angle_vector case_angles"
proof -
  obtain vs g where d: "draws 100 draw_vector (seeded SEED) = (vs, g)" by (cases "draws 100 draw_vector (seeded SEED)")
  have n: "length vs = 100" using draws_length [of 100 draw_vector "seeded SEED"] d by simp
  have v: "list_all angle_vector vs"
    using draws_all [of angle_vector draw_vector 100 "seeded SEED"] draw_vector_angles d by (simp add: angle_vector_def list_all_iff)
  have s: "joint_angle (f64 q) \<and> joint_angle (- f64 q)" if q: "0 < q" "q \<le> 1" for q
  proof -
    have "(1 :: rat) \<le> 2 powi 100" by simp
    then have "\<bar>q\<bar> \<le> 2 powi 100" using q by linarith
    then obtain v where "f64 q = Fin v" "v \<le> 1" "0 \<le> v"
      using f64_le_Fin [OF q(2) f64_1] f64_ge_Fin [of 0 q, OF _ f64_0] q(1) by auto
    then show ?thesis by (simp add: joint_angle_def MATH_PI_def)
  qed
  have w: "list_all joint_angle wrists"
    using s [of "1 / 10 ^ 8"] by (simp add: wrists_def) (simp add: joint_angle_def MATH_PI_def)
  have "angle_vector (replicate 6 (Fin 0))" by (simp add: angle_vector_def list_all_iff joint_angle_def MATH_PI_def)
  moreover have "angle_vector [f64 (3 / 10), - f64 (2 / 5), f64 (7 / 10), f64 (1 / 5), - f64 (1 / 2), f64 (3 / 5)]"
    by (simp add: angle_vector_def s)
  ultimately show ?thesis
    using bent_vectors_angles [OF w, of g] v by (simp add: case_angles_def d n wrists_def)
qed

end
