(* ===== verification/Digest.thy ===== *)
theory Digest
  imports SceneData JsonText
begin

text \<open>
  \<open>hashlib.sha256(raw).hexdigest()\<close>: the digest of FIPS 180-4 over bytes, by which the exported
  model and the reference poses name the scene they come from.
\<close>

unbundle bit_operations_syntax

section \<open>The functions on 32-bit words\<close>

type_synonym w32 = "32 word"

definition ch_fn :: "w32 \<Rightarrow> w32 \<Rightarrow> w32 \<Rightarrow> w32" where
  "ch_fn x y z = (x AND y) XOR (NOT x AND z)"

definition maj_fn :: "w32 \<Rightarrow> w32 \<Rightarrow> w32 \<Rightarrow> w32" where
  "maj_fn x y z = (x AND y) XOR (x AND z) XOR (y AND z)"

definition big_sigma0 :: "w32 \<Rightarrow> w32" where
  "big_sigma0 x = word_rotr 2 x XOR word_rotr 13 x XOR word_rotr 22 x"

definition big_sigma1 :: "w32 \<Rightarrow> w32" where
  "big_sigma1 x = word_rotr 6 x XOR word_rotr 11 x XOR word_rotr 25 x"

definition small_sigma0 :: "w32 \<Rightarrow> w32" where
  "small_sigma0 x = word_rotr 7 x XOR word_rotr 18 x XOR drop_bit 3 x"

definition small_sigma1 :: "w32 \<Rightarrow> w32" where
  "small_sigma1 x = word_rotr 17 x XOR word_rotr 19 x XOR drop_bit 10 x"

text \<open>
  The first 32 bits of the fractional parts of the cube roots of the first 64 primes, and of the
  square roots of the first eight.
\<close>

definition ROUND_WORDS :: "w32 list" where
  "ROUND_WORDS =
    [1116352408, 1899447441, 3049323471, 3921009573, 961987163, 1508970993, 2453635748, 2870763221,
     3624381080, 310598401, 607225278, 1426881987, 1925078388, 2162078206, 2614888103, 3248222580,
     3835390401, 4022224774, 264347078, 604807628, 770255983, 1249150122, 1555081692, 1996064986,
     2554220882, 2821834349, 2952996808, 3210313671, 3336571891, 3584528711, 113926993, 338241895,
     666307205, 773529912, 1294757372, 1396182291, 1695183700, 1986661051, 2177026350, 2456956037,
     2730485921, 2820302411, 3259730800, 3345764771, 3516065817, 3600352804, 4094571909, 275423344,
     430227734, 506948616, 659060556, 883997877, 958139571, 1322822218, 1537002063, 1747873779,
     1955562222, 2024104815, 2227730452, 2361852424, 2428436474, 2756734187, 3204031479, 3329325298]"

definition INITIAL_HASH :: "w32 list" where
  "INITIAL_HASH =
    [1779033703, 3144134277, 1013904242, 2773480762, 1359893119, 2600822924, 528734635, 1541459225]"

section \<open>Padding\<close>

text \<open>The lowest \<open>8 * k\<close> bits of a number, the highest byte first.\<close>

fun be_bytes :: "nat \<Rightarrow> int \<Rightarrow> bytes" where
  "be_bytes 0 n = []"
| "be_bytes (Suc k) n = be_bytes k (n div 256) @ [word_of_int n]"

definition padded :: "bytes \<Rightarrow> bytes" where
  "padded m = m @ [0x80] @ replicate ((119 - length m mod 64) mod 64) 0 @ be_bytes 8 (8 * int (length m))"

definition be_word :: "bytes \<Rightarrow> w32" where
  "be_word bs = foldl (\<lambda>w b. push_bit 8 w OR ucast b) 0 bs"

fun words_of :: "nat \<Rightarrow> bytes \<Rightarrow> w32 list" where
  "words_of 0 bs = []"
| "words_of (Suc n) bs = be_word (take 4 bs) # words_of n (drop 4 bs)"

section \<open>Compression\<close>

text \<open>The message schedule, its latest word first.\<close>

fun schedule_more :: "nat \<Rightarrow> w32 list \<Rightarrow> w32 list" where
  "schedule_more 0 ws = ws"
| "schedule_more (Suc n) ws =
     schedule_more n ((small_sigma1 (ws ! 1) + ws ! 6 + small_sigma0 (ws ! 14) + ws ! 15) # ws)"

definition message_schedule :: "bytes \<Rightarrow> w32 list" where
  "message_schedule chunk = rev (schedule_more 48 (rev (words_of 16 chunk)))"

text \<open>One round on the eight working words \<open>a, b, c, d, e, f, g, h\<close>.\<close>

fun sha_round :: "w32 list \<Rightarrow> w32 \<times> w32 \<Rightarrow> w32 list" where
  "sha_round [a, b, c, d, e, f, g, h] (k, w) =
     (let t1 = h + big_sigma1 e + ch_fn e f g + k + w;
          t2 = big_sigma0 a + maj_fn a b c
      in [t1 + t2, a, b, c, d + t1, e, f, g])"
| "sha_round ws _ = ws"

definition compress :: "w32 list \<Rightarrow> bytes \<Rightarrow> w32 list" where
  "compress hs chunk = map2 (+) hs (foldl sha_round hs (zip ROUND_WORDS (message_schedule chunk)))"

text \<open>The blocks of 64 bytes in turn.\<close>

fun hash_blocks :: "nat \<Rightarrow> w32 list \<Rightarrow> bytes \<Rightarrow> w32 list" where
  "hash_blocks 0 hs bs = hs"
| "hash_blocks (Suc n) hs bs = hash_blocks n (compress hs (take 64 bs)) (drop 64 bs)"

definition sha256 :: "bytes \<Rightarrow> bytes" where
  "sha256 m = concat (map (\<lambda>w. be_bytes 4 (uint w)) (hash_blocks (length (padded m) div 64) INITIAL_HASH (padded m)))"

definition hexdigest :: "bytes \<Rightarrow> string" where
  "hexdigest bs = concat (map (\<lambda>b. [hex_digit (unat b div 16), hex_digit (unat b mod 16)]) bs)"

section \<open>Lengths\<close>

lemma be_bytes_length [simp]: "length (be_bytes k n) = k"
  by (induction k arbitrary: n) simp_all

text \<open>Padding fills whole blocks, with the shortest run of zeros that does.\<close>

lemma padding_mod: "(n + 1 + (119 - n mod 64) mod 64 + 8) mod 64 = (0 :: nat)"
proof -
  define q r z where "q = n div 64" and "r = n mod 64" and "z = (119 - n mod 64) mod 64"
  then have n: "n = 64 * q + r" "r < 64" and z: "z = (119 - r) mod 64" by simp_all
  have "z + r = 55 \<or> z + r = 119"
  proof (cases "r \<le> 55")
    case True
    then have "119 - r = (55 - r) + 64" by simp
    then have "z = (55 - r) mod 64" unfolding z by (simp only: mod_add_self2)
    also have "\<dots> = 55 - r" by (rule mod_less) simp
    finally show ?thesis using True by simp
  next
    case False
    then have "z = 119 - r" unfolding z by (intro mod_less) simp
    then show ?thesis using n(2) by simp
  qed
  then have "(n + 1 + z + 8) mod 64 = 0"
  proof
    assume "z + r = 55"
    then have "n + 1 + z + 8 = 64 * (q + 1)" unfolding n(1) by simp
    then show ?thesis by (simp only: mod_mult_self1_is_0)
  next
    assume "z + r = 119"
    then have "n + 1 + z + 8 = 64 * (q + 2)" unfolding n(1) by simp
    then show ?thesis by (simp only: mod_mult_self1_is_0)
  qed
  then show ?thesis unfolding z_def .
qed

lemma padded_length: "length (padded m) mod 64 = 0" "length (padded m) \<le> length m + 72"
proof -
  let ?z = "(119 - length m mod 64) mod 64"
  have l: "length (padded m) = length m + 1 + ?z + 8" by (simp add: padded_def)
  show "length (padded m) mod 64 = 0" unfolding l by (rule padding_mod)
  have "?z < 64" by simp
  then show "length (padded m) \<le> length m + 72" unfolding l by linarith
qed

lemma sha_round_length [simp]: "length (sha_round hs p) = length hs"
  by (induction hs p rule: sha_round.induct) (simp_all add: Let_def)

lemma compress_length [simp]: "length (compress hs chunk) = length hs"
proof -
  have "length (foldl sha_round hs ps) = length hs" for ps by (induction ps arbitrary: hs) simp_all
  then show ?thesis by (simp add: compress_def)
qed

lemma hash_blocks_length [simp]: "length (hash_blocks n hs bs) = length hs"
  by (induction n arbitrary: hs bs) simp_all

lemma sha256_length: "length (sha256 m) = 32"
  by (simp add: sha256_def length_concat comp_def INITIAL_HASH_def sum_list_triv)

lemma hexdigest_length: "length (hexdigest bs) = 2 * length bs"
  by (induction bs) (simp_all add: hexdigest_def)

text \<open>The example of the standard: a message of three bytes.\<close>

lemma sha256_abc: "hexdigest (sha256 (bytes_of ''abc'')) = ''ba7816bf8f01cfea414140de5dae2223b00361a396177a9cb410ff61f20015ad''"
  by code_simp

text \<open>The digest as text: lower-case hexadecimal digits.\<close>

definition is_hex :: "char \<Rightarrow> bool" where
  "is_hex c \<longleftrightarrow> c \<in> set ''0123456789abcdef''"

lemma hex_digit_is_hex: "n < 16 \<Longrightarrow> is_hex (hex_digit n)"
proof -
  have "\<forall>n \<in> set [0..<16]. is_hex (hex_digit n)" by code_simp
  then show "n < 16 \<Longrightarrow> ?thesis" by simp
qed

lemma hexdigest_hex: "list_all is_hex (hexdigest bs)"
proof (induction bs)
  case (Cons b bs)
  have "unat b < 2 ^ LENGTH(8)" by (rule unsigned_less)
  then have "unat b < 256" by simp
  then have "is_hex (hex_digit (unat b div 16))" "is_hex (hex_digit (unat b mod 16))" by (intro hex_digit_is_hex; simp)+
  then show ?case using Cons by (simp add: hexdigest_def)
qed (simp add: hexdigest_def)

end
