(* ===== verification/SceneFiles.thy ===== *)
theory SceneFiles
  imports SceneExport Digest JsonRoundtrip RobotRequest Settings
begin

text \<open>
  \<open>embedded/tools/export_ur5_model.py\<close>, the writing half: the model and the reference poses as JSON
  values, the two files, and the command line. What the operating system makes of a write is a
  parameter; a file is its bytes, as for the configuration loader that reads one of them later.
\<close>

section \<open>The values written\<close>

definition matrix_value :: "matrix \<Rightarrow> pyval" where
  "matrix_value m = PList (map floats m)"

text \<open>The literal texts of the source that are not ASCII.\<close>

definition TCP_DEFINITION :: string where (* midpoint of the origins in zero position, direction as the flange *)
  "TCP_DEFINITION =
     utf8 [0x96F6, 0x4F4D] @ '' RG2_leftTouch/RG2_rightTouch ''
     @ utf8 [0x539F, 0x70B9, 0x4E2D, 0x70B9, 0xFF0C, 0x65B9, 0x5411, 0x4E0E, 0x6CD5, 0x5170, 0x76F8, 0x540C]"

definition model_value :: "bytes \<Rightarrow> ur5_model \<Rightarrow> pydict" where
  "model_value raw m =
     [(''schema_version'', PInt 1),
      (''provenance'', PDict
         [(''scene'', PStr ''embedded/motion/robot_mode/arm_model.ttt''),
          (''sha256'', PStr (hexdigest (sha256 raw))), (''serialization_version'', PInt 25),
          (''joint_objects'', PList (map PStr (m_joints m))),
          (''base_object'', PStr ''UR5''), (''flange_object'', PStr ''UR5_link7''),
          (''tcp_definition'', PStr TCP_DEFINITION)]),
      (''world_from_base'', matrix_value (m_world_from_base m)),
      (''base_from_mdh'', matrix_value (m_base_from_mdh m)),
      (''mdh'', PList (map floats (m_mdh m))), (''joint_origins'', PList (map matrix_value (m_origins m))),
      (''joint6_from_flange'', matrix_value (m_flange m)),
      (''flange_from_tcp'', matrix_value (m_tool m)),
      (''joint_min'', floats (m_joint_min m)),
      (''joint_max'', floats (m_joint_max m))]"

definition case_value :: "pyfloat list \<times> matrix \<Rightarrow> pyval" where
  "case_value = (\<lambda>(values, actual).
     PDict [(''joint_angles'', floats values), (''base_from_flange'', matrix_value actual)])"

definition fixtures_value :: "bytes \<Rightarrow> (pyfloat list \<times> matrix) list \<Rightarrow> pydict" where
  "fixtures_value raw cases =
     [(''scene_sha256'', PStr (hexdigest (sha256 raw))), (''cases'', PList (map case_value cases))]"

section \<open>The two files\<close>

text \<open>
  What the operating system does with one file: everything succeeds, its directory cannot be made,
  it cannot be opened, or only so many bytes of the text reach it.
\<close>

datatype outcome = Complete | NoDirectory | NotOpened | Torn nat

definition write_json :: "outcome \<Rightarrow> string \<Rightarrow> pydict \<Rightarrow> files \<Rightarrow> files \<times> unit res" where
  "write_json w path value fs =
     (if w = NoDirectory then (fs, Inl OSError)
      else case json_dumps_indent (PDict value) of Inl e \<Rightarrow> (fs, Inl e)
      | Inr t \<Rightarrow>
          (let text = t @ [CHR 0x0A]
           in if w = NotOpened then (fs, Inl OSError)
              else if \<not> valid_utf8 text then (fs(path \<mapsto> []), Inl UnicodeEncodeError)
              else case w of Torn n \<Rightarrow> (fs(path \<mapsto> take n text), Inl OSError)
                   | _ \<Rightarrow> (fs(path \<mapsto> text), Inr ())))"

definition write_files ::
  "(string \<Rightarrow> outcome) \<Rightarrow> string \<Rightarrow> string \<Rightarrow> bytes \<Rightarrow> ur5_model \<Rightarrow> (pyfloat list \<times> matrix) list \<Rightarrow> files \<Rightarrow> files \<times> unit res" where
  "write_files W model_path fixture_path raw m cases fs =
     (case write_json (W model_path) model_path (model_value raw m) fs of
        (fs1, Inl e) \<Rightarrow> (fs1, Inl e)
      | (fs1, Inr _) \<Rightarrow> write_json (W fixture_path) fixture_path (fixtures_value raw cases) fs1)"

definition export_report :: "bytes \<Rightarrow> (pyfloat list \<times> matrix) list \<Rightarrow> string" where
  "export_report raw cases =
     utf8 [0x5BFC, 0x51FA, 0x6210, 0x529F, 0xFF1A] @ show_int (int (length cases))
     @ '' '' @ utf8 [0x4E2A, 0x573A, 0x666F, 0x5C42, 0x7EA7, 0x6821, 0x9A8C, 0x4F4D, 0x59FF, 0xFF0C] @ ''SHA256='' @ hexdigest (sha256 raw)"

text \<open>\<open>export\<close>: the files after it, and the line it prints.\<close>

definition run_export ::
  "trig \<Rightarrow> (string \<Rightarrow> outcome) \<Rightarrow> string \<Rightarrow> string \<Rightarrow> string \<Rightarrow> files \<Rightarrow> files \<times> string res" where
  "run_export T W scene model_path fixture_path fs =
     (case fs scene of None \<Rightarrow> (fs, Inl FileNotFoundError)
      | Some content \<Rightarrow>
          (let raw = bytes_of content
           in case export_scene T raw of Inl e \<Rightarrow> (fs, Inl e)
              | Inr (m, cases) \<Rightarrow>
                  (case write_files W model_path fixture_path raw m cases fs of
                     (fs1, Inl e) \<Rightarrow> (fs1, Inl e)
                   | (fs1, Inr _) \<Rightarrow> (fs1, Inr (export_report raw cases)))))"

text \<open>The command line: the values \<open>argparse\<close> found for the options, with their defaults.\<close>

definition DEFAULT_SCENE :: string where "DEFAULT_SCENE = ''embedded/motion/robot_mode/arm_model.ttt''"
definition DEFAULT_MODEL :: string where "DEFAULT_MODEL = ''embedded/config/ur5_model.json''"
definition DEFAULT_FIXTURES :: string where "DEFAULT_FIXTURES = ''tests/fixtures/ur5_scene_poses.json''"

definition option_value :: "(string \<Rightarrow> string option) \<Rightarrow> string \<Rightarrow> string \<Rightarrow> string" where
  "option_value given name dflt = (case given name of None \<Rightarrow> dflt | Some v \<Rightarrow> v)"

definition export_main :: "trig \<Rightarrow> (string \<Rightarrow> outcome) \<Rightarrow> (string \<Rightarrow> string option) \<Rightarrow> files \<Rightarrow> files \<times> string res" where
  "export_main T W given fs =
     run_export T W (option_value given ''--scene'' DEFAULT_SCENE) (option_value given ''--model'' DEFAULT_MODEL)
       (option_value given ''--fixtures'' DEFAULT_FIXTURES) fs"

end
