(* ===== verification/SceneCodec.thy ===== *)
theory SceneCodec
  imports SceneData
begin

text \<open>
  What the readers of \<open>SceneData\<close> read back: an encoder for the Huffman container and a printer
  for records, written from the format, and the round trips through the code's readers.
\<close>

unbundle bit_operations_syntax

section \<open>Bits at a place\<close>

text \<open>The data has the bits \<open>bs\<close> from bit \<open>i\<close> on.\<close>

definition has_bits :: "bytes \<Rightarrow> nat \<Rightarrow> bool list \<Rightarrow> bool" where
  "has_bits d i bs \<longleftrightarrow> i + length bs \<le> length d * 8 \<and> (\<forall>k < length bs. bit_at d (i + k) = bs ! k)"

lemma has_bits_Nil [simp]: "has_bits d i [] \<longleftrightarrow> i \<le> length d * 8"
  by (simp add: has_bits_def)

lemma has_bits_Cons: "has_bits d i (b # bs) \<longleftrightarrow> i < length d * 8 \<and> bit_at d i = b \<and> has_bits d (Suc i) bs"
  by (auto simp: has_bits_def nth_Cons less_Suc_eq_0_disj split: nat.splits)

lemma has_bits_append: "has_bits d i (xs @ ys) \<longleftrightarrow> has_bits d i xs \<and> has_bits d (i + length xs) ys"
proof (induction xs arbitrary: i)
  case Nil
  then show ?case by (auto simp: has_bits_def)
qed (simp add: has_bits_Cons)

definition bits_value :: "nat \<Rightarrow> bool list \<Rightarrow> nat" where
  "bits_value v bs = foldl (\<lambda>v b. 2 * v + of_bool b) v bs"

lemma read_bits_has:
  "has_bits d i bs \<Longrightarrow> read_bits d (length bs) v i = Inr (bits_value v bs, i + length bs)"
  by (induction bs arbitrary: i v) (auto simp: has_bits_Cons bits_value_def not_le)

lemma read_bit_has: "has_bits d i (b # bs) \<Longrightarrow> read_bits d 1 0 i = Inr (of_bool b, i + 1)"
  by (auto simp: has_bits_Cons)

section \<open>An encoder\<close>

definition symbol_bits :: "nat \<Rightarrow> bool list" where
  "symbol_bits s = rev (map (bit s) [0..<8])"

lemma bits_value_rev: "bits_value 0 (rev bs) = horner_sum of_bool 2 bs"
proof -
  have "foldr (\<lambda>b v. 2 * v + of_bool b) bs 0 = (horner_sum of_bool 2 bs :: nat)"
    by (induction bs) auto
  then show ?thesis by (simp add: bits_value_def foldl_conv_foldr)
qed

lemma symbol_bits_value: "s < 256 \<Longrightarrow> bits_value 0 (symbol_bits s) = s"
  by (simp add: symbol_bits_def bits_value_rev horner_sum_bit_eq_take_bit take_bit_nat_eq_self)

lemma length_symbol_bits [simp]: "length (symbol_bits s) = 8"
  by (simp add: symbol_bits_def)

primrec tree_bits :: "htree \<Rightarrow> bool list" where
  "tree_bits (HLeaf s) = True # symbol_bits s"
| "tree_bits (HNode l r) = False # tree_bits l @ tree_bits r"

primrec leaf_list :: "htree \<Rightarrow> nat list" where
  "leaf_list (HLeaf s) = [s]"
| "leaf_list (HNode l r) = leaf_list l @ leaf_list r"

primrec depth :: "htree \<Rightarrow> nat" where
  "depth (HLeaf s) = 0"
| "depth (HNode l r) = Suc (max (depth l) (depth r))"

text \<open>The path to a symbol.\<close>

primrec code_of :: "htree \<Rightarrow> nat \<Rightarrow> bool list" where
  "code_of (HLeaf t) s = []"
| "code_of (HNode l r) s = (if s \<in> set (leaf_list l) then False # code_of l s else True # code_of r s)"

lemma read_tree_has:
  assumes "has_bits d i (tree_bits t)" "n + depth t \<le> MAX_DEPTH" "distinct (leaf_list t)"
    and "\<forall>s \<in> set (leaf_list t). s < 256 \<and> s \<notin> L"
  shows "read_tree d n i L = Inr (t, i + length (tree_bits t), L \<union> set (leaf_list t))"
  using assms
proof (induction t arbitrary: n i L)
  case (HLeaf s)
  have b: "has_bits d (i + 1) (symbol_bits s)" using HLeaf.prems(1) by (simp add: has_bits_Cons)
  have "read_bits d 8 0 (i + 1) = Inr (s, i + 9)"
    using read_bits_has [OF b, of 0] symbol_bits_value [of s] HLeaf.prems(4) by simp
  then show ?case
    using HLeaf.prems read_bit_has [of d i True "symbol_bits s"]
    by (subst read_tree.simps) (simp del: read_bits.simps)
next
  case (HNode l r)
  have b: "has_bits d (i + 1) (tree_bits l)" "has_bits d (i + 1 + length (tree_bits l)) (tree_bits r)"
    using HNode.prems(1) by (simp_all add: has_bits_Cons has_bits_append)
  have l: "read_tree d (n + 1) (i + 1) L = Inr (l, i + 1 + length (tree_bits l), L \<union> set (leaf_list l))"
    by (rule HNode.IH(1) [OF b(1)]) (use HNode.prems in auto)
  have r: "read_tree d (n + 1) (i + 1 + length (tree_bits l)) (L \<union> set (leaf_list l))
      = Inr (r, i + 1 + length (tree_bits l) + length (tree_bits r), L \<union> set (leaf_list l) \<union> set (leaf_list r))"
    by (rule HNode.IH(2) [OF b(2)]) (use HNode.prems in auto)
  show ?case
    using HNode.prems(2) read_bit_has [OF HNode.prems(1) [unfolded tree_bits.simps]] l r
    by (subst read_tree.simps) (simp del: read_bits.simps add: Un_assoc)
qed

lemma read_symbol_has:
  "has_bits d i (code_of t s) \<Longrightarrow> s \<in> set (leaf_list t) \<Longrightarrow> read_symbol d t i = Inr (s, i + length (code_of t s))"
proof (induction t arbitrary: i)
  case (HNode l r)
  then show ?case
    using read_bit_has [of d i _ "code_of _ s"] by (auto simp: has_bits_Cons split: if_splits)
qed simp

lemma read_symbols_has:
  "has_bits d i (concat (map (code_of t) ss)) \<Longrightarrow> set ss \<subseteq> set (leaf_list t) \<Longrightarrow>
   read_symbols d t (length ss) i = Inr (map of_nat ss)"
proof (induction ss arbitrary: i)
  case (Cons s ss)
  then show ?case
    using read_symbol_has [of d i t s] by (simp add: has_bits_append)
qed simp

text \<open>Bits packed into bytes, the last one filled with zeros.\<close>

function pack :: "bool list \<Rightarrow> bytes" where
  "pack bs = (if bs = [] then [] else horner_sum of_bool 2 (rev (take 8 (bs @ replicate 8 False))) # pack (drop 8 bs))"
  by pat_completeness auto
termination
  by (relation "measure length") auto

declare pack.simps [simp del]

lemma bit_at_Cons:
  "k < 8 \<Longrightarrow> bit_at (w # ws) k = bit w (7 - k)" "8 \<le> k \<Longrightarrow> bit_at (w # ws) k = bit_at ws (k - 8)"
proof -
  assume "8 \<le> k"
  then have "k div 8 = Suc ((k - 8) div 8)" "k mod 8 = (k - 8) mod 8" by (simp_all add: le_div_geq le_mod_geq)
  then show "bit_at (w # ws) k = bit_at ws (k - 8)" by (simp add: bit_at_def)
qed (simp add: bit_at_def)

lemma pack_bits: "length bs \<le> length (pack bs) * 8 \<and> (\<forall>k < length bs. bit_at (pack bs) k = bs ! k)"
proof (induction bs rule: pack.induct)
  case (1 bs)
  show ?case
  proof (cases "bs = []")
    case True
    then show ?thesis by (simp add: pack.simps)
  next
    case False
    define c where c: "c = take 8 (bs @ replicate 8 False)"
    have p: "pack bs = horner_sum of_bool 2 (rev c) # pack (drop 8 bs)" using False unfolding c by (subst pack.simps) simp
    have l: "length c = 8" by (simp add: c)
    note IH = "1.IH" [OF False]
    have "bit_at (pack bs) k = bs ! k" if k: "k < length bs" for k
    proof (cases "k < 8")
      case True
      have "7 - k < 8" by linarith
      then have "bit (horner_sum of_bool 2 (rev c) :: 8 word) (7 - k) = rev c ! (7 - k)"
        using l by (simp add: bit_horner_sum_bit_word_iff)
      also have "\<dots> = c ! k" using True l by (simp add: rev_nth)
      also have "\<dots> = bs ! k" using True k by (simp add: c nth_append)
      finally show ?thesis using True by (simp add: p bit_at_Cons(1))
    next
      case False
      then have "bit_at (pack bs) k = bit_at (pack (drop 8 bs)) (k - 8)" by (simp add: p bit_at_Cons(2))
      also have "\<dots> = drop 8 bs ! (k - 8)" using IH k False by simp
      finally show ?thesis using False k by simp
    qed
    then show ?thesis using IH by (auto simp: p)
  qed
qed

lemma has_bits_pack: "has_bits (pack bs @ rest) 0 bs"
proof -
  have "bit_at (pack bs @ rest) k = bs ! k" if "k < length bs" for k
  proof -
    have "k < length (pack bs) * 8" using that pack_bits [of bs] by linarith
    then have "k div 8 < length (pack bs)" by (simp add: div_less_iff_less_mult)
    then show ?thesis using that pack_bits [of bs] by (simp add: bit_at_def nth_append)
  qed
  then show ?thesis using pack_bits [of bs] by (simp add: has_bits_def)
qed

section \<open>The container\<close>

text \<open>A header of the format the code takes, with its compression byte and the length it declares.\<close>

definition scene_header :: "8 word \<Rightarrow> int \<Rightarrow> bytes \<Rightarrow> bool" where
  "scene_header c n h \<longleftrightarrow>
     length h = HEADER \<and> take 4 h = bytes_of ''VREP'' \<and> u32_at h 4 = 25 \<and> h ! 12 = c \<and> u32_at h 13 = n"

lemma scene_header_parts:
  assumes "scene_header c n h"
  shows "length (h @ d) \<ge> HEADER" "take 4 (h @ d) = bytes_of ''VREP''" "u32_at (h @ d) 4 = 25" "(h @ d) ! 12 = c"
    "u32_at (h @ d) 13 = n" "drop HEADER (h @ d) = d"
  using assms by (auto simp: scene_header_def u32_at_def HEADER_def nth_append)

lemma decode_plain:
  assumes "scene_header 0 (int (length d)) h" "0 < length d" "length d \<le> 100000000"
  shows "decode_scene (h @ d) = Inr d"
  using scene_header_parts [OF assms(1), of d] assms(2,3) by (simp add: decode_scene_def Let_def)

lemma decode_packed:
  assumes h: "scene_header 1 (int (length ss)) h" "0 < length ss" "length ss \<le> 100000000"
    and t: "depth t \<le> MAX_DEPTH" "distinct (leaf_list t)" "\<forall>s \<in> set (leaf_list t). s < 256" "set ss \<subseteq> set (leaf_list t)"
  shows "decode_scene (h @ pack (tree_bits t @ concat (map (code_of t) ss)) @ rest) = Inr (map of_nat ss)"
proof -
  let ?d = "pack (tree_bits t @ concat (map (code_of t) ss)) @ rest"
  have b: "has_bits ?d 0 (tree_bits t)" "has_bits ?d (length (tree_bits t)) (concat (map (code_of t) ss))"
    using has_bits_pack [of "tree_bits t @ concat (map (code_of t) ss)" rest] by (simp_all add: has_bits_append)
  have r: "read_tree ?d 0 0 {} = Inr (t, length (tree_bits t), set (leaf_list t))"
    using read_tree_has [OF b(1), of 0 "{}"] t by simp
  show ?thesis
    using scene_header_parts [OF h(1), of ?d] h(2,3) r read_symbols_has [OF b(2) t(4)]
    by (simp add: decode_scene_def Let_def)
qed

text \<open>Whatever is decoded has the declared length.\<close>

lemma read_symbols_length: "read_symbols d t n i = Inr out \<Longrightarrow> length out = n"
  by (induction d t n i arbitrary: out rule: read_symbols.induct) (auto simp: res_simps)

lemma decode_length:
  assumes "decode_scene raw = Inr out"
  shows "int (length out) = u32_at raw 13 \<and> 0 < length out \<and> length out \<le> 100000000"
  using assms
  by (auto simp: decode_scene_def Let_def res_simps split: if_splits dest!: read_symbols_length)

section \<open>A printer for records\<close>

text \<open>A signed 32-bit number in four bytes, lowest first.\<close>

definition le32 :: "nat \<Rightarrow> bytes" where
  "le32 n = [of_nat n, of_nat (n div 256), of_nat (n div 65536), of_nat (n div 16777216)]"

lemma u32_le32: 
  assumes "n < 2 ^ 32"
  shows "u32_at (le32 n @ r) 0 = int n"
proof -
  have q: "n div 65536 = n div 256 div 256" "n div 16777216 = n div 256 div 256 div 256"
    by (simp_all add: div_mult2_eq [symmetric])
  have "n div 256 div 256 div 256 < 256" using assms by (simp add: div_mult2_eq [symmetric] div_less_iff_less_mult)
  then have e: "n div 256 div 256 div 256 mod 256 = n div 256 div 256 div 256" by (rule mod_less)
  have "n = n mod 256 + 256 * (n div 256 mod 256 + 256 * (n div 256 div 256 mod 256 + 256 * (n div 256 div 256 div 256)))"
    using mod_mult_div_eq [of n 256] mod_mult_div_eq [of "n div 256" 256] mod_mult_div_eq [of "n div 256 div 256" 256] by simp
  then have "int n = int (n mod 256 + 256 * (n div 256 mod 256 + 256 * (n div 256 div 256 mod 256 + 256 * (n div 256 div 256 div 256 mod 256))))"
    by (simp only: e)
  then show ?thesis
    by (simp add: u32_at_def le32_def q uint_nat unat_of_nat)
qed

definition name_ok :: "string \<Rightarrow> bool" where
  "name_ok n \<longleftrightarrow> length n = 3 \<and> list_all (\<lambda>c. byte c < 128) n \<and> n \<notin> {''EOF'', ''NXT'', ''EOO''}"

definition emit_record :: "string \<times> bytes \<Rightarrow> bytes" where
  "emit_record r = bytes_of (fst r) @ le32 (length (snd r)) @ snd r"

lemma text_bytes_of: "text_bytes (bytes_of n) = n"
  by (induction n) (simp_all add: text_bytes_def bytes_of_def unat_of_nat)

lemma bytes_ascii:
  assumes "list_all (\<lambda>c. byte c < 128) n"
  shows "\<not> list_ex (\<lambda>b. 128 \<le> b) (bytes_of n)"
proof -
  have "\<not> (128 :: 8 word) \<le> of_nat (byte c)" if "byte c < 128" for c
    using that by (simp add: word_le_nat_alt unat_of_nat)
  then show ?thesis using assms by (auto simp: bytes_of_def list_all_iff list_ex_iff)
qed

lemma records_print:
  assumes "name_ok n" "length v < 2 ^ 31" and D: "D = pre @ emit_record (n, v) @ rest"
  shows "records D (length pre) = (case records D (length (pre @ emit_record (n, v))) of (rs, e) \<Rightarrow> ((n, v) # rs, e))"
proof -
  have n: "length n = 3" "list_all (\<lambda>c. byte c < 128) n" "n \<noteq> ''EOF''" "n \<noteq> ''NXT''" "n \<noteq> ''EOO''"
    using assms(1) by (auto simp: name_ok_def)
  have l: "length (bytes_of n) = 3" "length (le32 (length v)) = 4" by (simp_all add: bytes_of_def n(1) le32_def)
  have t: "take 3 (drop (length pre) D) = bytes_of n" by (simp add: D emit_record_def l)
  have d: "drop (length pre + 3) D = le32 (length v) @ v @ rest" by (simp add: D emit_record_def l)
  have d': "take (length v) (drop (7 + length pre) D) = v" by (simp add: D emit_record_def l)
  have "u32_at D (length pre + 3) = u32_at (le32 (length v) @ v @ rest) 0" unfolding u32_at_def d by simp
  then have s: "i32_at D (length pre + 3) = int (length v)"
    using u32_le32 [of "length v" "v @ rest"] assms(2) by (simp add: i32_at_def)
  have len: "length D = length pre + 7 + length v + length rest" by (simp add: D emit_record_def l)
  have e: "length (pre @ emit_record (n, v)) = 7 + length pre + length v" by (simp add: emit_record_def l)
  show ?thesis
    unfolding e
    by (subst records.simps) (simp add: len t text_bytes_of bytes_ascii [OF n(2)] n(3-5) s d' Let_def)
qed

lemma records_end:
  assumes "length rest < 3 \<or> take 3 rest = bytes_of ''EOF''"
  shows "records (pre @ rest) (length pre) = ([], None)"
proof (cases "length rest < 3")
  case True
  then show ?thesis by (subst records.simps) simp
next
  case False
  then have "take 3 (drop (length pre) (pre @ rest)) = bytes_of ''EOF''" using assms by simp
  moreover have "\<not> list_ex (\<lambda>b. 128 \<le> b) (bytes_of ''EOF'')" by (rule bytes_ascii) simp
  ultimately show ?thesis using False by (subst records.simps) (simp add: text_bytes_of Let_def)
qed

text \<open>The separators \<open>NXT\<close> and \<open>EOO\<close> are skipped.\<close>

lemma records_skip:
  assumes "n \<in> {''NXT'', ''EOO''}"
  shows "records (pre @ bytes_of n @ rest) (length pre) = records (pre @ bytes_of n @ rest) (length (pre @ bytes_of n))"
proof -
  have l: "length (bytes_of n) = 3" using assms by (auto simp: bytes_of_def)
  have t: "take 3 (drop (length pre) (pre @ bytes_of n @ rest)) = bytes_of n" by (simp add: l)
  have "\<not> list_ex (\<lambda>b. 128 \<le> b) (bytes_of n)" by (rule bytes_ascii) (use assms in auto)
  then show ?thesis
    using assms by (subst records.simps) (simp only: t, auto simp: l text_bytes_of Let_def)
qed

datatype piece = Record string bytes | Separator string

fun piece_ok :: "piece \<Rightarrow> bool" where
  "piece_ok (Record n v) = (name_ok n \<and> length v < 2 ^ 31)"
| "piece_ok (Separator n) = (n \<in> {''NXT'', ''EOO''})"

fun emit_piece :: "piece \<Rightarrow> bytes" where
  "emit_piece (Record n v) = emit_record (n, v)"
| "emit_piece (Separator n) = bytes_of n"

fun piece_records :: "piece list \<Rightarrow> (string \<times> bytes) list" where
  "piece_records [] = []"
| "piece_records (Record n v # ps) = (n, v) # piece_records ps"
| "piece_records (Separator n # ps) = piece_records ps"

lemma records_pieces:
  assumes "list_all piece_ok ps" "length rest < 3 \<or> take 3 rest = bytes_of ''EOF''"
  shows "records (pre @ concat (map emit_piece ps) @ rest) (length pre) = (piece_records ps, None)"
  using assms(1)
proof (induction ps arbitrary: pre rule: piece_records.induct)
  case 1
  then show ?case using records_end [OF assms(2)] by simp
next
  case (2 n v ps)
  then show ?case
    using records_print [of n v _ pre "concat (map emit_piece ps) @ rest"] "2.IH" [of "pre @ emit_record (n, v)"] by simp
next
  case (3 n ps)
  then show ?case
    using records_skip [of n pre "concat (map emit_piece ps) @ rest"] "3.IH" [of "pre @ bytes_of n"] by simp
qed

end
