(* ===== verification/SceneFacts.thy ===== *)
theory SceneFacts
  imports SceneExport SceneCodec
begin

text \<open>
  What the scene tool establishes: relative poses are products along the chain of parents and exist
  exactly when there is such a chain, objects that were read are complete, and which transforms the
  consistency checks let through.
\<close>

section \<open>Chains of parents\<close>

text \<open>The objects from \<open>child\<close> up to, and without, \<open>par\<close>.\<close>

inductive chain :: "objects \<Rightarrow> int \<Rightarrow> int \<Rightarrow> int list \<Rightarrow> bool" for objs where
  here: "chain objs p p []"
| up: "c \<noteq> p \<Longrightarrow> dget objs c = Some ob \<Longrightarrow> obj_pose ob = Some v \<Longrightarrow> obj_parent ob = Some q \<Longrightarrow>
    chain objs q p ks \<Longrightarrow> chain objs c p (c # ks)"

inductive_cases chain_hereE: "chain objs p p ks"
inductive_cases chain_upE: "chain objs c p (k # ks)"
inductive_cases chainE: "chain objs c p ks"

definition pose_of :: "objects \<Rightarrow> int \<Rightarrow> matrix" where
  "pose_of objs k = pose_matrix (the (obj_pose (the (dget objs k))))"

text \<open>The product of the poses on a chain, the outermost first.\<close>

definition chain_pose :: "objects \<Rightarrow> int list \<Rightarrow> matrix" where
  "chain_pose objs ks = foldl (\<lambda>m k. multiply (pose_of objs k) m) identity ks"

lemma chain_unique: "chain objs c p ks \<Longrightarrow> chain objs c p ks' \<Longrightarrow> ks = ks'"
proof (induction arbitrary: ks' rule: chain.induct)
  case (here p)
  then show ?case by (auto elim: chain_hereE)
next
  case (up c p ob v q ks)
  from up.prems show ?case
  proof cases
    case here
    then show ?thesis using up.hyps by simp
  next
    case (up ob' v' q' ks'')
    then show ?thesis using up.IH up.hyps by auto
  qed
qed

lemma chain_suffix: "chain objs c p ks \<Longrightarrow> k \<in> set ks \<Longrightarrow> \<exists>us vs. ks = us @ k # vs \<and> chain objs k p (k # vs)"
proof (induction rule: chain.induct)
  case (up c p ob v q ks)
  show ?case
  proof (cases "k = c")
    case True
    then show ?thesis using chain.up [OF up.hyps] by (intro exI [of _ "[]"] exI [of _ ks]) auto
  next
    case False
    then obtain us vs where "ks = us @ k # vs" "chain objs k p (k # vs)" using up by auto
    then show ?thesis by (intro exI [of _ "c # us"] exI [of _ vs]) auto
  qed
qed simp

lemma chain_distinct: "chain objs c p ks \<Longrightarrow> distinct ks"
proof (induction rule: chain.induct)
  case (up c p ob v q ks)
  have "c \<notin> set ks"
  proof
    assume "c \<in> set ks"
    then obtain us vs where s: "ks = us @ c # vs" "chain objs c p (c # vs)" using chain_suffix [OF up.hyps(5)] by blast
    have "chain objs c p (c # ks)" by (rule chain.up [OF up.hyps])
    then have "c # ks = c # vs" using s(2) by (rule chain_unique)
    then show False using s(1) by simp
  qed
  then show ?case using up.IH by simp
qed simp

lemma relative_from_chain:
  "chain objs c p ks \<Longrightarrow> set ks \<inter> visited = {} \<Longrightarrow> distinct ks \<Longrightarrow>
   relative_from objs c p visited m = Inr (foldl (\<lambda>m k. multiply (pose_of objs k) m) m ks)"
proof (induction arbitrary: visited m rule: chain.induct)
  case (here p)
  then show ?case by (subst relative_from.simps) simp
next
  case (up c p ob v q ks)
  have "relative_from objs q p (insert c visited) (multiply (pose_matrix v) m)
      = Inr (foldl (\<lambda>m k. multiply (pose_of objs k) m) (multiply (pose_matrix v) m) ks)"
    by (rule up.IH) (use up.prems in auto)
  then show ?case
    using up.hyps up.prems by (subst relative_from.simps) (simp add: pose_of_def)
qed

lemma relative_from_step:
  "c \<noteq> p \<Longrightarrow> c \<notin> visited \<Longrightarrow> dget objs c = Some ob \<Longrightarrow> obj_pose ob = Some v \<Longrightarrow> obj_parent ob = Some q \<Longrightarrow>
   relative_from objs c p visited m = relative_from objs q p (insert c visited) (multiply (pose_matrix v) m)"
  by (subst relative_from.simps) simp

lemma relative_from_cases:
  obtains "c = p" "relative_from objs c p visited m = Inr m"
  | "relative_from objs c p visited m = Inl ValueError"
  | ob where "dget objs c = Some ob" "obj_pose ob = None \<or> obj_parent ob = None" "relative_from objs c p visited m = Inl KeyError"
  | ob v q where "c \<noteq> p" "c \<notin> visited" "dget objs c = Some ob" "obj_pose ob = Some v" "obj_parent ob = Some q"
      "relative_from objs c p visited m = relative_from objs q p (insert c visited) (multiply (pose_matrix v) m)"
proof (cases "c = p \<or> c \<in> visited \<or> dget objs c = None")
  case True
  show ?thesis
  proof (cases "c = p")
    case True
    then have "relative_from objs c p visited m = Inr m" by (subst relative_from.simps) simp
    then show ?thesis by (rule that(1) [OF True])
  next
    case no: False
    then have "relative_from objs c p visited m = Inl ValueError" using True by (subst relative_from.simps) auto
    then show ?thesis by (rule that(2))
  qed
next
  case False
  then obtain ob where ob: "dget objs c = Some ob" by auto
  show ?thesis
  proof (cases "obj_pose ob = None \<or> obj_parent ob = None")
    case True
    then show ?thesis
      using False ob by (intro that(3) [OF ob]) (auto simp: relative_from.simps [of objs c] split: option.split)
  next
    case no: False
    then show ?thesis using False ob relative_from_step [of c p visited objs ob] that(4) by auto
  qed
qed

lemma relative_from_InrD: "relative_from objs c p visited m = Inr r \<Longrightarrow> \<exists>ks. chain objs c p ks"
proof (induction objs c p visited m rule: relative_from.induct)
  case (1 objs c p visited m)
  show ?case
  proof (cases rule: relative_from_cases [of c p objs visited m])
    case (4 ob v q)
    have "\<exists>ks. chain objs q p ks"
      by (rule "1.IH" [OF 4(1-3) refl 4(4,5)]) (use 1 4 in simp)
    then show ?thesis using chain.up [OF 4(1,3-5)] by blast
  qed (use 1 chain.here in auto)
qed

lemma relative_iff: "relative objs c p = Inr r \<longleftrightarrow> (\<exists>ks. chain objs c p ks \<and> r = chain_pose objs ks)"
proof
  assume r: "relative objs c p = Inr r"
  then obtain ks where ks: "chain objs c p ks" unfolding relative_def by (metis relative_from_InrD)
  with r show "\<exists>ks. chain objs c p ks \<and> r = chain_pose objs ks"
    using relative_from_chain [OF ks _ chain_distinct [OF ks], of "{}" identity] by (auto simp: relative_def chain_pose_def)
next
  assume "\<exists>ks. chain objs c p ks \<and> r = chain_pose objs ks"
  then obtain ks where ks: "chain objs c p ks" "r = chain_pose objs ks" by blast
  then show "relative objs c p = Inr r"
    using relative_from_chain [OF ks(1) _ chain_distinct [OF ks(1)], of "{}" identity] by (simp add: relative_def chain_pose_def)
qed

section \<open>Objects that were read\<close>

definition object_ok :: "int \<Rightarrow> scene_object \<Rightarrow> bool" where
  "object_ok k ob \<longleftrightarrow> obj_id ob = Some k \<and> obj_parent ob \<noteq> None \<and> obj_pose ob \<noteq> None \<and> obj_name ob \<noteq> None"

definition objects_ok :: "objects \<Rightarrow> bool" where
  "objects_ok objs \<longleftrightarrow> (\<forall>k ob. dget objs k = Some ob \<longrightarrow> object_ok k ob)"

lemma read_object_ok: "read_object objs kind v = Inr objs' \<Longrightarrow> objects_ok objs \<Longrightarrow> objects_ok objs'"
  by (auto simp: read_object_def objects_ok_def object_ok_def res_simps dict_simps split: if_splits option.splits)

lemma for_records_ok:
  "for_records f s (rs, e) = Inr s' \<Longrightarrow> P s \<Longrightarrow> (\<And>s name v s'. f s name v = Inr s' \<Longrightarrow> P s \<Longrightarrow> P s') \<Longrightarrow> P s'"
proof (induction rs arbitrary: s)
  case Nil
  then show ?case by (cases e) auto
next
  case (Cons r rs)
  then show ?case by (cases r) (auto simp: res_simps)
qed

lemma read_objects_ok:
  assumes "read_objects d = Inr objs"
  shows "objects_ok objs"
proof -
  obtain rs e where r: "records d 0 = (rs, e)" by fastforce
  show ?thesis
    by (rule for_records_ok [OF assms [unfolded read_objects_def r]]) (auto simp: objects_ok_def [of "[]"] intro: read_object_ok)
qed

text \<open>On complete objects a relative pose that does not exist is a \<open>ValueError\<close>.\<close>

lemma relative_from_error:
  "relative_from objs c p visited m = Inl e \<Longrightarrow> objects_ok objs \<Longrightarrow> e = ValueError"
proof (induction objs c p visited m rule: relative_from.induct)
  case (1 objs c p visited m)
  show ?case
  proof (cases rule: relative_from_cases [of c p objs visited m])
    case (4 ob v q)
    show ?thesis
      by (rule "1.IH" [OF 4(1-3) refl 4(4,5)]) (use 1 4 in simp_all)
  next
    case (3 ob)
    then show ?thesis using "1.prems"(2) unfolding objects_ok_def object_ok_def by blast
  qed (use 1 in simp_all)
qed

section \<open>The consistency checks\<close>

lemma not_less_NaN [simp]: "\<not> x < (NaN :: pyfloat)" "\<not> NaN < (x :: pyfloat)"
  by (cases x; simp)+

text \<open>A transform whose first entry is no number passes every comparison.\<close>

lemma py_max_NaN: "py_max (NaN # xs) = NaN"
proof -
  have "foldl (\<lambda>m x. if m < x then x else m) NaN xs = NaN" by (induction xs) simp_all
  then show ?thesis by simp
qed

lemma difference_NaN:
  assumes "t ! 0 ! 0 = NaN"
  shows "difference t r = NaN"
proof -
  have n: "\<bar>NaN - x\<bar> = NaN" for x :: pyfloat by (simp add: minus_pyfloat_def)
  have "[0..<4] = [0, 1, 2, 3 :: nat]" by (simp add: upt_rec)
  then have "difference t r = py_max (\<bar>t ! 0 ! 0 - r ! 0 ! 0\<bar> # tl (concat (map (\<lambda>row. map (\<lambda>col. \<bar>t ! row ! col - r ! row ! col\<bar>) [0..<4]) [0..<4])))"
    by (simp only: difference_def) simp
  then show ?thesis unfolding assms n py_max_NaN .
qed

lemma le_uint_zeros: "set bs \<subseteq> {0} \<Longrightarrow> le_uint bs = 0"
  by (induction bs) auto

lemma times_NaN [simp]: "NaN * (x :: pyfloat) = NaN" "x * (NaN :: pyfloat) = NaN"
  by (cases x; simp)+

lemma plus_NaN [simp]: "NaN + (x :: pyfloat) = NaN" "x + (NaN :: pyfloat) = NaN"
  by (cases x; simp)+

lemma multiply_entry: "multiply l r ! 0 ! 0 = Fin 0 + l ! 0 ! 0 * r ! 0 ! 0 + l ! 0 ! 1 * r ! 1 ! 0 + l ! 0 ! 2 * r ! 2 ! 0 + l ! 0 ! 3 * r ! 3 ! 0"
proof -
  have u: "[0..<4] = [0, 1, 2, 3 :: nat]" by (simp add: upt_rec)
  show ?thesis by (simp add: multiply_def py_sum_def u)
qed

lemma multiply_NaN: "l ! 0 ! 0 = NaN \<Longrightarrow> multiply l r ! 0 ! 0 = NaN" "r ! 0 ! 0 = NaN \<Longrightarrow> multiply l r ! 0 ! 0 = NaN"
  by (simp_all add: multiply_entry)

lemma actual_pose_NaN:
  assumes "t ! 0 ! 0 = NaN" "m_origins m = t # ts"
  shows "actual_pose T m (v # vs) ! 0 ! 0 = NaN"
proof -
  have "foldl (\<lambda>p (origin, angle). multiply (multiply p origin) (z_frame T angle (Fin 0))) q ps ! 0 ! 0 = NaN"
    if "q ! 0 ! 0 = NaN" for q ps
    using that by (induction ps arbitrary: q) (auto simp: multiply_NaN(1))
  then show ?thesis using assms by (simp add: actual_pose_def multiply_NaN)
qed

lemma pose_matrix_NaN: "p ! 2 = NaN \<Longrightarrow> pose_matrix p ! 0 ! 0 = NaN"
  by (simp add: pose_matrix_def Let_def minus_pyfloat_def)

lemma relative_from_NaN:
  assumes "relative_from objs child par visited result = Inr m" "result ! 0 ! 0 = NaN"
  shows "m ! 0 ! 0 = NaN"
  using assms
proof (induction objs child par visited result rule: relative_from.induct)
  case (1 objs child par visited result)
  show ?case
    using "1.prems" "1.IH" multiply_NaN(2) [OF "1.prems"(2)]
    by (subst (asm) relative_from.simps) (auto split: if_splits option.splits)
qed

lemma relative_NaN:
  assumes r: "relative objs child par = Inr m" "child \<noteq> par"
    and o: "dget objs child = Some ob" "obj_pose ob = Some p" "p ! 2 = NaN"
  shows "m ! 0 ! 0 = NaN"
proof -
  obtain up where "relative_from objs up par {child} (multiply (pose_matrix p) identity) = Inr m"
    using r o(1,2) unfolding relative_def by (subst (asm) relative_from.simps) (auto split: option.splits)
  then show ?thesis by (rule relative_from_NaN) (simp add: multiply_NaN(1) pose_matrix_NaN o(3))
qed

lemma export_model_first:
  assumes "export_model T objs = Inr m"
  shows "\<exists>base j t ts. named objs ''UR5'' = Inr base \<and> named objs ''UR5_joint1'' = Inr j
           \<and> relative objs j base = Inr t \<and> m_origins m = t # ts"
  using assms by (auto simp: export_model_def JOINT_NAMES_def res_simps)

lemma export_cases_NaN:
  assumes "t ! 0 ! 0 = NaN" "m_origins m = t # ts" "[] \<notin> set vs"
  shows "rmap (export_case T m) vs = Inr (map (\<lambda>v. (v, actual_pose T m v)) vs)"
proof (rule rmap_map_Inr)
  fix v assume "v \<in> set vs"
  with assms(3) have "v = hd v # tl v" by (cases v) auto
  then show "export_case T m v = Inr (v, actual_pose T m v)"
    using difference_NaN [OF actual_pose_NaN [OF assms(1,2), of T "hd v" "tl v"]] by (simp add: export_case_def)
qed

lemma mdh_rows_NaN:
  assumes "\<And>k. k \<in> {1..<6} \<Longrightarrow> ors ! k ! 0 ! 0 = NaN"
  shows "\<exists>rows. mdh_rows T ors = Inr rows"
proof -
  have "multiply (multiply l (ors ! k)) r ! 0 ! 0 = NaN" if "k \<in> {1..<6}" for l r k
    using assms [OF that] by (simp add: multiply_NaN)
  then have "\<exists>row. mdh_row T (multiply (multiply l (ors ! k)) r) = Inr row" if "k \<in> {1..<6}" for l r k
    using difference_NaN that by (simp add: mdh_row_def Let_def)
  then have "rmap (\<lambda>k. mdh_row T (multiply (multiply (inverse_pose (adapters T ors ! (k - 1))) (ors ! k)) (adapters T ors ! k))) [1..<6]
      = Inr (map (\<lambda>k. projr (mdh_row T (multiply (multiply (inverse_pose (adapters T ors ! (k - 1))) (ors ! k)) (adapters T ors ! k)))) [1..<6])"
    by (intro rmap_map_Inr) (metis set_upt sum.sel(2))
  then show ?thesis unfolding mdh_rows_def by simp
qed

end
