(* ===== verification/SceneDoubles.thy ===== *)
theory SceneDoubles
  imports SceneFiles SceneFacts
begin

text \<open>
  What the exporter's numbers are: every float it computes and writes is a double, since those of
  the scene are and the arithmetic keeps them so, given a platform whose \<open>sin\<close>, \<open>cos\<close> and
  \<open>atan2\<close> return floats. So both files read back as the values written.
\<close>

section \<open>Every number of an export is a double\<close>

named_theorems double_intros \<open>numbers and matrices of doubles\<close>

definition mat_ok :: "matrix \<Rightarrow> bool" where
  "mat_ok m \<longleftrightarrow> length m = 4 \<and> (\<forall>r \<in> set m. length r = 4 \<and> list_all float_ok r)"

lemma nth_ok [double_intros]: "list_all float_ok v \<Longrightarrow> i < length v \<Longrightarrow> float_ok (v ! i)"
  by (simp add: list_all_length)

text \<open>Documented of \<open>math\<close>: these functions return floats.\<close>

definition trig_ok :: "trig \<Rightarrow> bool" where
  "trig_ok T \<longleftrightarrow> (\<forall>x y. float_ok (cosf T x) \<and> float_ok (sinf T x) \<and> float_ok (atan2f T x y))"

lemma mat_entry [double_intros]: "mat_ok m \<Longrightarrow> i < 4 \<Longrightarrow> j < 4 \<Longrightarrow> float_ok (m ! i ! j)"
  by (auto simp: mat_ok_def list_all_length)

lemma trig_okD [double_intros]: "trig_ok T \<Longrightarrow> float_ok (cosf T x)" "trig_ok T \<Longrightarrow> float_ok (sinf T x)" "trig_ok T \<Longrightarrow> float_ok (atan2f T x y)"
  by (simp_all add: trig_ok_def)

lemma float_ok_small [double_intros]: "float_ok (Fin 2)" "float_ok MATH_PI"
proof -
  show "float_ok (Fin 2)" by simp
  have "f64 (884279719003555 / 281474976710656) = Fin (884279719003555 / 281474976710656)"
    by (rule f64_exact [of _ 884279719003555 "- 48"]) (simp_all add: power_int_minus)
  then show "float_ok MATH_PI" by (simp add: MATH_PI_def)
qed

lemma py_sum_ok [double_intros]: "(\<And>x. x \<in> set xs \<Longrightarrow> float_ok x) \<Longrightarrow> float_ok (py_sum xs)"
proof -
  have "float_ok (foldl (+) a xs)" if "float_ok a" "\<And>x. x \<in> set xs \<Longrightarrow> float_ok x" for a
    using that by (induction xs arbitrary: a) auto
  then show "(\<And>x. x \<in> set xs \<Longrightarrow> float_ok x) \<Longrightarrow> ?thesis" by (simp add: py_sum_def)
qed

lemma identity_ok [double_intros]: "mat_ok identity"
  by (auto simp: mat_ok_def identity_def list_all_iff of_bool_def)

lemma multiply_ok [double_intros]: "mat_ok l \<Longrightarrow> mat_ok r \<Longrightarrow> mat_ok (multiply l r)"
  unfolding multiply_def
  by (auto simp: mat_ok_def [of "map _ _"] list_all_iff intro!: py_sum_ok float_ok_times mat_entry)

lemma inverse_pose_ok [double_intros]: "mat_ok p \<Longrightarrow> mat_ok (inverse_pose p)"
  unfolding inverse_pose_def
  by (auto simp: mat_ok_def [of "_ @ _"] list_all_iff intro!: py_sum_ok float_ok_times float_ok_uminus mat_entry)

lemma z_frame_ok [double_intros]: "trig_ok T \<Longrightarrow> float_ok d \<Longrightarrow> mat_ok (z_frame T a d)"
  by (simp add: mat_ok_def z_frame_def Let_def trig_okD)

lemma pose_matrix_ok [double_intros]: "length v = 7 \<Longrightarrow> list_all float_ok v \<Longrightarrow> mat_ok (pose_matrix v)"
  using float_ok_small(1) nth_ok [of v] by (simp add: mat_ok_def pose_matrix_def Let_def del: float_ok.simps)

lemma mdh_matrix_ok [double_intros]: "trig_ok T \<Longrightarrow> length row = 4 \<Longrightarrow> list_all float_ok row \<Longrightarrow> mat_ok (mdh_matrix T row a)"
  by (simp add: mat_ok_def mdh_matrix_def Let_def trig_okD nth_ok)


section \<open>What a scene holds\<close>

lemma le_uint_nonneg: "0 \<le> le_uint bs"
  by (induction bs) simp_all

lemma double_at_ok: "float_ok (double_at bs i)"
proof -
  define u where "u = le_uint (take 8 (drop i bs))"
  obtain e where e: "e = u div 2 ^ 52 mod 2 ^ 11" by blast
  obtain m where m: "m = u mod 2 ^ 52" by blast
  obtain s :: int where s: "s = (if u < 2 ^ 63 then 1 else - 1)" by blast
  have mb: "0 \<le> m" "m < 2 ^ 52" and eb: "0 \<le> e" "e < 2 ^ 11" by (simp_all add: e m)
  have sb: "\<bar>s * k\<bar> = \<bar>k\<bar>" for k by (simp add: s abs_mult)
  have d: "double_at bs i =
      (if e = 2047 then (if m \<noteq> 0 then NaN else if of_int s = (1 :: rat) then PInf else NInf)
       else if e = 0 then with_sign (of_int s = (- 1 :: rat)) (Fin (of_int (s * m) * 2 powi - 1074))
       else Fin (of_int (s * (2 ^ 52 + m)) * 2 powi (e - 1075)))"
    unfolding double_at_def Let_def u_def [symmetric] e [symmetric] m [symmetric] by (simp add: s)
  have big: "\<bar>of_int k * 2 powi x\<bar> < (2 ^ 1024 :: rat)" if "\<bar>k\<bar> < 2 ^ 53" "x \<le> 971" for k x
  proof -
    have "(of_int \<bar>k\<bar> :: rat) < of_int (2 ^ 53)" using that(1) by (simp only: of_int_less_iff)
    then have "\<bar>of_int k * 2 powi x\<bar> < (2 ^ 53 * 2 powi x :: rat)" by (simp add: abs_mult)
    also have "\<dots> = 2 powi (x + 53)" by (simp add: power_int_add)
    also have "\<dots> \<le> 2 powi 1024" by (rule power_int_increasing) (use that in simp_all)
    also have "(2 powi 1024 :: rat) = 2 ^ 1024" by (simp only: power_int_numeral)
    finally show ?thesis .
  qed
  have ok: "float_ok (Fin (of_int k * 2 powi x))" if "\<bar>k\<bar> < 2 ^ 53" "-1074 \<le> x" "x \<le> 971" for k x
    using f64_exact_below [OF refl that(1,2) big [OF that(1,3)]] by simp
  show ?thesis
    using ok [of "s * m" "- 1074"] ok [of "s * (2 ^ 52 + m)" "e - 1075"] mb eb sb unfolding d
    by (simp del: float_ok.simps(1) of_int_mult)
qed

definition object_double :: "scene_object \<Rightarrow> bool" where
  "object_double ob \<longleftrightarrow>
     (\<forall>p. obj_pose ob = Some p \<longrightarrow> length p = 7 \<and> list_all float_ok p)
     \<and> (\<forall>x. obj_minimum ob = Some x \<or> obj_range ob = Some x \<longrightarrow> float_ok x)
     \<and> (\<forall>s. obj_name ob = Some s \<longrightarrow> valid_utf8 s)"

definition objects_double :: "objects \<Rightarrow> bool" where
  "objects_double objs \<longleftrightarrow> (\<forall>k ob. dget objs k = Some ob \<longrightarrow> object_double ob)"

lemma doubles_ok: "doubles n bs = Inr p \<Longrightarrow> length p = n \<and> list_all float_ok p"
  by (auto simp: doubles_def list_all_iff double_at_ok split: if_splits)

lemma read_field_double: "read_field ob name v = Inr ob' \<Longrightarrow> object_double ob \<Longrightarrow> object_double ob'"
  by (auto simp: read_field_def object_double_def decode_text_def res_simps double_at_ok dest!: doubles_ok split: if_splits)

lemma read_object_double: "read_object objs kind v = Inr objs' \<Longrightarrow> objects_double objs \<Longrightarrow> objects_double objs'"
proof -
  assume r: "read_object objs kind v = Inr objs'" and o: "objects_double objs"
  show ?thesis
  proof (cases "take 3 v = bytes_of ''3do''")
    case True
    then obtain ob where ob: "for_records read_field (new_object kind) (records v 0) = Inr ob"
      using r by (auto simp: read_object_def res_simps)
    obtain rs e where rs: "records v 0 = (rs, e)" by fastforce
    have "object_double (new_object kind)" by (simp add: object_double_def new_object_def)
    then have "object_double ob" using for_records_ok [OF ob [unfolded rs]] read_field_double by blast
    then show ?thesis using r o True ob
      by (auto simp: read_object_def objects_double_def res_simps dict_simps split: option.splits if_splits)
  qed (use r o in \<open>simp add: read_object_def\<close>)
qed

lemma read_objects_double: "read_objects d = Inr objs \<Longrightarrow> objects_double objs"
proof -
  assume r: "read_objects d = Inr objs"
  obtain rs e where rs: "records d 0 = (rs, e)" by fastforce
  show ?thesis
    by (rule for_records_ok [OF r [unfolded read_objects_def rs]]) (simp add: objects_double_def, rule read_object_double)
qed

lemma relative_from_double:
  "relative_from objs c p visited m = Inr r \<Longrightarrow> objects_double objs \<Longrightarrow> mat_ok m \<Longrightarrow> mat_ok r"
proof (induction objs c p visited m rule: relative_from.induct)
  case (1 objs c p visited m)
  show ?case
  proof (cases rule: relative_from_cases [of c p objs visited m])
    case (4 ob v q)
    have "mat_ok (pose_matrix v)" using 1(3) 4 unfolding objects_double_def object_double_def by (blast intro: pose_matrix_ok)
    then show ?thesis using "1.IH" [OF 4(1-3) refl 4(4,5)] 1 4 by (simp add: multiply_ok)
  qed (use 1 in simp_all)
qed

lemma relative_double: "relative objs c p = Inr r \<Longrightarrow> objects_double objs \<Longrightarrow> mat_ok r"
  unfolding relative_def using relative_from_double identity_ok by blast


section \<open>What an export holds\<close>

lemma rmap_all: "rmap f xs = Inr ys \<Longrightarrow> (\<And>x y. x \<in> set xs \<Longrightarrow> f x = Inr y \<Longrightarrow> P y) \<Longrightarrow> list_all P ys"
  by (auto simp: rmap_Inr_iff list_all2_conv_all_nth list_all_length) (metis nth_mem)

lemma list_all_update: "list_all P xs \<Longrightarrow> P v \<Longrightarrow> list_all P (xs[i := v])"
  by (auto simp: list_all_iff dest: set_update_subset_insert [THEN subsetD])

lemma adapters_ok: "trig_ok T \<Longrightarrow> length ors = 6 \<Longrightarrow> (\<And>m. m \<in> set ors \<Longrightarrow> mat_ok m) \<Longrightarrow>
    length (adapters T ors) = 6 \<and> (\<forall>m \<in> set (adapters T ors). mat_ok m)"
proof -
  assume a: "trig_ok T" "length ors = 6" "\<And>m. m \<in> set ors \<Longrightarrow> mat_ok m"
  then have "mat_ok (ors ! i)" if "i < 6" for i using that by simp
  then show ?thesis using a(1) by (simp add: adapters_def Let_def z_frame_ok mat_entry)
qed

lemma mdh_row_ok: "trig_ok T \<Longrightarrow> mat_ok t \<Longrightarrow> mdh_row T t = Inr row \<Longrightarrow> length row = 4 \<and> list_all float_ok row"
  by (auto simp: mdh_row_def Let_def trig_okD mat_entry split: if_splits)

lemma mdh_rows_ok:
  assumes "trig_ok T" "length ors = 6" "\<And>m. m \<in> set ors \<Longrightarrow> mat_ok m" "mdh_rows T ors = Inr rows"
  shows "length rows = 6 \<and> (\<forall>row \<in> set rows. length row = 4 \<and> list_all float_ok row)"
proof -
  have A: "mat_ok (adapters T ors ! j)" "mat_ok (ors ! j)" if "j < 6" for j
    using adapters_ok [OF assms(1-3)] assms(2,3) that by simp_all
  obtain rs where rs: "rows = [Fin 0, Fin 0, Fin 0, Fin 0] # rs"
    "rmap (\<lambda>k. mdh_row T (multiply (multiply (inverse_pose (adapters T ors ! (k - 1))) (ors ! k)) (adapters T ors ! k))) [1..<6] = Inr rs"
    using assms(4) by (auto simp: mdh_rows_def res_simps)
  have "list_all (\<lambda>row. length row = 4 \<and> list_all float_ok row) rs"
  proof (rule rmap_all [OF rs(2)])
    fix k row
    assume k: "k \<in> set [1..<6]"
      "mdh_row T (multiply (multiply (inverse_pose (adapters T ors ! (k - 1))) (ors ! k)) (adapters T ors ! k)) = Inr row"
    show "length row = 4 \<and> list_all float_ok row"
      by (rule mdh_row_ok [OF assms(1) _ k(2)])
        (use k(1) in \<open>intro multiply_ok inverse_pose_ok A; auto\<close>)
  qed
  then show ?thesis using rs rmap_length [OF rs(2)] by (simp add: list_all_iff)
qed

lemma midpoint_ok [double_intros]: "mat_ok l \<Longrightarrow> mat_ok r \<Longrightarrow> mat_ok (midpoint l r)"
proof -
  assume m: "mat_ok l" "mat_ok r"
  obtain h where h: "h = (\<lambda>i. case fdiv (l ! i ! 3 + r ! i ! 3) (Fin 2) of Inl x \<Rightarrow> NaN | Inr h \<Rightarrow> h)" by blast
  have ok: "float_ok (h i)" if "i < 4" for i
    using float_ok_fdiv [of "l ! i ! 3 + r ! i ! 3" "Fin 2"] mat_entry [OF m(1) that] mat_entry [OF m(2) that]
    by (simp add: h split: sum.split del: fdiv.simps)
  have eq: "midpoint l r = map (\<lambda>row. (identity ! row)[3 := h row]) [0..<3] @ [identity ! 3]"
    by (simp add: midpoint_def h del: fdiv.simps)
  have I: "length (identity ! i) = 4" "list_all float_ok (identity ! i)" if "i < 4" for i
    using identity_ok that by (auto simp: mat_ok_def)
  have "length ((identity ! i)[3 := h i]) = 4 \<and> list_all float_ok ((identity ! i)[3 := h i])" if "i < 4" for i
    using I [OF that] list_all_update [OF I(2) ok, OF that that] by simp
  then show "mat_ok (midpoint l r)" unfolding eq by (auto simp: mat_ok_def I)
qed

definition model_ok :: "ur5_model \<Rightarrow> bool" where
  "model_ok m \<longleftrightarrow>
     list_all valid_utf8 (m_joints m) \<and> list_all mat_ok ([m_world_from_base m, m_base_from_mdh m, m_flange m, m_tool m] @ m_origins m)
     \<and> list_all (\<lambda>row. length row = 4 \<and> list_all float_ok row) (m_mdh m)
     \<and> list_all float_ok (m_joint_min m) \<and> list_all float_ok (m_joint_max m)
     \<and> length (m_joint_min m) = 6 \<and> length (m_joint_max m) = 6"

lemma attribute_Inr [res_simps]: "attribute objs f k = Inr v \<longleftrightarrow> (\<exists>ob. dget objs k = Some ob \<and> f ob = Some v)"
  by (auto simp: attribute_def split: option.splits)



lemma export_model_ok:
  assumes T: "trig_ok T" and o: "objects_double objs" and m: "export_model T objs = Inr m"
  shows "model_ok m"
proof -
  obtain base joints flange ors mdh l r left right names world j6 lo hi where E':
    "named objs ''UR5'' = Inr base" "named objs ''UR5_link7'' = Inr flange"
    "named objs ''RG2_leftTouch'' = Inr l" "named objs ''RG2_rightTouch'' = Inr r" and E:
    "rmap (named objs) JOINT_NAMES = Inr joints"
    "rmap (\<lambda>(child, par). relative objs child par) (zip joints (base # butlast joints)) = Inr ors"
    "mdh_rows T ors = Inr mdh" "relative objs l flange = Inr left" "relative objs r flange = Inr right"
    "rmap (attribute objs obj_name) joints = Inr names" "relative objs base (- 1) = Inr world"
    "relative objs flange (last joints) = Inr j6" "rmap (attribute objs obj_minimum) joints = Inr lo"
    "rmap (\<lambda>k. rbind (attribute objs obj_minimum k) (\<lambda>a. rbind (attribute objs obj_range k) (\<lambda>b. Inr (a + b)))) joints = Inr hi"
    "m = \<lparr>m_joints = names, m_world_from_base = world, m_base_from_mdh = multiply (ors ! 0) (adapters T ors ! 0),
            m_mdh = mdh, m_origins = ors, m_flange = j6, m_tool = midpoint left right, m_joint_min = lo, m_joint_max = hi\<rparr>"
    using m unfolding export_model_def by (clarsimp simp only: res_simps sum.inject)
  have n: "length joints = 6" using rmap_length [OF E(1)] by (simp add: JOINT_NAMES_def)
  have "length ors = 6" using rmap_length [OF E(2)] n by simp
  moreover have "list_all mat_ok ors" by (rule rmap_all [OF E(2)]) (auto intro: relative_double o)
  moreover have "length (adapters T ors) = 6 \<and> (\<forall>m \<in> set (adapters T ors). mat_ok m)"
    using calculation by (intro adapters_ok T) (auto simp: list_all_iff)
  moreover have "length mdh = 6 \<and> (\<forall>row \<in> set mdh. length row = 4 \<and> list_all float_ok row)"
    using calculation by (intro mdh_rows_ok [OF T _ _ E(3)]) (auto simp: list_all_iff)
  moreover have "mat_ok world" "mat_ok j6" "mat_ok left" "mat_ok right" using E o relative_double by blast+
  moreover have "list_all valid_utf8 names"
    by (rule rmap_all [OF E(6)]) (use o in \<open>auto simp: res_simps objects_double_def object_double_def\<close>)
  moreover have "list_all float_ok lo"
    by (rule rmap_all [OF E(9)]) (use o in \<open>auto simp: res_simps objects_double_def object_double_def\<close>)
  moreover have "list_all float_ok hi"
    by (rule rmap_all [OF E(10)]) (use o in \<open>force simp: res_simps objects_double_def object_double_def\<close>)
  moreover have "length lo = 6" "length hi = 6" using rmap_length [OF E(9)] rmap_length [OF E(10)] n by simp_all
  ultimately show ?thesis by (auto simp: model_ok_def E(11) list_all_iff intro!: multiply_ok midpoint_ok)
qed

text \<open>The angles as they are used, and the poses computed for them.\<close>

definition case_ok :: "pyfloat list \<times> matrix \<Rightarrow> bool" where
  "case_ok = (\<lambda>(values, actual). list_all float_ok values \<and> mat_ok actual)"

lemma actual_pose_ok:
  assumes T: "trig_ok T" and m: "model_ok m"
  shows "mat_ok (actual_pose T m values)"
proof -
  have "mat_ok (foldl (\<lambda>p (origin, angle). multiply (multiply p origin) (z_frame T angle (Fin 0))) q ps)"
    if "mat_ok q" "\<forall>p \<in> set ps. mat_ok (fst p)" for q ps
    using that by (induction ps arbitrary: q) (auto simp: multiply_ok z_frame_ok T)
  moreover have "\<forall>p \<in> set (zip (m_origins m) values). mat_ok (fst p)"
    using m by (auto simp: model_ok_def list_all_iff dest: set_zip_leftD)
  ultimately show ?thesis using m by (auto simp: actual_pose_def model_ok_def intro!: multiply_ok identity_ok)
qed

lemma uniform_ok: "float_ok (fst (uniform a b g))" if "float_ok a" "float_ok b"
proof -
  obtain k where k: "fst (random_float g) = Fin (of_int k / 2 ^ 53)" "0 \<le> k" "k < 2 ^ 53" by (rule random_float_range)
  have "(of_int k / 2 ^ 53 :: rat) = of_int k * 2 powi - 53" by (simp only: power_int_minus power_int_numeral divide_inverse)
  then have "f64 (of_int k / 2 ^ 53) = Fin (of_int k / 2 ^ 53)" using k by (intro f64_exact [of _ k "- 53"]) simp_all
  then show ?thesis using that by (simp add: uniform_def split_beta k(1))
qed

lemma case_angles_ok: "\<forall>v \<in> set case_angles. list_all float_ok v"
proof -
  have d: "list_all float_ok (fst (draw_vector g))" for g
    using draws_all [of float_ok "uniform (- MATH_PI) MATH_PI" 6 g] uniform_ok float_ok_small(2)
    by (simp add: draw_vector_def list_all_iff)
  have n: "\<forall>v \<in> set (fst (draws n draw_vector g)). list_all float_ok v" for n g
    by (rule draws_all) (rule d)
  have b: "list_all float_ok ws \<Longrightarrow> \<forall>v \<in> set (bent_vectors ws g). list_all float_ok v" for ws g
  proof (induction ws g rule: bent_vectors.induct)
    case (2 w ws g)
    obtain vs g1 where d: "draws 8 draw_vector g = (vs, g1)" by (cases "draws 8 draw_vector g")
    have "\<forall>v \<in> set vs. list_all float_ok v" using n [of 8 g] by (simp add: d)
    then have "\<forall>v \<in> set vs. list_all float_ok (v[4 := w])" using 2(2) by (auto intro!: list_all_update)
    moreover have "\<forall>v \<in> set (bent_vectors ws g1). list_all float_ok v" using 2 d by simp
    ultimately show ?case by (auto simp: d)
  qed simp
  have w: "list_all float_ok wrists" using float_ok_small(2) by (simp add: wrists_def)
  obtain vs g where e: "draws 100 draw_vector (seeded SEED) = (vs, g)" by (cases "draws 100 draw_vector (seeded SEED)")
  have "\<forall>v \<in> set vs. list_all float_ok v" using n [of 100 "seeded SEED"] by (simp add: e)
  then show ?thesis using b [OF w, of g] by (auto simp: case_angles_def e list_all_iff simp del: float_ok.simps(1))
qed

lemma export_cases_ok:
  assumes T: "trig_ok T" and m: "model_ok m" and c: "rmap (export_case T m) case_angles = Inr cases"
  shows "list_all case_ok cases"
  by (rule rmap_all [OF c]) (use case_angles_ok actual_pose_ok [OF T m] in \<open>auto simp: export_case_def case_ok_def split: if_splits\<close>)


section \<open>The files hold what was exported\<close>

lemma floats_ok: "list_all float_ok xs \<Longrightarrow> json_ok (floats xs)"
  by (simp add: floats_def list_all_iff)

lemma matrix_value_ok: "mat_ok m \<Longrightarrow> json_ok (matrix_value m)"
  using floats_ok by (auto simp: matrix_value_def mat_ok_def list_all_iff)

lemma small_int_ok: "json_ok (PInt 1)" "json_ok (PInt 25)"
  by (simp_all add: show_nat.simps [of 1] show_nat.simps [of 2] show_nat.simps [of 25] MAX_DIGITS_def)

lemma model_value_ok: "model_ok m \<Longrightarrow> json_ok (PDict (model_value raw m))"
  using small_int_ok floats_ok matrix_value_ok
  by (simp add: model_value_def model_ok_def list_all_iff)

lemma fixtures_value_ok: "list_all case_ok cases \<Longrightarrow> json_ok (PDict (fixtures_value raw cases))"
  using floats_ok matrix_value_ok by (auto simp: fixtures_value_def case_value_def case_ok_def list_all_iff)

lemma write_json_Inr:
  assumes "write_json w path v fs = (fs', Inr u)"
  shows "fs' = fs(path \<mapsto> dumps_indent 0 (PDict v) @ [CHR 0x0A]) \<and> valid_utf8 (dumps_indent 0 (PDict v) @ [CHR 0x0A])"
  using assms by (auto simp: write_json_def json_dumps_indent_def Let_def split: if_splits outcome.splits)

lemma load_written:
  assumes "write_json w path v fs = (fs', Inr u)" "json_ok (PDict v)"
  shows "\<exists>text. fs' path = Some text \<and> load_object text = Inr v"
proof -
  note W = write_json_Inr [OF assms(1)]
  have "loads (dumps_indent 0 (PDict v) @ [CHR 0x0A]) = Inr (PDict v)" by (rule loads_dumps_indent [OF assms(2)])
  then show ?thesis using W by (auto simp: load_object_def load_json_def simp del: dumps_indent.simps)
qed

lemma write_json_other: "write_json w path v fs = (fs', r) \<Longrightarrow> p \<noteq> path \<Longrightarrow> fs' p = fs p"
  by (auto simp: write_json_def Let_def split: if_splits outcome.splits sum.splits)

text \<open>Nothing in them keeps them from being encoded, so only the operating system can refuse them.\<close>

lemma hexdigest_valid: "valid_utf8 (hexdigest bs)"
proof -
  have "\<forall>c \<in> set ''0123456789abcdef''. byte c < 128" by code_simp
  then have "list_all (\<lambda>c. byte c < 128) (hexdigest bs)"
    using hexdigest_hex [of bs] unfolding is_hex_def list_all_iff by blast
  then show ?thesis by (rule valid_utf8_ascii)
qed

lemma texts_ok_numbers: "texts_ok (floats xs)" "texts_ok (matrix_value m)"
  by (simp_all add: floats_def matrix_value_def list_all_iff)

lemma texts_ok_values:
  "model_ok m \<Longrightarrow> texts_ok (PDict (model_value raw m))" "texts_ok (PDict (fixtures_value raw cases))"
proof -
  have t: "valid_utf8 TCP_DEFINITION"
    unfolding TCP_DEFINITION_def utf8_def by (simp add: utf8_enc_def Let_def is_cont_def byte_char_of)
  have s: "valid_utf8 ''embedded/motion/robot_mode/arm_model.ttt''" "valid_utf8 ''UR5''" "valid_utf8 ''UR5_link7''"
    "valid_utf8 ''schema_version''" "valid_utf8 ''provenance''" "valid_utf8 ''scene''" "valid_utf8 ''sha256''"
    "valid_utf8 ''serialization_version''" "valid_utf8 ''joint_objects''" "valid_utf8 ''base_object''"
    "valid_utf8 ''flange_object''" "valid_utf8 ''tcp_definition''" "valid_utf8 ''world_from_base''" "valid_utf8 ''base_from_mdh''"
    "valid_utf8 ''mdh''" "valid_utf8 ''joint_origins''" "valid_utf8 ''joint6_from_flange''" "valid_utf8 ''flange_from_tcp''"
    "valid_utf8 ''joint_min''" "valid_utf8 ''joint_max''" "valid_utf8 ''scene_sha256''" "valid_utf8 ''cases''"
    "valid_utf8 ''joint_angles''" "valid_utf8 ''base_from_flange''"
    by code_simp+
  note V = s t hexdigest_valid texts_ok_numbers list_all_iff
  show "model_ok m \<Longrightarrow> texts_ok (PDict (model_value raw m))"
    by (simp add: model_value_def model_ok_def V del: valid_utf8.simps)
  show "texts_ok (PDict (fixtures_value raw cases))"
    by (simp add: fixtures_value_def case_value_def V split_beta del: valid_utf8.simps)
qed

lemma write_json_ok:
  assumes "json_ok (PDict v)" "texts_ok (PDict v)"
  shows "write_json w path v fs =
    (case w of Complete \<Rightarrow> (fs(path \<mapsto> dumps_indent 0 (PDict v) @ [CHR 0x0A]), Inr ())
     | Torn n \<Rightarrow> (fs(path \<mapsto> take n (dumps_indent 0 (PDict v) @ [CHR 0x0A])), Inl OSError)
     | _ \<Rightarrow> (fs, Inl OSError))"
proof -
  have "valid_utf8 (dumps_indent 0 (PDict v) @ [CHR 0x0A])"
    by (rule valid_utf8_append [OF valid_utf8_dumps_indent [OF assms(2)]]) (simp add: Let_def)
  moreover have "ints_fit (PDict v)" using assms(1) json_ok_iff by blast
  ultimately show ?thesis
    by (simp add: write_json_def json_dumps_indent_def Let_def split: outcome.splits del: dumps_indent.simps ints_fit.simps)
qed

lemma run_export_InrD:
  assumes "run_export T W scene mp fp fs = (fs', Inr line)"
  obtains content m cases fs1 where "fs scene = Some content" "export_scene T (bytes_of content) = Inr (m, cases)"
    "write_json (W mp) mp (model_value (bytes_of content) m) fs = (fs1, Inr ())"
    "write_json (W fp) fp (fixtures_value (bytes_of content) cases) fs1 = (fs', Inr ())"
    "line = export_report (bytes_of content) cases"
  using assms by (auto simp: run_export_def write_files_def Let_def split: option.splits sum.splits prod.splits)

lemma export_scene_ok:
  assumes "export_scene T raw = Inr (m, cases)" "trig_ok T"
  shows "model_ok m" "list_all case_ok cases" "map fst cases = case_angles"
proof -
  obtain d objs where o: "read_objects d = Inr objs" "export_model T objs = Inr m" "rmap (export_case T m) case_angles = Inr cases"
    using assms(1) by (auto simp: export_scene_def res_simps)
  show m: "model_ok m" by (rule export_model_ok [OF assms(2) read_objects_double [OF o(1)] o(2)])
  show "list_all case_ok cases" by (rule export_cases_ok [OF assms(2) m o(3)])
  have "rmap (export_case T m) vs = Inr cs \<Longrightarrow> map fst cs = vs" for vs cs
    by (induction vs arbitrary: cs) (auto simp: export_case_def res_simps split: if_splits)
  then show "map fst cases = case_angles" using o(3) by blast
qed

text \<open>A success: both files are complete, and nothing else changed.\<close>

lemma export_written:
  assumes "run_export T W scene mp fp fs = (fs', Inr line)" "trig_ok T" "mp \<noteq> fp"
  shows "(\<forall>p. p \<noteq> mp \<and> p \<noteq> fp \<longrightarrow> fs' p = fs p)
    \<and> (\<exists>content m cases body poses.
         fs scene = Some content \<and> export_scene T (bytes_of content) = Inr (m, cases)
         \<and> line = export_report (bytes_of content) cases \<and> map fst cases = case_angles \<and> length cases = 142
         \<and> fs' mp = Some body \<and> load_object body = Inr (model_value (bytes_of content) m)
         \<and> fs' fp = Some poses \<and> load_object poses = Inr (fixtures_value (bytes_of content) cases))"
proof -
  obtain content m cases fs1 where E: "fs scene = Some content" "export_scene T (bytes_of content) = Inr (m, cases)"
    "write_json (W mp) mp (model_value (bytes_of content) m) fs = (fs1, Inr ())"
    "write_json (W fp) fp (fixtures_value (bytes_of content) cases) fs1 = (fs', Inr ())"
    "line = export_report (bytes_of content) cases"
    using run_export_InrD [OF assms(1)] by metis
  note ok = export_scene_ok [OF E(2) assms(2)]
  have n: "length cases = 142" using ok(3) case_angles_vectors by (metis length_map)
  obtain body where t: "fs1 mp = Some body" "load_object body = Inr (model_value (bytes_of content) m)"
    using load_written [OF E(3) model_value_ok [OF ok(1)]] by blast
  obtain poses where p: "fs' fp = Some poses" "load_object poses = Inr (fixtures_value (bytes_of content) cases)"
    using load_written [OF E(4) fixtures_value_ok [OF ok(2)]] by blast
  have "fs' q = fs q" if "q \<noteq> mp" "q \<noteq> fp" for q
    using write_json_other [OF E(3) that(1)] write_json_other [OF E(4) that(2)] by simp
  moreover have "fs' mp = Some body" using write_json_other [OF E(4) assms(3)] t(1) by simp
  ultimately show ?thesis using E(1,2,5) ok(3) n t(2) p by blast
qed

text \<open>A failure that changed a file: the system refused a write, and the model came first.\<close>

lemma run_export_InlD:
  assumes "run_export T W scene mp fp fs = (fs', Inl e)" "fs' \<noteq> fs" "trig_ok T"
  obtains content m cases where "fs scene = Some content" "export_scene T (bytes_of content) = Inr (m, cases)" "e = OSError"
    "(\<exists>r. write_json (W mp) mp (model_value (bytes_of content) m) fs = (fs', r))
     \<or> (\<exists>fs1 r. write_json (W mp) mp (model_value (bytes_of content) m) fs = (fs1, Inr ())
          \<and> write_json (W fp) fp (fixtures_value (bytes_of content) cases) fs1 = (fs', r))"
proof -
  obtain content m cases where E: "fs scene = Some content" "export_scene T (bytes_of content) = Inr (m, cases)"
    and w: "write_files W mp fp (bytes_of content) m cases fs = (fs', Inl e)"
    using assms(1,2) by (auto simp: run_export_def Let_def split: option.splits sum.splits prod.splits)
  note ok = export_scene_ok [OF E(2) assms(3)]
  note J = write_json_ok [OF model_value_ok [OF ok(1)] texts_ok_values(1) [OF ok(1)]]
    write_json_ok [OF fixtures_value_ok [OF ok(2)] texts_ok_values(2)]
  have "e = OSError" using w unfolding write_files_def J by (auto split: outcome.splits)
  moreover have "(\<exists>r. write_json (W mp) mp (model_value (bytes_of content) m) fs = (fs', r))
     \<or> (\<exists>fs1 r. write_json (W mp) mp (model_value (bytes_of content) m) fs = (fs1, Inr ())
          \<and> write_json (W fp) fp (fixtures_value (bytes_of content) cases) fs1 = (fs', r))"
    using w by (auto simp: write_files_def split: prod.splits sum.splits)
  ultimately show ?thesis using that E by blast
qed

lemma export_refused:
  assumes "run_export T W scene mp fp fs = (fs', Inl e)" "trig_ok T" "mp \<noteq> fp" "fs' \<noteq> fs"
  shows "(\<forall>p. p \<noteq> mp \<and> p \<noteq> fp \<longrightarrow> fs' p = fs p)
    \<and> (\<exists>content m cases.
         fs scene = Some content \<and> export_scene T (bytes_of content) = Inr (m, cases) \<and> e = OSError
         \<and> (fs' fp = fs fp \<or> (\<exists>body. fs' mp = Some body \<and> load_object body = Inr (model_value (bytes_of content) m))))"
proof -
  obtain content m cases where E: "fs scene = Some content" "export_scene T (bytes_of content) = Inr (m, cases)" "e = OSError"
    "(\<exists>r. write_json (W mp) mp (model_value (bytes_of content) m) fs = (fs', r))
     \<or> (\<exists>fs1 r. write_json (W mp) mp (model_value (bytes_of content) m) fs = (fs1, Inr ())
          \<and> write_json (W fp) fp (fixtures_value (bytes_of content) cases) fs1 = (fs', r))"
    by (rule run_export_InlD [OF assms(1,4,2)])
  note M = model_value_ok [OF export_scene_ok(1) [OF E(2) assms(2)]]
  from E(4) have "(\<forall>p. p \<noteq> mp \<and> p \<noteq> fp \<longrightarrow> fs' p = fs p)
      \<and> (fs' fp = fs fp \<or> (\<exists>body. fs' mp = Some body \<and> load_object body = Inr (model_value (bytes_of content) m)))"
  proof (elim disjE exE conjE)
    fix r
    assume w: "write_json (W mp) mp (model_value (bytes_of content) m) fs = (fs', r)"
    show ?thesis using write_json_other [OF w] assms(3) by auto
  next
    fix fs1 r
    assume w: "write_json (W mp) mp (model_value (bytes_of content) m) fs = (fs1, Inr ())"
      "write_json (W fp) fp (fixtures_value (bytes_of content) cases) fs1 = (fs', r)"
    show ?thesis
      using write_json_other [OF w(1)] write_json_other [OF w(2)] load_written [OF w(1) M] assms(3) by metis
  qed
  then show ?thesis using E(1-3) by blast
qed

end
