(* ===== verification/SceneSample.thy ===== *)
theory SceneSample
  imports SceneDoubles
begin

text \<open>
  A scene of the arm, byte by byte: ten objects whose poses are no numbers and whose joints range
  from 0 to 1, as records in an uncompressed container. It is read, and its model is exported.
\<close>

text \<open>A scene of the arm in which every pose is no number.\<close>

definition nan_object :: "int \<times> string \<Rightarrow> int \<times> scene_object" where
  "nan_object = (\<lambda>(k, n). (k, (new_object ''JNT'')\<lparr>obj_id := Some k, obj_parent := Some (if k = 9 then 7 else k - 1), obj_name := Some n,
     obj_pose := Some (replicate 7 NaN), obj_minimum := Some (Fin 0), obj_range := Some (Fin 1)\<rparr>))"

definition arm_names :: "(int \<times> string) list" where
  "arm_names =
     [(0, ''UR5''), (1, ''UR5_joint1''), (2, ''UR5_joint2''), (3, ''UR5_joint3''), (4, ''UR5_joint4''),
      (5, ''UR5_joint5''), (6, ''UR5_joint6''), (7, ''UR5_link7''), (8, ''RG2_leftTouch''), (9, ''RG2_rightTouch'')]"

definition nan_objects :: objects where
  "nan_objects = map nan_object arm_names"

lemma nan_names: "scene_names nan_objects = [(''UR5'', 0), (''UR5_joint1'', 1), (''UR5_joint2'', 2), (''UR5_joint3'', 3), (''UR5_joint4'', 4),
      (''UR5_joint5'', 5), (''UR5_joint6'', 6), (''UR5_link7'', 7), (''RG2_leftTouch'', 8), (''RG2_rightTouch'', 9)]"
  unfolding nan_objects_def arm_names_def by (simp add: scene_names_def nan_object_def new_object_def)

lemma nan_relative:
  assumes "dget nan_objects k = Some (snd (nan_object (k, n)))" "par = (if k = 9 then 7 else k - 1)"
  shows "relative nan_objects k par = Inr (multiply (pose_matrix (replicate 7 NaN)) identity)"
proof -
  have p: "obj_pose (snd (nan_object (k, n))) = Some (replicate 7 NaN)" "obj_parent (snd (nan_object (k, n))) = Some par"
    by (simp_all add: nan_object_def new_object_def assms(2))
  have "k \<noteq> par" using assms(2) by (simp split: if_splits)
  then have "relative nan_objects k par = relative_from nan_objects par par {k} (multiply (pose_matrix (replicate 7 NaN)) identity)"
    unfolding relative_def by (subst relative_from.simps) (simp only: assms(1) p option.case prod.case if_False empty_iff simp_thms)
  then show ?thesis by (simp add: relative_from.simps [of _ par par])
qed

lemma nan_model:
  "\<exists>m. export_model T nan_objects = Inr m \<and> m_joint_min m = replicate 6 (Fin 0) \<and> m_joint_max m = replicate 6 (Fin 1)"
proof -
  let ?p = "multiply (pose_matrix (replicate 7 NaN)) identity"
  have s: "relative nan_objects 1 0 = Inr ?p" "relative nan_objects 2 1 = Inr ?p" "relative nan_objects 3 2 = Inr ?p" "relative nan_objects 4 3 = Inr ?p"
      "relative nan_objects 5 4 = Inr ?p" "relative nan_objects 6 5 = Inr ?p" "relative nan_objects 7 6 = Inr ?p" "relative nan_objects 8 7 = Inr ?p" "relative nan_objects 9 7 = Inr ?p" "relative nan_objects 0 (- 1) = Inr ?p"
    by (rule nan_relative, simp add: nan_objects_def arm_names_def nan_object_def, simp)+
  obtain q where q: "q = ?p" by blast
  have n: "q ! 0 ! 0 = NaN" by (simp add: q multiply_NaN(1) pose_matrix_NaN)
  have "k = 1 \<or> k = 2 \<or> k = 3 \<or> k = 4 \<or> k = 5" if "k \<in> {1..<6}" for k :: nat using that by auto
  then have "[q, q, q, q, q, q] ! k = q" if "k \<in> {1..<6}" for k using that by force
  then obtain rows where r: "mdh_rows T [q, q, q, q, q, q] = Inr rows"
    using mdh_rows_NaN [of "[q, q, q, q, q, q]" T] n by auto
  have a: "attribute nan_objects obj_name k = Inr (the (obj_name (the (dget nan_objects k))))" "attribute nan_objects obj_minimum k = Inr (Fin 0)"
      "attribute nan_objects obj_range k = Inr (Fin 1)" if "k \<in> {1, 2, 3, 4, 5, 6}" for k
    using that by (auto simp: nan_objects_def arm_names_def attribute_def nan_object_def new_object_def)
  have l: "replicate 6 (Fin 0) = [Fin 0, Fin 0, Fin 0, Fin 0, Fin 0, Fin 0]" "replicate 6 (Fin 1) = [Fin 1, Fin 1, Fin 1, Fin 1, Fin 1, Fin 1]"
    by (simp_all add: numeral_eq_Suc)
  show ?thesis
    unfolding l by (simp add: export_model_def JOINT_NAMES_def named_def nan_names s [folded q] r a del: replicate.simps)
qed

section \<open>Its bytes\<close>

text \<open>A signed number as four bytes.\<close>

definition le32s :: "int \<Rightarrow> bytes" where
  "le32s i = le32 (nat (i mod 2 ^ 32))"

lemma le32s_length [simp]: "length (le32s i) = 4"
  by (simp add: le32s_def le32_def)

lemma i32_le32s:
  assumes "- (2 ^ 31) \<le> i" "i < 2 ^ 31"
  shows "i32_at (le32s i @ r) 0 = i"
proof -
  define u where "u = i mod 2 ^ 32"
  have b: "0 \<le> u" "u < 2 ^ 32" unfolding u_def by (rule pos_mod_sign; simp) (rule pos_mod_bound; simp)
  then have "int (nat u) < int (2 ^ 32)" by simp
  then have "nat u < 2 ^ 32" by (simp only: of_nat_less_iff)
  then have "u32_at (le32 (nat u) @ r) 0 = u" using u32_le32 [of "nat u" r] b by simp
  then have r: "u32_at (le32s i @ r) 0 = u" by (simp only: le32s_def u_def)
  have "u = i \<or> i < 0 \<and> u = i + 2 ^ 32"
  proof (cases "0 \<le> i")
    case True
    then have "i mod 2 ^ 32 = i" using assms by (intro mod_pos_pos_trivial) simp_all
    then show ?thesis by (simp add: u_def)
  next
    case False
    have "(i + 2 ^ 32) mod 2 ^ 32 = i + 2 ^ 32" using assms False by (intro mod_pos_pos_trivial) simp_all
    then show ?thesis using False by (simp add: u_def)
  qed
  then show ?thesis using assms b unfolding i32_at_def r by auto
qed

lemma i32_second: "length a = 4 \<Longrightarrow> i32_at (a @ b) 4 = i32_at b 0"
  by (simp add: i32_at_def u32_at_def)

definition arm_fields :: "int \<times> string \<Rightarrow> piece list" where
  "arm_fields = (\<lambda>(k, n).
     [Record ''3do'' [], Record ''Ids'' (le32s k @ le32s (if k = 9 then 7 else k - 1)),
      Record ''Nme'' ([1, 0, 0, 0] @ bytes_of n), Record ''_fq'' (replicate 56 255),
      Record ''_mr'' ([0, 0, 0, 0, 0, 0, 0, 0] @ [0, 0, 0, 0, 0, 0, 240, 63])])"

definition arm_record :: "int \<times> string \<Rightarrow> piece" where
  "arm_record p = Record ''JNT'' (concat (map emit_piece (arm_fields p)))"

definition arm_bytes :: bytes where
  "arm_bytes = concat (map emit_piece (map arm_record arm_names))"

lemma arm_doubles:
  "doubles 7 (replicate 56 255) = Inr (replicate 7 NaN)"
  "double_at ([0, 0, 0, 0, 0, 0, 0, 0] @ [0, 0, 0, 0, 0, 0, 240, 63]) 0 = Fin 0"
  "double_at ([0, 0, 0, 0, 0, 0, 0, 0] @ [0, 0, 0, 0, 0, 0, 240, 63]) 8 = Fin 1"
proof -
  have e: "take 8 (drop (8 * k) (replicate 56 (255 :: 8 word))) = [255, 255, 255, 255, 255, 255, 255, 255]" if "k < 7" for k
  proof -
    have "k = 0 \<or> k = 1 \<or> k = 2 \<or> k = 3 \<or> k = 4 \<or> k = 5 \<or> k = 6" using that by linarith
    then show ?thesis by (elim disjE) (simp_all add: numeral_eq_Suc)
  qed
  have "double_at (replicate 56 255) (8 * k) = NaN" if "k < 7" for k
    unfolding double_at_def e [OF that] by (simp add: Let_def)
  then have "map (\<lambda>k. double_at (replicate 56 255) (8 * k)) [0..<7] = map (\<lambda>_. NaN) [0..<7]" by (intro map_cong) simp_all
  then show "doubles 7 (replicate 56 255) = Inr (replicate 7 NaN)" by (simp add: doubles_def map_replicate_const)
  show "double_at ([0, 0, 0, 0, 0, 0, 0, 0] @ [0, 0, 0, 0, 0, 0, 240, 63]) 0 = Fin 0"
    "double_at ([0, 0, 0, 0, 0, 0, 0, 0] @ [0, 0, 0, 0, 0, 0, 240, 63]) 8 = Fin 1"
    by (simp_all add: double_at_def power_int_minus)
qed

text \<open>One object is read from its bytes.\<close>

lemma arm_object:
  assumes "(k, n) \<in> set arm_names"
  shows "read_object objs ''JNT'' (concat (map emit_piece (arm_fields (k, n)))) = Inr (dset k (snd (nan_object (k, n))) objs)"
    "length (concat (map emit_piece (arm_fields (k, n)))) < 1000"
proof -
  let ?b = "concat (map emit_piece (arm_fields (k, n)))"
  have k: "0 \<le> k" "k \<le> 9" and n: "valid_utf8 n" "length n \<le> 20"
    using assms by (auto simp: arm_names_def Let_def)
  have p: "list_all piece_ok (arm_fields (k, n))"
    using n by (simp add: arm_fields_def name_ok_def bytes_of_def)
  have r: "records ?b 0 = (piece_records (arm_fields (k, n)), None)"
    using records_pieces [OF p, of "[]" "[]"] by simp
  have i: "i32_at (le32s k @ le32s q) 0 = k" "i32_at (le32s k @ le32s q) 4 = q" if "- 1 \<le> q" "q < 10" for q
    using i32_le32s [of k "le32s q"] i32_second [of "le32s k" "le32s q"] i32_le32s [of q "[]"] k that by simp_all
  have d: "decode_text (bytes_of n) = Inr n" using n(1) by (simp add: decode_text_def text_bytes_of)
  have h: "take 3 ?b = bytes_of ''3do''" by (simp add: arm_fields_def emit_record_def bytes_of_def)
  have f: "for_records read_field (new_object ''JNT'') (records ?b 0) = Inr (snd (nan_object (k, n)))"
    unfolding r using k by (simp add: arm_fields_def read_field_def i d arm_doubles arm_doubles [unfolded append_Cons append_Nil] new_object_def nan_object_def)
  show "read_object objs ''JNT'' ?b = Inr (dset k (snd (nan_object (k, n))) objs)"
    using h by (simp add: read_object_def f) (simp add: nan_object_def new_object_def)
  show "length ?b < 1000" using n(2) by (simp add: arm_fields_def emit_record_def le32_def bytes_of_def)
qed

lemma arm_objects: "read_objects arm_bytes = Inr nan_objects"
proof -
  have p: "list_all piece_ok (map arm_record arm_names)"
    using arm_object(2) by (force simp: list_all_iff arm_record_def name_ok_def)
  have r: "records arm_bytes 0 = (map (\<lambda>p. (''JNT'', concat (map emit_piece (arm_fields p)))) arm_names, None)"
  proof -
    have "piece_records (map arm_record ps) = map (\<lambda>p. (''JNT'', concat (map emit_piece (arm_fields p)))) ps" for ps
      by (induction ps) (simp_all add: arm_record_def)
    then show ?thesis using records_pieces [OF p, of "[]" "[]"] by (simp add: arm_bytes_def)
  qed
  have "for_records read_object objs (map (\<lambda>p. (''JNT'', concat (map emit_piece (arm_fields p)))) ps, None)
      = Inr (objs @ map nan_object ps)"
    if "set ps \<subseteq> set arm_names" "distinct (map fst objs @ map fst ps)" for ps objs
    using that
  proof (induction ps arbitrary: objs)
    case (Cons p ps)
    obtain k n where kn: "p = (k, n)" by fastforce
    have o: "read_object objs ''JNT'' (concat (map emit_piece (arm_fields p))) = Inr (objs @ [nan_object p])"
      using arm_object(1) [of k n objs] Cons.prems kn by (simp add: dset_absent nan_object_def)
    have "distinct (map fst (objs @ [nan_object p]) @ map fst ps)" using Cons.prems kn by (simp add: nan_object_def)
    then show ?case using o Cons.IH [of "objs @ [nan_object p]"] Cons.prems by simp
  qed simp
  from this [of arm_names "[]"] have "for_records read_object [] (records arm_bytes 0) = Inr nan_objects"
    unfolding r by (simp add: nan_objects_def) (simp add: arm_names_def)
  then show ?thesis by (simp add: read_objects_def)
qed

lemma arm_bytes_length: "0 < length arm_bytes" "length arm_bytes < 20000"
proof -
  have "length (concat (map emit_piece (map arm_record ps))) \<le> length ps * 1010" if "set ps \<subseteq> set arm_names" for ps
    using that
  proof (induction ps)
    case (Cons p ps)
    obtain k n where "p = (k, n)" by fastforce
    then show ?case using Cons arm_object(2) [of k n]
      by (simp add: arm_record_def emit_record_def bytes_of_def le32_def del: length_concat)
  qed simp
  from this [of arm_names] show "length arm_bytes < 20000" by (simp add: arm_bytes_def) (simp add: arm_names_def)
  show "0 < length arm_bytes" by (simp add: arm_bytes_def arm_names_def arm_record_def emit_record_def bytes_of_def)
qed

definition arm_header :: bytes where
  "arm_header = bytes_of ''VREP'' @ [25, 0, 0, 0, 0, 0, 0, 0, 0] @ le32 (length arm_bytes) @ replicate 1004 0"

definition arm_scene :: string where
  "arm_scene = text_bytes (arm_header @ arm_bytes)"

lemma arm_decode: "decode_scene (bytes_of arm_scene) = Inr arm_bytes"
proof -
  have u: "word_of_nat (unat a mod 256) = (a :: 8 word)" for a
  proof -
    have "unat a < 2 ^ LENGTH(8)" by (rule unsigned_less)
    then show ?thesis by simp
  qed
  have b: "bytes_of (text_bytes bs) = bs" for bs by (induction bs) (simp_all add: bytes_of_def text_bytes_def u)
  have "u32_at arm_header 13 = u32_at (le32 (length arm_bytes) @ replicate 1004 0) 0"
    by (simp add: arm_header_def u32_at_def bytes_of_def)
  also have "\<dots> = int (length arm_bytes)" using arm_bytes_length(2) by (intro u32_le32) simp
  finally have "scene_header 0 (int (length arm_bytes)) arm_header"
    by (simp add: scene_header_def arm_header_def HEADER_def bytes_of_def u32_at_def le32_def)
  then show ?thesis unfolding arm_scene_def b using arm_bytes_length by (intro decode_plain) simp_all
qed

lemma arm_exported:
  "\<exists>m cases. export_scene T (bytes_of arm_scene) = Inr (m, cases)
     \<and> m_joint_min m = replicate 6 (Fin 0) \<and> m_joint_max m = replicate 6 (Fin 1)"
proof -
  obtain m where m: "export_model T nan_objects = Inr m" "m_joint_min m = replicate 6 (Fin 0)" "m_joint_max m = replicate 6 (Fin 1)"
    using nan_model by blast
  obtain t ts where t: "relative nan_objects 1 0 = Inr t" "m_origins m = t # ts"
    using export_model_first [OF m(1)] by (auto simp: named_def nan_names)
  have j: "dget nan_objects 1 = Some (snd (nan_object (1, ''UR5_joint1'')))" by (simp add: nan_objects_def arm_names_def nan_object_def)
  have n: "t ! 0 ! 0 = NaN"
    by (rule relative_NaN [OF t(1) _ j, of "replicate 7 NaN"]) (simp_all add: nan_object_def new_object_def)
  have "[] \<notin> set case_angles" using case_angles_vectors by (auto simp: list_all_iff angle_vector_def)
  from export_cases_NaN [OF n t(2) this, of T] show ?thesis by (simp add: export_scene_def arm_decode arm_objects m)
qed

end
