(* ===== verification/GraspEnv.thy ===== *)
theory GraspEnv
  imports Prelude
begin

text \<open>
  \<open>algorithm/rl/grasp_env.py\<close>: the skeleton of the training environment. Both operations end in
  \<open>NotImplementedError\<close>; only the step counter is real.
\<close>

definition OBS_DIM :: nat where "OBS_DIM = 8"
definition ACTION_DIM :: nat where "ACTION_DIM = 7"

text \<open>The two \<open>Box\<close> spaces are given by their dimension; without gymnasium both are \<open>None\<close>.\<close>

record 'a grasp_env =
  sim_adapter :: "'a option"
  step_count :: nat
  observation_space :: "nat option"
  action_space :: "nat option"

definition new_env :: "bool \<Rightarrow> 'a option \<Rightarrow> 'a grasp_env" where
  "new_env gym_installed sim =
     \<lparr>sim_adapter = sim, step_count = 0,
      observation_space = (if gym_installed then Some OBS_DIM else None),
      action_space = (if gym_installed then Some ACTION_DIM else None)\<rparr>"

definition require_sim :: "'a grasp_env \<Rightarrow> unit res" where
  "require_sim e = (if sim_adapter e = None then Inl RuntimeError else Inr ())"

definition reset :: "'a grasp_env \<Rightarrow> 'a grasp_env \<times> unit res" where
  "reset e =
     (case require_sim e of
        Inl x \<Rightarrow> (e, Inl x)
      | Inr _ \<Rightarrow> (e\<lparr>step_count := 0\<rparr>, Inl NotImplementedError))"

definition env_step :: "'a grasp_env \<Rightarrow> 'a grasp_env \<times> unit res" where
  "env_step e =
     (case require_sim e of
        Inl x \<Rightarrow> (e, Inl x)
      | Inr _ \<Rightarrow> (e\<lparr>step_count := step_count e + 1\<rparr>, Inl NotImplementedError))"

lemma env_without_sim:
  "sim_adapter e = None \<Longrightarrow> reset e = (e, Inl RuntimeError) \<and> env_step e = (e, Inl RuntimeError)"
  by (simp add: reset_def env_step_def require_sim_def)

end
