(* ===== verification/Spec2Isabelle.thy ===== *)
theory Spec2Isabelle
  imports SampleTask SampleConfig PlanningDesk TcpClient HeldShutdown GatewayMain SceneSample GraspEnv
begin

text \<open>
  The planning gateway of VisRLFlexGrasp and the Python programs around it.

  \<^bold>\<open>The program.\<close> A backend process (\<open>src/backend\<close>) accepts planning requests over HTTP and detection
  tasks over an internal TCP protocol. It keeps one plan in flight: a request becomes a row
  \<open>planning\<close> in SQLite, a \<open>grasp_command\<close> goes to the motion module, its \<open>motion_status\<close> is validated
  and the row is moved once to \<open>planned\<close>, \<open>failed\<close> or \<open>interrupted\<close>. An algorithm process
  (\<open>src/algorithm\<close>) registers at the same TCP server and answers capture commands with detections,
  which the backend turns into plan requests of its own. A tool (\<open>src/embedded/tools\<close>) exports the
  arm's kinematic model from a simulator scene.

  \<^bold>\<open>Shared ground.\<close> \<open>Prelude\<close> has results with exceptions (\<open>res\<close>, \<open>rbind\<close>, \<open>rmap\<close>), insertion-ordered
  dictionaries and the collections \<open>res_simps\<close> and \<open>dict_simps\<close>. \<open>PyFloat\<close> is IEEE-754 double arithmetic
  over exact rationals with infinities, NaN and negative zero; \<open>PyValue\<close> the dynamic values with
  Python's truth and numeric comparison; strings are their UTF-8 bytes, a lone surrogate being an
  invalid sequence. \<open>JsonText\<close> prints and reads JSON as \<open>json.dumps\<close> and \<open>json.loads\<close> do. The reader
  runs on fuel \<open>2 * length + 2\<close>: every nested call consumes a character or descends into one, so it
  never runs out (\<open>C19\<close>); that what is printed is read back, on one line or indented, is \<open>JsonRoundtrip\<close>.
  \<open>PyRepr\<close> is \<open>str\<close> and \<open>repr\<close>, \<open>Digest\<close> SHA-256 over 32-bit words, \<open>PyRandom\<close> the Mersenne Twister with
  \<open>random.Random\<close>'s seeding and \<open>uniform\<close>; the last two were compared with CPython on sample inputs.

  \<^bold>\<open>The backend, one theory per file.\<close>
  \<^item> \<open>Protocol\<close>: \<open>common/protocol.py\<close>; \<open>ConfigLoader\<close>: \<open>common/config_loader.py\<close>; \<open>LogUtil\<close>:
    \<open>common/log_util.py\<close> with \<open>configure_logs\<close>; \<open>Settings\<close>: \<open>backend/config/settings.py\<close>; \<open>RobotRequest\<close>:
    \<open>backend/app/schema/robot_request.py\<close>; \<open>GatewayLock\<close> and \<open>TaskRepository\<close>: \<open>backend/app/model\<close>.
  \<^item> \<open>TcpServer\<close>, \<open>KinematicsAdapter\<close>, \<open>RobotService\<close>, \<open>DispatchService\<close>: one record each, every one an
    extension of the one before (\<open>server\<close>, \<open>adapter\<close>, \<open>robot\<close>, \<open>dispatch\<close>), because the objects call each
    other. An operation that awaits is split there: each definition is one uninterrupted stretch,
    and what it waits for is data (\<open>submission\<close>, \<open>phase\<close>, \<open>coroutine\<close>). Futures and task objects are
    shared and live in heaps (\<open>futures\<close>, \<open>task_objs\<close>).
  \<^item> \<open>Application\<close> joins them by the callbacks of \<open>create_app\<close>; \<open>HttpGateway\<close> has the routes and exception
    handlers, \<open>Lifespan\<close> the start with its cleanup stack and the shutdown, \<open>GatewayMain\<close> \<open>create_app\<close>
    and \<open>main\<close>.

  \<^bold>\<open>Runs.\<close> \<open>GatewaySteps\<close> makes the gateway a transition system: a step is one stretch of one coroutine,
  with the environment's choices (lines, drains, database threads, timeouts, cancellations) as its
  parameters. A send to a module waits while a drain to the same connection is on its way, as the
  connection's send lock has it; connections are numbered in the order they come. \<open>GatewayRuns\<close>, \<open>CommandRuns\<close>, \<open>DetectionTasks\<close> and \<open>PlanningDesk\<close> prove invariants of all
  runs and the refinement of an abstract service with one slot, \<open>Settling\<close> that open tasks can be settled. A run carries the set of tasks it
  gave up: those whose row may stay \<open>planning\<close> because a database thread failed or was abandoned to a
  cancellation. \<open>Samples\<close>, \<open>SampleRun\<close> and \<open>SampleTask\<close> are concrete runs for the witnesses.

  \<^bold>\<open>The other programs.\<close> \<open>TcpClient\<close> (\<open>run_forever\<close> over the attempts the network grants), \<open>FruitDetector\<close>,
  \<open>GraspPolicy\<close>, \<open>GraspEnv\<close>, \<open>AlgorithmService\<close> are the algorithm side; \<open>ModuleLink\<close> runs client and
  server against each other. \<open>SceneData\<close> (reading), \<open>SceneExport\<close> (model and poses) and \<open>SceneFiles\<close> (JSON
  values, files, options) are \<open>export_ur5_model.py\<close>; \<open>SceneCodec\<close> writes the format that \<open>SceneData\<close> reads,
  \<open>SceneFacts\<close> has what the reader and the checks establish, \<open>SceneDoubles\<close> that every number exported is a
  double and so survives its decimal text. \<open>SceneSample\<close> is an arm as bytes of a scene file,
  \<open>SampleConfig\<close> a configuration that names a model file; \<open>HeldShutdown\<close> is the shutdown with a module
  still connected.

  \<^bold>\<open>Interfaces.\<close> \<open>task_store\<close> (what clients need of the repository), \<open>server_callbacks\<close> and
  \<open>robot_callbacks\<close> (what server and robot service need of the handlers put into them) and
  \<open>above_server\<close> (a property of the layers above survives whatever the server does) are locales; each
  is interpreted on the model's own definitions.

  \<^bold>\<open>What is shown.\<close> C1 to C6: planning tasks (validated results, final rows, one in flight, sent once, no
  task hangs, the refinement of the one-slot service). C7: detection tasks. C8 to C14: identity and
  liveness of connections. C15 to C19: accepted plans, messages and JSON. C20 to C23: repository,
  configuration, settings. C24 to C26: the loss of the motion module, and outcomes that cannot be
  saved. C27, C28: reconnection and the algorithm module. C29 to C32: lock, start and shutdown. C33,
  C34: HTTP. C35 to C40: the scene tool, its files and what the gateway makes of them.

  \<^bold>\<open>Parameters.\<close> The library's part is an argument: pydantic's strict reading of a number, \<open>math.hypot\<close> and
  the text of an exception (\<open>lib\<close>), sine, cosine and arctangent (\<open>trig\<close>), files (\<open>files\<close>), the results
  of system calls (for a file written by the exporter its \<open>outcome\<close>), the options \<open>argparse\<close> found, the
  time, fresh task ids, model loading (\<open>model_store\<close>), and whether \<open>Server.wait_closed\<close> waits for open
  connections, which depends on the version of Python.

  \<^bold>\<open>Bounds.\<close> A line has at most \<open>MAX_LINE_BYTES\<close> bytes as in the code; a Huffman tree has depth at most
  255 as in the code, which is also its termination measure; relative poses end because every visited
  object leaves the set still to visit. Integers over 4300 digits are refused by the JSON reader and
  printer as in CPython. Python's recursion limit on deeply nested JSON is not modelled, nor is the
  compensated \<open>sum\<close> of floats from Python 3.12 on.

  \<^bold>\<open>Not modelled.\<close> Log records and peer names; the wait of an acknowledgement or error report for the
  send lock and its drain (it is written within the step of the line it answers); the order in which
  several waiting sends get the lock (any of them may); \<open>TcpDispatchServer.start\<close>, which the gateway does not use;
  \<open>set_handlers\<close>, whose handlers are arguments of the definitions; SQLite below its statements, each of
  which is atomic; which characters above U+00FF \<open>repr\<close> counts as printable; the translation of line
  ends when a text file is written on Windows; FastAPI's routing, uvicorn, YOLO and PPO; the C++ motion
  control, the frontend and the tests.
\<close>

section \<open>Planning tasks\<close>

lemma pending_active:
  assumes I: "robot_inv A s" and d: "dget (pending s) t = Some r"
  shows "active_id s = Some t \<and> status_of (db s) t = Some PLANNING"
proof -
  obtain w where w: "worker s = Some w" "dget (phase_pending (w_phase w) (w_task w)) t = Some r"
    using I d by (cases "worker s") (auto simp: robot_inv_def)
  then have "t = w_task w" by (cases "w_phase w") (auto split: if_splits)
  then show ?thesis using I w by (cases "w_phase w"; cases "sub_lock s") (auto simp: robot_inv_def)
qed

text \<open>
  C1. In every reachable state of the gateway, a row with status \<open>planned\<close> stores the request
  of its task and a result that \<open>_validate_result\<close> accepted for exactly that request, and no
  error. The database the gateway starts on may be any that has the same property, the empty one
  among them.
\<close>

theorem planned_rows_validated:
  assumes "reachable L S disk A s" "\<And>t. disk = Some t \<Longrightarrow> rows_valid L S t"
    and "dget (db s) tid = Some r" "status r = PLANNED"
  shows "\<exists>d payload v. validate_result L S d payload = Inr v \<and> request_json r = dumps (PDict payload)
           \<and> result_json r = Some (dumps (PDict v)) \<and> error_json r = None"
proof -
  have "rows_valid L S (db s)" using reachable_rows [OF assms(1)] assms(2) by blast
  then show ?thesis using assms(3,4) unfolding rows_valid_def by blast
qed

lemma planned_rows_validated_witness:
  "\<exists>d payload v. validate_result sample_lib sample_settings d payload = Inr v
     \<and> request_json sample_planned_row = dumps (PDict payload)
     \<and> result_json sample_planned_row = Some (dumps (PDict v)) \<and> error_json sample_planned_row = None"
  by (rule planned_rows_validated [OF sample_reachable _ run9_facts(1,2)]) simp

text \<open>
  C2. A row in a terminal status never changes again: not by any run of the gateway, and not by a
  restart on the database that run left.
\<close>

theorem settled_rows_final:
  assumes "gsteps L S B s s'" "dget (db s) tid = Some r" "status r \<noteq> PLANNING"
  shows "dget (db s') tid = Some r \<and> dget (db (gateway_start now (Some (db s')))) tid = Some r"
proof -
  have r: "dget (db s') tid = Some r" using gsteps_row assms by blast
  then show ?thesis
    using assms(3) by (simp add: gateway_start_def initialize_def recover_interrupted_def Let_def dict_simps)
qed

lemma settled_rows_final_witness:
  "dget (db run9) ''t'' = Some sample_planned_row
     \<and> dget (db (gateway_start 7 (Some (db run9)))) ''t'' = Some sample_planned_row"
  by (rule settled_rows_final [OF gsteps.none run9_facts(1)]) (simp add: run9_facts(2) status_consts)

text \<open>
  C3. At most one planning request is in flight: the adapter waits for at most one answer, and it
  is the active task's; and a row is \<open>planning\<close> only for the active task, or for a task that the
  gateway had to give up because a database thread failed or was abandoned to a cancellation.
\<close>

theorem single_flight:
  assumes "reachable L S disk A s" "\<And>t. disk = Some t \<Longrightarrow> table_ok t"
  shows "(\<forall>t r. dget (pending s) t = Some r \<longrightarrow> active_id s = Some t \<and> status_of (db s) t = Some PLANNING)
    \<and> length (pending s) \<le> 1
    \<and> (\<forall>t. status_of (db s) t = Some PLANNING \<longrightarrow> active_id s = Some t \<or> t \<in> A)"
proof -
  have I: "robot_inv A s" using reachable_invs [OF assms(1)] assms(2) by blast
  have p: "pending s = expected_pending (worker s)" using I by (simp add: robot_inv_def)
  note pending_active [OF I]
  moreover have "length (pending s) \<le> 1"
    unfolding p by (cases "worker s"; cases "w_phase (the (worker s))") simp_all
  ultimately show ?thesis using I unfolding robot_inv_def by blast
qed

lemma single_flight_witness:
  "active_id run7 = Some ''t'' \<and> status_of (db run7) ''t'' = Some PLANNING \<and> length (pending run7) \<le> 1"
proof -
  have "dget (pending run7) ''t'' = Some 0" by (simp add: run7_eq run6_eq run5_eq)
  then show ?thesis using single_flight [OF sample_waiting(2)] by blast
qed

text \<open>
  C4. The gateway writes at most one \<open>grasp_command\<close> for a task id to its connections, in any
  run: a task is never sent again. And the step that writes it, at once or when the send lock of
  the connection is granted, is one of the active task, whose row is \<open>planning\<close>.
\<close>

theorem sent_at_most_once:
  assumes "reachable L S disk A s" "\<And>t. disk = Some t \<Longrightarrow> rows_valid L S t \<and> table_ok t"
  shows "commands tid s \<le> 1
    \<and> (gstep L S B s s' \<longrightarrow> commands tid s' \<noteq> commands tid s \<longrightarrow>
         active_id s = Some tid \<and> status_of (db s) tid = Some PLANNING)"
proof -
  have "command_inv s \<and> sends_ok s" "robot_inv A s"
    using reachable_commands [OF assms(1)] reachable_invs [OF assms(1)] assms(2) by blast+
  then show ?thesis using command_written_active unfolding command_inv_def by blast
qed

lemma sent_at_most_once_witness:
  "commands ''t'' run5 = 1 \<and> active_id run4 = Some ''t'' \<and> status_of (db run4) ''t'' = Some PLANNING"
proof -
  have "commands ''t'' run5 \<noteq> commands ''t'' run4" "commands ''t'' run5 = 1"
    by (simp_all add: commands_def is_command_def run5_eq run4_eq run3_eq run2_eq sample_ack_def sample_command_def
        protocol_consts dict_simps)
  then show ?thesis
    using sent_at_most_once [OF sample_waiting(1), of "''t''" "{}" run5] sample_started by simp
qed



text \<open>
  C6. The gateway refines the abstract planning service with a single slot: whatever run it makes
  of its locks, coroutines, messages and failures, seen through the statuses of the rows and the
  active task it is a sequence of tasks that take the slot, open their row, settle it once, and
  leave, and a task is lost only where the run counts it as given up.
\<close>

theorem gateway_refines_desk:
  assumes "reachable L S disk A s" "\<And>t. disk = Some t \<Longrightarrow> table_ok t" "gsteps L S B s s'"
  shows "desk_steps (desk_of A s) (desk_of (A \<union> B) s')"
  using gsteps_desk [OF assms(3)] reachable_invs [OF assms(1)] assms(2) by blast

lemma gateway_refines_desk_witness:
  "desk_steps \<lparr>d_rows = \<lambda>_. None, d_slot = None, d_lost = {}, d_closing = False\<rparr>
     \<lparr>d_rows = [''t'' \<mapsto> PLANNED], d_slot = None, d_lost = {}, d_closing = False\<rparr>"
proof -
  have "desk_steps (desk_of {} run0) (desk_of ({} \<union> {}) run9)"
    by (rule gateway_refines_desk [OF reachable.start [of sample_lib sample_settings None 0, folded run0_def] _ sample_all_steps]) simp
  moreover have "status_of [(''t'', sample_planned_row)] = [''t'' \<mapsto> PLANNED]" "status_of [] = (\<lambda>_. None)"
    by (simp_all add: status_of_def fun_eq_iff run9_facts(2))
  moreover have "desk_of {} run9 = \<lparr>d_rows = status_of [(''t'', sample_planned_row)], d_slot = None, d_lost = {}, d_closing = False\<rparr>"
    by (simp add: desk_of_def run9_eq run8_eq run7_eq run6_eq run5_eq run4_eq run3_eq run2_eq run1_fields)
  moreover have "desk_of {} run0 = \<lparr>d_rows = status_of [], d_slot = None, d_lost = {}, d_closing = False\<rparr>"
    by (simp add: desk_of_def run0_def gateway_start_def initialize_def recover_interrupted_def dmap_def Let_def)
  ultimately show ?thesis by simp
qed

section \<open>Connections\<close>

text \<open>
  C8. A message from a connection reaches the gateway's business handler exactly when it is
  authorised: sent by the registered identity of that connection, addressed to the backend, and of
  a type that identity may send. Any other message is handled the same whatever the handler does.
\<close>

theorem only_authorised_messages_handled:
  "route_message (gateway_on_message now) (gateway_on_disconnect now) now tick c m s =
     (if authorised s c m
      then (case gateway_on_message now m s of
              (s1, Inl e) \<Rightarrow> (s1, Inl e)
            | (s1, Inr None) \<Rightarrow> (s1, Inr ())
            | (s1, Inr (Some r)) \<Rightarrow> reply c r s1)
      else route_message other (gateway_on_disconnect now) now tick c m s)"
proof (cases "authorised s c m")
  case True
  then show ?thesis using route_authorised [OF True] by simp
next
  case False
  then show ?thesis using route_unauthorised [OF False] by simp
qed

text \<open>
  C9. Whatever line a connection sends, the server writes at most one message in its course, an
  acknowledgement or an error report, and writes it to that connection.
\<close>

theorem line_answered_once:
  "sent (handle_line (gateway_on_message now) (gateway_on_disconnect now) now tick c line s) = sent s
   \<or> (\<exists>m. msg_type m \<in> {REGISTER_ACK, HEARTBEAT_ACK, ERROR_REPORT}
        \<and> sent (handle_line (gateway_on_message now) (gateway_on_disconnect now) now tick c line s) = sent s @ [(c, m)])"
  using gw.answers_handle_line [of c s now now tick line] unfolding answers_def ANSWERS_def .

text \<open>
  C10. A line cannot take another module's place: every other session stays as it is, a session
  that has registered keeps its identity, and whoever is registered on another open connection
  stays registered there.
\<close>

theorem no_takeover:
  "undisturbed c s (handle_line (gateway_on_message now) (gateway_on_disconnect now) now tick c line s)"
  by (rule gw.undisturbed_handle_line)

text \<open>
  C11. In every reachable state the registry holds live connections under their own registered
  names, one connection per name, and the bookkeeping of client tasks agrees with the connections.
\<close>

theorem registry_consistent:
  assumes "reachable L S disk A s" "\<And>t. disk = Some t \<Longrightarrow> table_ok t"
  shows "dict_ok (sessions s)
    \<and> (\<forall>m c. dget (sessions s) m = Some c \<longrightarrow> conns s c \<noteq> None \<and> ident s c = m \<and> m \<in> {FRONTEND, ALGORITHM, MOTION})
    \<and> distinct (clients s) \<and> (\<forall>c. conns s c \<noteq> None \<longleftrightarrow> c \<in> set (clients s))"
proof -
  have "server_inv s" using reachable_invs [OF assms(1)] assms(2) by blast
  then show ?thesis unfolding server_inv_def REGISTRABLE_def list.set by blast
qed

lemma registry_consistent_witness:
  "dget (sessions run7) MOTION = Some 0 \<and> ident run7 0 = MOTION \<and> 0 \<in> set (clients run7)"
proof -
  have s: "dget (sessions run7) MOTION = Some 0" by (simp add: run7_eq run6_eq run5_eq run4_eq run3_eq run2_eq)
  then show ?thesis using registry_consistent [OF sample_waiting(2)] by blast
qed

text \<open>
  C12. One round of the heartbeat patrol removes from the registry exactly the modules whose last
  heartbeat is more than ten seconds old.
\<close>

theorem patrol_removes_expired:
  assumes "reachable L S disk A s" "\<And>t. disk = Some t \<Longrightarrow> table_ok t"
  shows "dget (sessions (heartbeat_patrol (gateway_on_disconnect now) tick s)) m =
    (case dget (sessions s) m of None \<Rightarrow> None
     | Some c \<Rightarrow> if expired tick s c then None else Some c)"
proof -
  have "server_inv s" using reachable_invs [OF assms(1)] assms(2) by blast
  then show ?thesis by (rule gw.sessions_patrol)
qed

lemma patrol_removes_expired_witness:
  "dget (sessions (heartbeat_patrol (gateway_on_disconnect 5) (Fin 11) run7)) MOTION = None
   \<and> dget (sessions (heartbeat_patrol (gateway_on_disconnect 5) (Fin 10) run7)) MOTION = Some 0"
proof -
  have s: "dget (sessions run7) MOTION = Some 0" by (simp add: run7_eq run6_eq run5_eq run4_eq run3_eq run2_eq)
  have h: "conns run7 0 = Some \<lparr>module_id = MOTION, reply_target = MOTION, last_heartbeat = Fin 0, writer_closing = False\<rparr>"
    by (simp add: run7_eq run6_eq run5_eq run4_eq run3_eq run2_eq)
  have "expired (Fin 11) run7 0" "\<not> expired (Fin 10) run7 0"
    by (simp_all add: expired_def h HEARTBEAT_OFFLINE_SEC_def minus_pyfloat_def)
  moreover have "dget (sessions (heartbeat_patrol (gateway_on_disconnect 5) tick run7)) MOTION =
      (case dget (sessions run7) MOTION of None \<Rightarrow> None | Some c \<Rightarrow> if expired tick run7 c then None else Some c)" for tick
    by (rule patrol_removes_expired [OF sample_waiting(2)]) simp
  ultimately show ?thesis using s by simp
qed

section \<open>Plans\<close>

text \<open>
  C15. An accepted plan stays within the joint limits of the model up to \<open>2e-9\<close> rad, in its target
  and in every one of the 2 to 4096 points of its trajectory, ends within \<open>3e-7\<close> of its target,
  and is reported as planned and not executed. The limits are those of the settings, of at most
  1000 rad in absolute value.
\<close>

theorem accepted_plan_within_limits:
  assumes v: "validate_result L S d payload = Inr v" and L: "strict_numbers L" and S: "settings_ok S"
    and lim: "\<And>i. i < 6 \<Longrightarrow> fval (num (joint_min S ! i)) = Some (lo i) \<and> fval (num (joint_max S ! i)) = Some (hi i)
                    \<and> \<bar>lo i\<bar> \<le> 1000 \<and> \<bar>hi i\<bar> \<le> 1000"
  shows "\<exists>r. v = dump_result r \<and> 2 \<le> length (pr_joint_trajectory r) \<and> length (pr_joint_trajectory r) \<le> 4096
    \<and> (\<forall>p \<in> set (pr_joint_target r # pr_joint_trajectory r). length p = 6
         \<and> (\<forall>i < 6. \<exists>q. fval (p ! i) = Some q \<and> lo i - 2 / 10 ^ 9 \<le> q \<and> q \<le> hi i + 2 / 10 ^ 9))
    \<and> (\<forall>i < 6. \<exists>a b. fval (last (pr_joint_trajectory r) ! i) = Some a \<and> fval (pr_joint_target r ! i) = Some b \<and> \<bar>a - b\<bar> \<le> 3 / 10 ^ 7)
    \<and> dget v ''executed'' = Some (PBool False) \<and> dget v ''phase'' = Some (PStr ''planned'')"
proof -
  obtain r where r: "validate_plan_result L d = Inr r" "v = dump_result r"
      "\<And>p. p \<in> set (pr_joint_target r # pr_joint_trajectory r) \<Longrightarrow> within_limits S p"
      "\<not> any_zip differs (last (pr_joint_trajectory r)) (pr_joint_target r)"
    using validate_result_InrD [OF v] by metis
  have sh: "result_shape r" by (rule validate_plan_result_InrD(8) [OF r(1) L])
  have p: "length p = 6 \<and> (\<forall>i < 6. \<exists>q. fval (p ! i) = Some q \<and> lo i - 2 / 10 ^ 9 \<le> q \<and> q \<le> hi i + 2 / 10 ^ 9)"
    if "p \<in> set (pr_joint_target r # pr_joint_trajectory r)" for p
  proof -
    have n: "length p = 6" using sh that by (auto simp: result_shape_def list_all_iff)
    have "\<exists>q. fval (p ! i) = Some q \<and> lo i - 2 / 10 ^ 9 \<le> q \<and> q \<le> hi i + 2 / 10 ^ 9" if i: "i < 6" for i
      using within_limits_bounds [OF S r(3) n i, of "lo i" "hi i"] lim [OF i] \<open>p \<in> _\<close> by metis
    with n show ?thesis by blast
  qed
  have tr: "2 \<le> length (pr_joint_trajectory r)" "length (pr_joint_trajectory r) \<le> 4096"
    using sh by (simp_all add: result_shape_def)
  then have l: "last (pr_joint_trajectory r) \<in> set (pr_joint_target r # pr_joint_trajectory r)"
    by (cases "pr_joint_trajectory r" rule: rev_cases) auto
  have "\<exists>a b. fval (last (pr_joint_trajectory r) ! i) = Some a \<and> fval (pr_joint_target r ! i) = Some b \<and> \<bar>a - b\<bar> \<le> 3 / 10 ^ 7"
    if i: "i < 6" for i
  proof -
    obtain a b where ab: "fval (last (pr_joint_trajectory r) ! i) = Some a" "fval (pr_joint_target r ! i) = Some b"
      using p [OF l] p [of "pr_joint_target r"] i by (simp only: list.set_intros) blast
    have "\<not> differs (last (pr_joint_trajectory r) ! i) (pr_joint_target r ! i)"
      using not_any_zipD [OF r(4), of i] p [OF l] p [of "pr_joint_target r"] i by simp
    from not_differs [OF this ab] show ?thesis using ab by blast
  qed
  with p tr r(2) show ?thesis by (intro exI [of _ r]) (auto simp: dump_result_def)
qed

lemma accepted_plan_within_limits_witness:
  "\<exists>r. dump_result sample_plan = dump_result r \<and> length (pr_joint_trajectory r) \<le> 4096"
proof -
  have "num (PInt (- 6)) = Fin (- 6)" "num (PInt 6) = Fin 6"
    using f64_of_int [of "- 6"] by (simp_all add: num_def)
  then have lim: "fval (num (joint_min sample_settings ! i)) = Some (- 6) \<and> fval (num (joint_max sample_settings ! i)) = Some 6
      \<and> \<bar>- 6 :: rat\<bar> \<le> 1000 \<and> \<bar>6 :: rat\<bar> \<le> 1000" if "i < 6" for i
    using that by (simp add: sample_settings_def)
  show ?thesis
    using accepted_plan_within_limits [OF sample_valid [OF sample_planned] sample_strict sample_settings_ok lim] by blast
qed

section \<open>Messages and JSON\<close>



text \<open>
  C17. Whatever bytes arrive, a line is accepted only as a dictionary that carries all seven
  fields with their types: module names of the protocol for sender and receiver, a non-empty type,
  a code from 0 to 4999, a time stamp that is not negative, and a dictionary of data.
\<close>

theorem decoded_message_well_formed:
  assumes "decode_message line = Inr (Some d)"
  shows "carries d (msg_of d) \<and> wf_message (msg_of d)"
proof -
  obtain v where "validate_message v = Some d"
    using assms by (auto simp: decode_message_def split: if_splits sum.splits)
  then show ?thesis using validate_message_Some by blast
qed

lemma decoded_message_well_formed_witness:
  "carries (msg_dict sample_register) sample_register \<and> wf_message sample_register"
  using decoded_message_well_formed [OF plain_decodes [OF sample_wf(1) sample_plain(1)]] by simp




section \<open>The task table\<close>

lemma created_row:
  assumes "create now tid rq t = Inr t1" "py_ok (PDict rq)"
  obtains js where "loads js = Inr (PDict rq)"
    "dget t1 tid = Some \<lparr>status = PLANNING, request_json = js, result_json = None, error_json = None,
                       created_at = now, updated_at = now\<rparr>"
proof -
  obtain js where js: "json_dumps False (PDict rq) = Inr js" "dget t tid = None"
      "t1 = t @ [(tid, \<lparr>status = PLANNING, request_json = js, result_json = None, error_json = None,
                       created_at = now, updated_at = now\<rparr>)]"
    using assms(1) by (auto simp: create_Inr_iff)
  show ?thesis
    by (rule that [OF loads_json_dumps [OF assms(2) js(1)]]) (use js(2) in \<open>simp add: js(3) map_add_def\<close>)
qed

text \<open>
  C20. A request that was stored is read back as it was given, by its id, with status
  \<open>planning\<close> and without result or error; and when its task is then finished with a result,
  \<open>get\<close> returns that result and still the same request.
\<close>

theorem repository_roundtrip:
  assumes "create now tid rq t = Inr t1" "py_ok (PDict rq)"
    and "finish later tid PLANNED (Some res) None t1 = Inr (b, t2)" "py_ok (PDict res)"
  shows "get t1 tid = Inr (Some \<lparr>v_task_id = tid, v_status = PLANNING, v_request = PDict rq, v_result = None,
                               v_error = None, v_created_at = now, v_updated_at = now\<rparr>)
    \<and> b \<and> get t2 tid = Inr (Some \<lparr>v_task_id = tid, v_status = PLANNED, v_request = PDict rq, v_result = Some (PDict res),
                               v_error = None, v_created_at = now, v_updated_at = later\<rparr>)"
proof -
  obtain js where js: "loads js = Inr (PDict rq)"
      "dget t1 tid = Some \<lparr>status = PLANNING, request_json = js, result_json = None, error_json = None,
                       created_at = now, updated_at = now\<rparr>"
    by (rule created_row [OF assms(1,2)])
  note r = js(2) and l = js(1)
  have b: "b" using finish_InrD(2) [OF assms(3)] r by (simp add: status_of_def)
  obtain rj where rj: "json_dumps False (PDict res) = Inr rj"
      "t2 = dset tid \<lparr>status = PLANNED, request_json = js, result_json = Some rj, error_json = None,
                     created_at = now, updated_at = later\<rparr> t1"
    using finish_InrD(4) [OF assms(3) b] r by (auto simp: res_simps)
  have l2: "loads rj = Inr (PDict res)" by (rule loads_json_dumps [OF assms(4) rj(1)])
  show ?thesis using b by (simp add: get_def r l l2 rj(2) dict_simps)
qed

lemma repository_roundtrip_witness:
  "get [(''t'', sample_row)] ''t'' = Inr (Some \<lparr>v_task_id = ''t'', v_status = PLANNING, v_request = PDict sample_payload,
      v_result = None, v_error = None, v_created_at = 0, v_updated_at = 0\<rparr>)"
proof -
  have c: "create 0 ''t'' sample_payload [] = Inr [(''t'', sample_row)]"
    by (simp add: create_def sample_json bind_text_def sample_row_def del: dumps.simps)
  have f: "finish 1 ''t'' PLANNED (Some (dump_result sample_plan)) None [(''t'', sample_row)]
      = Inr (True, [(''t'', sample_planned_row)])"
    by (simp add: finish_def sample_json bind_text_def status_consts sample_row_def sample_planned_row_def del: dumps.simps)
  have "py_ok (PDict sample_payload)" "py_ok (PDict (dump_result sample_plan))"
    by (simp_all add: dump_request_def sample_request_def dump_result_def sample_plan_def floats_def list_all_iff)
  then show ?thesis using repository_roundtrip [OF c _ f] by blast
qed

text \<open>
  A task is finished at most once: once a \<open>finish\<close> has changed a row, every later one
  reports that it changed nothing, and leaves the whole table as it is.
\<close>

theorem finished_once:
  assumes "finish n1 tid s1 r1 e1 t = Inr (b1, t1)" "finish n2 tid s2 r2 e2 t1 = Inr (b2, t2)"
  shows "\<not> b2 \<and> t2 = t1"
proof -
  have "status_of t1 tid \<noteq> Some PLANNING"
    using status_of_finish [OF assms(1)] finish_InrD(1) [OF assms(1)] by (auto simp: status_consts)
  then show ?thesis using finish_InrD(2,3) [OF assms(2)] by blast
qed

lemma finished_once_witness:
  "\<exists>b t. finish 2 ''t'' FAILED None None [(''t'', sample_planned_row)] = Inr (b, t)
     \<and> \<not> b \<and> t = [(''t'', sample_planned_row)]"
proof -
  have f: "finish 1 ''t'' PLANNED (Some (dump_result sample_plan)) None [(''t'', sample_row)]
      = Inr (True, [(''t'', sample_planned_row)])"
    by (simp add: finish_def sample_json bind_text_def status_consts sample_row_def sample_planned_row_def del: dumps.simps)
  obtain b t where "finish 2 ''t'' FAILED None None [(''t'', sample_planned_row)] = Inr (b, t)"
    by (auto simp: finish_def status_consts sample_row_def sample_planned_row_def)
  then show ?thesis using finished_once [OF f] by blast
qed

text \<open>
  C21. After a restart no row is \<open>planning\<close>: the rows that were are \<open>interrupted\<close>, with their
  requests kept, every other row is as before, and the number returned is how many there were.
\<close>

theorem recovery_interrupts_open_tasks:
  assumes "dict_ok t"
  shows "(case dget (snd (recover_interrupted now t)) tid of
      None \<Rightarrow> dget t tid = None
    | Some r \<Rightarrow> status r \<noteq> PLANNING
        \<and> (if status_of t tid = Some PLANNING
           then status r = INTERRUPTED \<and> request_of t tid = Some (request_json r)
           else dget t tid = Some r))
   \<and> fst (recover_interrupted now t) = card {k. status_of t k = Some PLANNING}"
proof -
  let ?p = "\<lambda>(_ :: string, r). status r = PLANNING"
  have d: "distinct (map fst t)" using assms by (simp add: dict_ok_def)
  have "{k. status_of t k = Some PLANNING} = fst ` set (filter ?p t)"
    using d by (force simp: status_of_def map_of_eq_Some_iff)
  moreover have "distinct (map fst (filter ?p t))" using d by (rule distinct_map_filter)
  ultimately have "card {k. status_of t k = Some PLANNING} = length (filter ?p t)"
    using distinct_card [of "map fst (filter ?p t)"] by simp
  then show ?thesis
    by (cases "dget t tid")
      (auto simp: recover_interrupted_def Let_def dict_simps status_of_def request_of_def status_consts)
qed

lemma recovery_interrupts_open_tasks_witness:
  "fst (recover_interrupted 3 [(''t'', sample_row)]) = card {k. status_of [(''t'', sample_row)] k = Some PLANNING}"
proof -
  have "dict_ok [(''t'', sample_row)]" by (simp add: dict_ok_def)
  then show ?thesis by (rule recovery_interrupts_open_tasks [THEN conjunct2])
qed

section \<open>Configuration\<close>

text \<open>
  C22. The merge of two configurations, read at any path of keys: the first key at which not both
  sides nest decides, with the override's value if it has one. In particular a value the override
  sets to something other than an object wins, and a path it does not touch keeps the base value.
\<close>

theorem merged_config_by_path:
  assumes "val_ok (PDict ov)" "ks \<noteq> []"
  shows "at_path (PDict (deep_merge base ov)) ks = merged_path (PDict base) (PDict ov) ks
    \<and> (\<forall>v. at_path (PDict ov) ks = Some v \<longrightarrow> \<not> is_dict v \<longrightarrow> at_path (PDict (deep_merge base ov)) ks = Some v)
    \<and> (\<forall>v. untouched (PDict ov) ks \<longrightarrow> at_path (PDict base) ks = Some v \<longrightarrow> at_path (PDict (deep_merge base ov)) ks = Some v)"
  using at_path_deep_merge [OF assms] merged_path_override merged_path_base by simp

lemma merged_config_by_path_witness:
  "at_path (PDict (deep_merge [(''server'', PDict [(''host'', PStr ''a''), (''port'', PInt 9000)])]
                              [(''server'', PDict [(''port'', PInt 1)])])) [''server'', ''port''] = Some (PInt 1)"
  by (rule merged_config_by_path [THEN conjunct2, THEN conjunct1, rule_format]) simp_all

text \<open>
  C23. A gateway only starts with settings that make sense: six finite joint limits with each
  minimum below its maximum and the initial angle between them, a positive finite force limit, a
  timeout above zero and up to 600 seconds, and only when the configuration asks for planning
  without hardware.
\<close>

theorem started_settings_in_range:
  assumes "from_config fs environ repo_root config = Inr s"
  shows "settings_ok s \<and> Fin 0 < plan_timeout s
    \<and> dget config ''enable_hardware'' = Some (PBool False)
    \<and> (\<exists>gw. dget config ''gateway'' = Some gw \<and> subscript gw ''execution_mode'' = Inr (PStr ''plan_only''))"
  using from_config_InrD [OF assms] by blast

lemma started_settings_in_range_witness: "\<exists>s. from_config sample_files None ''/r'' sample_config = Inr s \<and> settings_ok s"
  using started_settings_in_range sample_starts by blast

section \<open>The motion service\<close>

text \<open>
  C24. When the motion module's connection is lost, every request that waits for its answer has
  one at once, and no answer that was already there is changed.
\<close>

theorem motion_loss_answers_waiting:
  assumes "dget (pending s) tid = Some r"
  shows "future_done (gateway_on_disconnect now MOTION s) r
    \<and> (future_done s r \<longrightarrow> future_at (gateway_on_disconnect now MOTION s) r = future_at s r)"
proof -
  have f: "futures (gateway_on_disconnect now MOTION s) = futures (adapter_on_disconnect MOTION s)"
    unfolding gateway_on_disconnect_def by (rule robot_truncateD(3)) (rule dispatch_on_disconnect_frame)
  have g: "future_at (gateway_on_disconnect now MOTION s) r = future_at (adapter_on_disconnect MOTION s) r"
    by (simp add: future_at_def f)
  have "future_at (adapter_on_disconnect MOTION s) r = future_at s r" if "future_done s r"
    using that by (simp add: adapter_on_disconnect_def settle_all)
  then show ?thesis
    using on_disconnect_settles [OF assms] unfolding future_done_def g by blast
qed

lemma motion_loss_answers_waiting_witness:
  "future_done (gateway_on_disconnect 3 MOTION run6) 0"
proof -
  have "dget (pending run6) ''t'' = Some 0" by (simp add: run6_eq run5_eq)
  then show ?thesis using motion_loss_answers_waiting by blast
qed

text \<open>
  Feedback of the motion module that names another task than the active one, or none, is
  consumed and changes nothing at all, in any reachable state; an emergency stop is the one
  exception.
\<close>

theorem stray_feedback_ignored:
  assumes "reachable L S disk A s" "\<And>t. disk = Some t \<Longrightarrow> table_ok t"
    and "source m = MOTION" "msg_type m \<in> {MOTION_STATUS, ERROR_REPORT}" "code m \<noteq> EMERGENCY_STOP"
    and "\<And>tid. dget (data m) ''task_id'' = Some (PStr tid) \<Longrightarrow> active_id s \<noteq> Some tid"
  shows "gateway_on_message now m s = (s, Inr None)"
proof -
  have I: "robot_inv A s" using reachable_invs [OF assms(1)] assms(2) by blast
  have "dget (pending s) tid = None" if t: "dget (data m) ''task_id'' = Some (PStr tid)" for tid
  proof (rule ccontr)
    assume "dget (pending s) tid \<noteq> None"
    then have "active_id s = Some tid" using pending_active [OF I] by blast
    then show False using assms(6) [OF t] by simp
  qed
  then have "fst (adapter_on_message m s) = s" using late_feedback [OF assms(5)] by blast
  moreover have "snd (adapter_on_message m s)"
    using assms(3,4) by (auto simp: adapter_on_message_def Let_def)
  ultimately show ?thesis
    by (cases "adapter_on_message m s"; cases "snd (adapter_on_message m s)") (simp_all add: gateway_on_message_def)
qed

lemma stray_feedback_ignored_witness:
  "gateway_on_message 4 sample_status run9 = (run9, Inr None)"
proof -
  have "active_id run9 = None" by (simp add: run9_eq)
  moreover have "source sample_status = MOTION" "msg_type sample_status = MOTION_STATUS" "code sample_status \<noteq> EMERGENCY_STOP"
    by (simp_all add: sample_status_def protocol_consts)
  ultimately show ?thesis using stray_feedback_ignored [OF sample_reachable] by simp
qed



section \<open>The modules' client\<close>

text \<open>
  C27. The waits between the attempts of a client are 1, 3, 5, 5, \<open>\<dots>\<close> seconds, whatever
  happened on the connections between, even after hours of service; and the loop ends only with an
  exception outside the classes it catches.
\<close>

theorem reconnect_waits:
  "fst (snd (run_forever f as 0 c)) =
     map (\<lambda>k. if k = 0 then 1 else if k = 1 then 3 else 5) [0 ..< length (fst (snd (run_forever f as 0 c)))]
   \<and> snd (snd (run_forever f as 0 c)) \<notin> Some ` RECONNECTS"
  using run_forever_waits [of f as 0 c] run_forever_escape [of f as 0 c]
  by (auto simp: interval_cases [abs_def] simp del: upt_Suc)

text \<open>
  C13. A client that connects registers: what it writes first is a line with which the server
  enters the fresh connection under the client's name, when that name is free, and the one message
  the server answers with is one the client takes as its acknowledgement.
\<close>

theorem registration_handshake:
  assumes "own_id cl \<in> set REGISTRABLE" "clock_ok t1" "clock_ok t2"
    and "conns s c = Some x" "module_id x = []" "\<not> writer_closing x" "dget (sessions s) (own_id cl) = None"
  shows "\<exists>m line ack cl' s'.
      send_built (register_message (own_id cl) t1) (cl\<lparr>writer_set := True\<rparr>) = (cl', Inr ())
    \<and> written cl' = written cl @ [m] \<and> encode_message m = Inr line
    \<and> handle_line (gateway_on_message t2) (gateway_on_disconnect t2) t2 tick c line s = s'
    \<and> dget (sessions s') (own_id cl) = Some c \<and> ident s' c = own_id cl
    \<and> sent s' = sent s @ [(c, ack)] \<and> msg_type ack = REGISTER_ACK
    \<and> client_dispatch f t3 ack cl' = (cl', Inr ())"
  using client_registers [OF assms(1,2)] plain_encodes [OF link_plain(1) [OF assms(1,2)]]
    register_line [OF assms, of "gateway_on_message t2" "gateway_on_disconnect t2" tick]
  by (intro exI [of _ "register_of (own_id cl) t1"] exI [of _ "line_of (register_of (own_id cl) t1)"]
      exI [of _ "ack_of REGISTER_ACK (own_id cl) t2"] exI)
    (auto simp: client_takes_ack ident_def dict_simps, simp add: ack_of_def)

lemma registration_handshake_witness:
  "\<exists>line. dget (sessions (handle_line (gateway_on_message 6) (gateway_on_disconnect 6) 6 (Fin 1) 0 line run1)) MOTION = Some 0"
proof -
  have c: "conns run1 0 = Some (new_session (Fin 0))" "dget (sessions run1) (own_id (new_client MOTION ())) = None"
    by (simp_all add: run1_def run0_def connect_def gateway_start_def)
  have "own_id (new_client MOTION ()) \<in> set REGISTRABLE" by (simp add: new_client_def REGISTRABLE_def)
  moreover have "clock_ok 5" "clock_ok 6" by (simp_all add: clock_ok_def)
  ultimately show ?thesis
    using registration_handshake [of "new_client MOTION ()" 5 6 run1 0 "new_session (Fin 0)" "Fin 1"] c
    by (auto simp: new_session_def) (simp add: new_client_def; blast)
qed

text \<open>
  C14. Heartbeats keep a module online: after a registered connection's heartbeat, in any
  reachable state, every patrol of the next ten seconds leaves it registered.
\<close>

theorem heartbeat_keeps_online:
  assumes "reachable L S disk A s" "\<And>t. disk = Some t \<Longrightarrow> table_ok t"
    and "dget (sessions s) md = Some c" "conns s c = Some x" "\<not> writer_closing x"
    and "clock_ok t1" "clock_ok t2" "heartbeat_message md t1 = Inr m" "encode_message m = Inr line"
    and "\<not> HEARTBEAT_OFFLINE_SEC < later - tick"
  shows "dget (sessions (heartbeat_patrol (gateway_on_disconnect t3) later
      (handle_line (gateway_on_message t2) (gateway_on_disconnect t2) t2 tick c line s))) md = Some c"
proof -
  have I: "server_inv s" using reachable_invs [OF assms(1)] assms(2) by blast
  have md: "md \<in> set REGISTRABLE" "module_id x = md"
    using server_invD(3,4) [OF I assms(3)] assms(4) by (simp_all add: ident_def)
  have m: "line = line_of (heartbeat_of md t1)"
    using assms(8,9) built(2) [OF md(1)] plain_encodes [OF link_plain(2) [OF md(1) assms(6)]] by simp
  let ?s = "handle_line (gateway_on_message t2) (gateway_on_disconnect t2) t2 tick c line s"
  have s: "?s = s\<lparr>conns := (conns s)(c \<mapsto> x\<lparr>last_heartbeat := tick\<rparr>), sent := sent s @ [(c, ack_of HEARTBEAT_ACK md t2)]\<rparr>"
    unfolding m by (rule heartbeat_line [OF md(1) assms(6,7,4) md(2) assms(5)])
  have "reachable L S disk (A \<union> {}) ?s" using assms(4) by (intro reachable.step [OF assms(1)] gstep.line) simp
  then have "server_inv ?s" using reachable_invs [of L S disk "A \<union> {}" ?s] assms(2) by blast
  then show ?thesis
    using gw.sessions_patrol [of ?s t3 later md] assms(3,10) by (simp add: s expired_def)
qed

lemma heartbeat_keeps_online_witness:
  "\<exists>line. dget (sessions (heartbeat_patrol (gateway_on_disconnect 9) (Fin 17)
      (handle_line (gateway_on_message 6) (gateway_on_disconnect 6) 6 (Fin 8) 0 line run7))) MOTION = Some 0"
proof -
  have s: "dget (sessions run7) MOTION = Some 0"
      "conns run7 0 = Some \<lparr>module_id = MOTION, reply_target = MOTION, last_heartbeat = Fin 0, writer_closing = False\<rparr>"
    by (simp_all add: run7_eq run6_eq run5_eq run4_eq run3_eq run2_eq)
  have md: "MOTION \<in> set REGISTRABLE" and t: "clock_ok 5" "clock_ok 6" by (simp_all add: REGISTRABLE_def clock_ok_def)
  have f: "\<not> HEARTBEAT_OFFLINE_SEC < Fin 17 - Fin 8" by (simp add: HEARTBEAT_OFFLINE_SEC_def minus_pyfloat_def)
  show ?thesis
    by (intro exI, rule heartbeat_keeps_online [OF sample_waiting(2) _ s _ t built(2) [OF md] plain_encodes [OF link_plain(2) [OF md t(1)]] f])
      simp_all
qed

section \<open>Detection tasks\<close>

text \<open>
  C7. At most one detection task is open at any time, each task in the dictionary is the object
  with its id, and a task that is finished stays finished, in every run of the gateway.
\<close>

theorem one_open_detection_task:
  assumes "reachable L S disk A s" "gsteps L S B s s'"
  shows "length (filter (\<lambda>(_, k). \<not> t_finished (task_obj s' k)) (tasks s')) \<le> 1
    \<and> (\<forall>(tid, k) \<in> set (tasks s'). k < length (task_objs s') \<and> t_id (task_obj s' k) = tid)
    \<and> (\<forall>k < length (task_objs s). t_finished (task_obj s k) \<longrightarrow> t_finished (task_obj s' k))"
proof -
  have e: "evolves s s'" by (rule gsteps_evolves [OF assms(2)])
  then have "detect_inv s'" using reachable_detect_inv [OF assms(1)] unfolding evolves_def by blast
  then show ?thesis using e unfolding detect_inv_def evolves_def open_tasks_def by (simp add: case_prod_unfold)
qed

lemma one_open_detection_task_witness:
  "tasks link2 = [(''s'', 0)] \<and> t_id (task_obj link2 0) = ''s''
     \<and> length (filter (\<lambda>(_, k). \<not> t_finished (task_obj link2 k)) (tasks link2)) = 1"
  using one_open_detection_task [OF link2_reachable]
  by (simp add: link2_tasks task_obj_def new_task_def)



section \<open>The algorithm module\<close>

text \<open>The answers to a sequence of messages, each with its time.\<close>

fun captures :: "(int \<times> message) list \<Rightarrow> ('m, 'p) algorithm \<Rightarrow> message option res list" where
  "captures [] a = []"
| "captures ((now, m) # ms) a =
     (case algorithm_on_message now m a of (a1, r) \<Rightarrow> r # captures ms a1)"

lemma captures_mock:
  assumes "mock_after n (detector a)" "\<forall>p \<in> set ms. msg_type (snd p) = CAPTURE_CMD"
  shows "captures ms a = map (\<lambda>k. Inr (Some (detection_message (fst (ms ! k)) (get_or (data (snd (ms ! k))) ''task_id'' (PStr [])) (n + k)))) [0 ..< length ms]"
  using assms
proof (induction ms arbitrary: n a)
  case (Cons p ms)
  obtain now m where p: "p = (now, m)" by fastforce
  have m: "msg_type m = CAPTURE_CMD" using Cons.prems(2) p by simp
  note A = capture_answer [OF Cons.prems(1) m, of now]
  obtain a1 r where r: "algorithm_on_message now m a = (a1, r)" by fastforce
  have "captures ms a1 = map (\<lambda>k. Inr (Some (detection_message (fst (ms ! k)) (get_or (data (snd (ms ! k))) ''task_id'' (PStr [])) (Suc n + k)))) [0 ..< length ms]"
    by (rule Cons.IH) (use A(2) r Cons.prems(2) in simp_all)
  moreover have "[0 ..< length (p # ms)] = 0 # map Suc [0 ..< length ms]" by (simp add: map_Suc_upt upt_conv_Cons del: upt_Suc)
  ultimately show ?case using A(1) r by (simp add: p del: upt_Suc)
qed simp

text \<open>
  A service in mock mode empties a scene of three fruits over and over: it answers the capture
  command number \<open>k\<close>, counted from zero since its start, with one fruit and success, and each
  fourth with none and the code for an empty scene, always with the task of the command.
\<close>

theorem mock_scene_repeats:
  assumes "new_algorithm ms ps config logs = (logs', Inr (a, host, port))" "truthy (get_or config ''use_mock'' (PBool True))"
    and "\<forall>p \<in> set cmds. msg_type (snd p) = CAPTURE_CMD"
  shows "captures cmds a = map (\<lambda>k. Inr (Some
      \<lparr>msg_type = DETECTION_RESULT, source = ALGORITHM, target = BACKEND,
       code = (if k mod 4 = 3 then DETECTION_EMPTY else SUCCESS), msg = (if k mod 4 = 3 then TEXT_NO_OBJECT else ''success''),
       data = [(''task_id'', get_or (data (snd (cmds ! k))) ''task_id'' (PStr [])),
               (''objects'', PList (if k mod 4 = 3 then [] else [PDict (mock_object (2 - int (k mod 4)))]))],
       timestamp = fst (cmds ! k)\<rparr>)) [0 ..< length cmds]"
proof -
  have "mock_after 0 (detector a)"
    using assms(1,2) mock_after_new [of ms "get_or config ''detector_model_path'' (PStr [])" True]
    by (auto simp: new_algorithm_def Let_def res_simps split: prod.splits sum.splits)
  then show ?thesis using captures_mock [OF _ assms(3), of 0 a] by (simp add: detection_message_def)
qed

definition sample_capture :: message where
  "sample_capture =
     \<lparr>msg_type = CAPTURE_CMD, source = BACKEND, target = ALGORITHM, code = 0, msg = [],
      data = [(''task_id'', PStr ''s'')], timestamp = 0\<rparr>"

definition sample_store :: "unit model_store" where
  "sample_store = \<lparr>installed = False, isfile = \<lambda>_. Inr False, load_weights = \<lambda>_. Inr ()\<rparr>"

lemma mock_scene_repeats_witness:
  "\<exists>a. map (map_sum id (map_option code)) (captures (replicate 4 (7, sample_capture)) (a :: (unit, unit) algorithm))
     = [Inr (Some SUCCESS), Inr (Some SUCCESS), Inr (Some SUCCESS), Inr (Some DETECTION_EMPTY)]"
proof -
  let ?config = "[(''server'', PDict [(''host'', PStr ''h''), (''port'', PInt 9000)])]"
  let ?logs = "\<lparr>loggers = \<lambda>_. new_logger, open_files = [], next_file = 0\<rparr>"
  obtain l a where n: "new_algorithm sample_store sample_store ?config ?logs = (l, Inr (a, PStr ''h'', PInt 9000))"
    by (simp add: new_algorithm_def get_or_def new_detector_def new_policy_def getitem_def get_logger_def level_of_def Let_def)
  have c: "\<forall>p \<in> set (replicate 4 (7 :: int, sample_capture)). msg_type (snd p) = CAPTURE_CMD" by (simp add: sample_capture_def)
  have u: "truthy (get_or ?config ''use_mock'' (PBool True))" by (simp add: get_or_def)
  show ?thesis
    by (rule exI [of _ a], subst mock_scene_repeats [OF n u c]) (simp add: upt_rec)
qed

text \<open>
  C28. What the mock reports for a running task, the gateway takes up: the task awaits a plan, its
  coroutine is scheduled, the request it builds from the fruit is valid and within the limits of
  every gateway that allows a force of 5 N, and it goes on to wait for the submission lock. The
  platform's \<open>math.hypot\<close> gives the mock's unit quaternion the norm 1.
\<close>

theorem mock_detection_planned:
  assumes "strict_numbers L" "unit_hypot L" "k mod 4 \<noteq> 3"
    and "dget (tasks s) tid = Some i" "i < length (task_objs s)" "\<not> t_finished (task_obj s i)" "\<not> t_awaiting (task_obj s i)"
    and "has_robot s" "\<not> maximum_force S < Fin 5"
  shows "\<exists>rq s'. target_request L (PDict (mock_object (2 - int (k mod 4)))) = Inr rq
    \<and> on_detection_result now (detection_message t (PStr tid) k) s = (s', Inr None)
    \<and> t_awaiting (task_obj s' i)
    \<and> dget (background s') (next_bg s) = Some (BgPlan i (PDict (mock_object (2 - int (k mod 4)))))
    \<and> dget (background (plan_target_start L S now (next_bg s) i (PDict (mock_object (2 - int (k mod 4)))) s')) (next_bg s)
        = Some (BgSubmit i rq)"
  by (rule mock_detection_submitted [OF assms, of now t])
    (auto simp: await_at_def dict_simps)

lemma mock_detection_planned_witness:
  "\<exists>rq. target_request sample_lib (PDict (mock_object 2)) = Inr rq"
proof -
  let ?s = "(gateway_start 0 None)\<lparr>tasks := [(''s'', 0)], task_objs := [new_task ''s'' (PStr [])]\<rparr>"
  have h: "unit_hypot sample_lib" by (simp add: unit_hypot_def sample_lib_def)
  have k: "(0 :: nat) mod 4 \<noteq> 3" by simp
  have s: "dget (tasks ?s) ''s'' = Some 0" "0 < length (task_objs ?s)" "\<not> t_finished (task_obj ?s 0)" "\<not> t_awaiting (task_obj ?s 0)"
      "has_robot ?s" "\<not> maximum_force sample_settings < Fin 5"
    by (simp_all add: task_obj_def new_task_def gateway_start_def sample_settings_def)
  show ?thesis using mock_detection_planned [OF sample_strict h k s, of 0 0] by auto
qed

section \<open>The gateway process\<close>

text \<open>
  C29. Two gateways never run on the same database: of all processes that make, acquire, release
  and lose their locks in any order, at most one holds the lock of a given path; and a process gets
  a lock exactly when the file can be opened, the system does not fail, and nobody holds it.
\<close>

theorem one_gateway_per_database:
  assumes "lock_reachable files w" "instances w i = Some k" "instances w j = Some l"
    and "lock_path k = lock_path l" "lock_stream k \<noteq> None" "lock_stream l \<noteq> None"
  shows "i = j \<and> snd (snd (acquire opened failing l (lock_sys w))) \<noteq> Inr ()"
proof -
  have I: "lock_inv w" by (rule lock_reachable_inv [OF assms(1)])
  obtain s t where st: "lock_stream k = Some s" "lock_stream l = Some t" using assms(5,6) by auto
  have o': "owns w i (lock_path k) s" "owns w j (lock_path k) t" using assms(2-4) st by (simp_all add: owns_def)
  have "holder (lock_sys w) (lock_path k) = Some s" "holder (lock_sys w) (lock_path k) = Some t"
    using lock_invD(1) [OF I] o' by blast+
  then have e: "s = t" "holder (lock_sys w) (lock_path l) \<noteq> None" using assms(4) by simp_all
  have "i = j" by (rule lock_invD(3) [OF I o'(1)]) (use o'(2) e(1) in simp)
  then show ?thesis using e(2) acquire_succeeds [of opened failing l "lock_sys w"] by simp
qed

lemma one_gateway_per_database_witness:
  "\<exists>w k. lock_reachable (\<lambda>_. None) w \<and> instances w 0 = Some k \<and> lock_stream k = Some 0
     \<and> snd (snd (acquire (Inr ()) False k (lock_sys w))) \<noteq> Inr ()"
proof -
  let ?k = "new_lock ''d''" and ?w0 = "lock_start (\<lambda>_. None)"
  let ?w1 = "?w0\<lparr>instances := (instances ?w0)(0 \<mapsto> ?k)\<rparr>"
  have w1: "lock_reachable (\<lambda>_. None) ?w1"
    by (rule lock_reachable.goes [OF lock_reachable.begins lock_step.made]) (simp add: lock_start_def)
  let ?a = "acquire (Inr ()) False ?k (lock_sys ?w1)"
  obtain k fs where kf: "k = fst ?a" "fs = fst (snd ?a)" by blast
  have a: "?a = (k, fs, Inr ())" and k: "lock_stream k = Some 0"
    by (simp_all add: kf prod_eq_iff acquire_def lock_start_def new_lock_def Let_def)
  let ?w = "?w1\<lparr>lock_sys := fs, instances := (instances ?w1)(0 \<mapsto> k)\<rparr>"
  have w: "lock_reachable (\<lambda>_. None) ?w"
    by (rule lock_reachable.goes [OF w1 lock_step.acquired [OF _ a]]) simp
  have i: "instances ?w 0 = Some k" by simp
  have "lock_stream k \<noteq> None" using k by simp
  from one_gateway_per_database [OF w i i refl this this, of "Inr ()" False] show ?thesis
    using w i k by blast
qed










section \<open>HTTP\<close>

text \<open>
  C33. The status of an answer to \<open>POST /robot/plan\<close> says what happened: 422 a request that is
  malformed or out of limits; 503 a gateway that closes or has no motion service, 409 one that is
  busy, in this order, and the state is as before; otherwise the submission holds the lock, and
  ends with 202, or 500 when the database fails.
\<close>

theorem plan_request_status:
  "(case plan_route_start L S now reports body of
      Inl h \<Rightarrow> map_option http_status h = Some 422
        \<and> (case validate_request L body of Inl _ \<Rightarrow> True | Inr rq \<Rightarrow> submit_check S rq \<noteq> Inr ())
    | Inr rq \<Rightarrow> validate_request L body = Inr rq \<and> submit_check S rq = Inr ()
        \<and> (case plan_route_enter now tid rq s of
             (s1, Some h) \<Rightarrow> s1 = s \<and> http_status h = (if \<not> closing s \<and> active_id s \<noteq> None then 409 else 503)
                \<and> \<not> (\<not> closing s \<and> active_id s = None \<and> motion_online s)
           | (s1, None) \<Rightarrow> \<not> closing s \<and> active_id s = None \<and> motion_online s \<and> active_id s1 = Some tid
                \<and> sub_lock s1 = LCreating tid (dump_request rq) None False))
   \<and> map_option http_status (plan_route_end now (Inr tid)) = Some 202
   \<and> map_option http_status (plan_route_end now (Inl (PyError x))) = Some 500"
proof -
  have e: "map_option http_status (plan_route_end now (Inr tid)) = Some 202"
      "map_option http_status (plan_route_end now (Inl (PyError x))) = Some 500"
    by (simp_all add: plan_route_end_def planning_reply_def ok_reply_def failed_def internal_error_def)
  show ?thesis
  proof (cases "validate_request L body")
    case (Inl r)
    then show ?thesis using e by (simp add: plan_route_start_def invalid_request_def)
  next
    case (Inr rq)
    show ?thesis
    proof (cases "submit_check S rq")
      case (Inl r)
      have "\<exists>c t. r = GatewayError 422 c t" using Inl by (auto simp: submit_check_def split: if_splits option.splits)
      then show ?thesis using Inr Inl e by (auto simp: plan_route_start_def failed_def gateway_error_def)
    next
      case ok: (Inr u)
      then show ?thesis
        using Inr e by (simp add: plan_route_start_def plan_route_enter_def submit_enter_def failed_def gateway_error_def)
    qed
  qed
qed

text \<open>
  C34. A task that was accepted can be read at once: when \<open>POST /robot/plan\<close> answers 202 for a
  task, \<open>GET /tasks/\<close> of its id answers 200 with the status \<open>planning\<close>, the request as it was
  validated, and neither result nor error.
\<close>

theorem accepted_task_visible:
  assumes "sub_lock s = LCreating tid (dump_request rq) None c" "submit_created dbok t s = (s', Some r)"
    and "plan_route_end now r = Some h" "http_status h = 202" "py_ok (PDict (dump_request rq))"
  shows "dget (http_body h) ''data'' = Some (PDict [(''task_id'', PStr tid), (''status'', PStr ''planning''), (''task_url'', PStr (''/tasks/'' @ tid))])
    \<and> (\<exists>g v. task_route now' True tid s' = Some g \<and> http_status g = 200 \<and> dget (http_body g) ''data'' = Some (PDict (view_dict v))
        \<and> v_task_id v = tid \<and> v_status v = ''planning'' \<and> v_request v = PDict (dump_request rq)
        \<and> v_result v = None \<and> v_error v = None)"
proof -
  obtain t1 where d: "db_create dbok t tid (dump_request rq) (db s) = Inr t1" and s': "db s' = t1" and r: "r = Inr tid"
  proof (cases "db_create dbok t tid (dump_request rq) (db s)")
    case (Inl x)
    then have "r = Inl (PyError x)" using assms(1,2) by (auto simp: submit_created_def)
    then show ?thesis using assms(3,4) by (auto simp: plan_route_end_def failed_def internal_error_def)
  next
    case (Inr t1)
    then show ?thesis using assms(1,2) that by (auto simp: submit_created_def split: if_splits)
  qed
  have h: "h = planning_reply now tid" using assms(3) by (simp add: r plan_route_end_def)
  have "create t tid (dump_request rq) (db s) = Inr t1" using d by (simp add: db_create_def split: if_splits)
  then obtain js where js: "loads js = Inr (PDict (dump_request rq))"
      "dget t1 tid = Some \<lparr>status = PLANNING, request_json = js, result_json = None, error_json = None, created_at = t, updated_at = t\<rparr>"
    using assms(5) by (rule created_row)
  let ?v = "\<lparr>v_task_id = tid, v_status = PLANNING, v_request = PDict (dump_request rq), v_result = None, v_error = None,
             v_created_at = t, v_updated_at = t\<rparr>"
  have "get_task True tid s' = Inr ?v" by (simp add: get_task_def get_def s' js)
  then have "task_route now' True tid s' = Some (ok_reply now' 200 (view_dict ?v))" by (simp add: task_route_def)
  then show ?thesis
    by (intro conjI exI [of _ "ok_reply now' 200 (view_dict ?v)"] exI [of _ ?v])
      (simp_all add: h planning_reply_def ok_reply_def response_def PLANNING_def)
qed

lemma accepted_task_visible_witness:
  "\<exists>g. task_route 9 True ''t'' run4 = Some g \<and> http_status g = 200"
proof -
  have l: "sub_lock run3 = LCreating ''t'' (dump_request sample_request) None False" by (simp add: run3_eq)
  have c: "submit_created True 0 run3 = (run4, Some (Inr ''t''))"
    by (simp add: run4_eq run3_eq submit_created_def db_create_def create_def sample_json bind_text_def run2_fields
        sample_row_def sample_worker_def del: dumps.simps)
  have "plan_route_end 1 (Inr ''t'') = Some (planning_reply 1 ''t'')" "http_status (planning_reply 1 ''t'') = 202"
    by (simp_all add: plan_route_end_def planning_reply_def ok_reply_def)
  moreover have "py_ok (PDict (dump_request sample_request))"
    by (simp add: dump_request_def sample_request_def floats_def list_all_iff)
  ultimately show ?thesis using accepted_task_visible [OF l c] by blast
qed

section \<open>The scene tool\<close>

text \<open>
  C35. A scene compressed with any Huffman tree of depth at most 255 whose leaves are distinct
  bytes is decoded to exactly the bytes that were compressed, whatever follows the last bit; a
  scene stored plainly is decoded as it is.
\<close>

theorem scene_roundtrip:
  assumes "scene_header 1 (int (length ss)) h" "0 < length ss" "length ss \<le> 100000000"
    and "depth t \<le> MAX_DEPTH" "distinct (leaf_list t)" "\<forall>s \<in> set (leaf_list t). s < 256" "set ss \<subseteq> set (leaf_list t)"
    and "scene_header 0 (int (length ss)) h'"
  shows "decode_scene (h @ pack (tree_bits t @ concat (map (code_of t) ss)) @ rest) = Inr (map of_nat ss)
    \<and> decode_scene (h' @ map of_nat ss) = Inr (map of_nat ss)"
  using decode_packed [OF assms(1-7)] decode_plain [of "map of_nat ss" h'] assms(2,3,8) by simp

definition sample_header :: "8 word \<Rightarrow> bytes" where
  "sample_header c = bytes_of ''VREP'' @ [25, 0, 0, 0, 0, 0, 0, 0, c, 3, 0, 0, 0] @ replicate 1004 0"

lemma sample_header_ok: "scene_header c 3 (sample_header c)"
  by (simp add: scene_header_def sample_header_def HEADER_def bytes_of_def u32_at_def)

lemma scene_roundtrip_witness:
  "decode_scene (sample_header 1 @ pack (tree_bits (HNode (HLeaf 65) (HLeaf 66)) @ [True, False, True])) = Inr [66, 65, 66]"
proof -
  have h: "scene_header c (int (length [66, 65, 66 :: nat])) (sample_header c)" for c using sample_header_ok by simp
  have "decode_scene (sample_header 1 @ pack (tree_bits (HNode (HLeaf 65) (HLeaf 66)) @ concat (map (code_of (HNode (HLeaf 65) (HLeaf 66))) [66, 65, 66])) @ [])
      = Inr (map of_nat [66, 65, 66])"
    by (rule scene_roundtrip [OF h _ _ _ _ _ _ h, THEN conjunct1]) (simp_all add: MAX_DEPTH_def)
  then show ?thesis by simp
qed

text \<open>
  The records of a scene are read back as they were written: names of three ASCII
  characters, payloads of any bytes, separators skipped, up to the end mark or the end of the data.
\<close>

theorem records_roundtrip:
  assumes "list_all piece_ok ps" "length rest < 3 \<or> take 3 rest = bytes_of ''EOF''"
  shows "records (concat (map emit_piece ps) @ rest) 0 = (piece_records ps, None)"
  using records_pieces [OF assms, of "[]"] by simp

lemma records_roundtrip_witness:
  "records (emit_piece (Record ''Ids'' [1, 2]) @ emit_piece (Separator ''NXT'') @ emit_piece (Record ''JNT'' []) @ bytes_of ''EOF'' @ [7]) 0
     = ([(''Ids'', [1, 2]), (''JNT'', [])], None)"
proof -
  have "list_all piece_ok [Record ''Ids'' [1, 2], Separator ''NXT'', Record ''JNT'' []]" by (simp add: name_ok_def)
  moreover have "length (bytes_of ''EOF'' @ [7]) < 3 \<or> take 3 (bytes_of ''EOF'' @ [7]) = bytes_of ''EOF''" by (simp add: bytes_of_def)
  ultimately show ?thesis using records_roundtrip [of "[Record ''Ids'' [1, 2], Separator ''NXT'', Record ''JNT'' []]"] by simp
qed

text \<open>
  C36. In a scene that was read, the pose of one object relative to another is the product of the
  poses on the chain of parents between them; it exists exactly when there is such a chain, and a
  scene without one, or with a cycle, is refused with a \<open>ValueError\<close> and never searched forever.
\<close>

theorem relative_pose_of_scene:
  assumes "read_objects d = Inr objs"
  shows "case relative objs child par of
      Inr m \<Rightarrow> \<exists>ks. chain objs child par ks \<and> distinct ks \<and> m = chain_pose objs ks
    | Inl e \<Rightarrow> e = ValueError \<and> (\<nexists>ks. chain objs child par ks)"
proof (cases "relative objs child par")
  case (Inr m)
  then obtain ks where "chain objs child par ks" "m = chain_pose objs ks" using relative_iff by auto
  then show ?thesis using Inr chain_distinct by auto
next
  case (Inl e)
  then have "e = ValueError" using relative_from_error [OF _ read_objects_ok [OF assms]] by (simp add: relative_def)
  moreover have "\<not> chain objs child par ks" for ks
    using Inl relative_iff [of objs child par "chain_pose objs ks"] by auto
  ultimately show ?thesis using Inl by simp
qed

definition sample_fields :: "piece list" where
  "sample_fields =
     [Record ''3do'' [], Record ''Ids'' [1, 0, 0, 0, 2, 0, 0, 0], Record ''Nme'' [1, 0, 0, 0, 97], Record ''_fq'' (replicate 56 0)]"

definition sample_object :: scene_object where
  "sample_object =
     (new_object ''DUM'')\<lparr>obj_id := Some 1, obj_parent := Some 2, obj_name := Some ''a'', obj_pose := Some (replicate 7 (Fin 0))\<rparr>"

lemma sample_objects: "read_objects (emit_piece (Record ''DUM'' (concat (map emit_piece sample_fields)))) = Inr [(1, sample_object)]"
proof -
  have l: "length (concat (map emit_piece sample_fields)) = 97" by (simp add: sample_fields_def emit_record_def bytes_of_def le32_def)
  have "records (concat (map emit_piece [Record ''DUM'' (concat (map emit_piece sample_fields))]) @ []) 0
      = (piece_records [Record ''DUM'' (concat (map emit_piece sample_fields))], None)"
    using records_pieces [of "[Record ''DUM'' (concat (map emit_piece sample_fields))]" "[]" "[]"] by (simp add: name_ok_def l)
  then have r1: "records (emit_piece (Record ''DUM'' (concat (map emit_piece sample_fields)))) 0
      = ([(''DUM'', concat (map emit_piece sample_fields))], None)" by simp
  have "records (concat (map emit_piece sample_fields) @ []) 0 = (piece_records sample_fields, None)"
    using records_pieces [of sample_fields "[]" "[]"] by (simp add: name_ok_def sample_fields_def)
  then have r2: "records (concat (map emit_piece sample_fields)) 0 = (piece_records sample_fields, None)" by simp
  have h: "take 3 (concat (map emit_piece sample_fields)) = bytes_of ''3do''" by (simp add: sample_fields_def emit_record_def bytes_of_def)
  have z: "le_uint (take 8 (drop (8 * k) (replicate 56 0))) = 0" for k
    by (rule le_uint_zeros) auto
  have i: "i32_at [1, 0, 0, 0, 2, 0, 0, 0] 0 = 1" "i32_at [1, 0, 0, 0, 2, 0, 0, 0] 4 = 2" by (simp_all add: i32_at_def u32_at_def)
  have p: "doubles 7 (replicate 56 0) = Inr (replicate 7 (Fin 0))"
  proof -
    have "double_at (replicate 56 0) (8 * k) = Fin 0" for k unfolding double_at_def z Let_def by simp
    then show ?thesis by (simp add: doubles_def map_replicate_const)
  qed
  have "[97] = bytes_of ''a''" by (simp add: bytes_of_def)
  then have n: "decode_text [97] = Inr ''a''" by (simp add: decode_text_def text_bytes_of Let_def)
  have f: "for_records read_field (new_object ''DUM'') (piece_records sample_fields, None) = Inr sample_object"
    unfolding sample_fields_def by (simp add: read_field_def i p n new_object_def sample_object_def)
  show ?thesis unfolding read_objects_def r1 by (simp add: read_object_def h r2 f) (simp add: sample_object_def new_object_def)
qed

lemma relative_pose_of_scene_witness:
  "relative [(1, sample_object)] 1 2 = Inr (chain_pose [(1, sample_object)] [1]) \<and> relative [(1, sample_object)] 1 3 = Inl ValueError"
proof -
  let ?objs = "[(1, sample_object)]"
  have o1: "dget ?objs (1 :: int) = Some sample_object" "dget ?objs (2 :: int) = None" "obj_parent sample_object = Some 2" "obj_pose sample_object = Some (replicate 7 (Fin 0))"
    by (simp_all add: sample_object_def)
  have c: "chain ?objs 1 2 [1]" by (rule chain.up [OF _ o1(1,4,3) chain.here]) simp
  have n2: "\<not> chain ?objs 2 3 ks" for ks using o1(2) by (auto elim: chainE)
  have n: "\<not> chain ?objs 1 3 ks" for ks using o1(1,3) n2 by (auto elim: chainE)
  have "relative ?objs 1 2 = Inr (chain_pose ?objs [1])"
  proof (cases "relative ?objs 1 2")
    case (Inl e)
    then show ?thesis using relative_pose_of_scene [OF sample_objects, of 1 2] c by auto
  next
    case (Inr m)
    then obtain ks where "chain ?objs 1 2 ks" "m = chain_pose ?objs ks"
      using relative_pose_of_scene [OF sample_objects, of 1 2] by auto
    then show ?thesis using Inr chain_unique [OF c] by blast
  qed
  moreover have "relative ?objs 1 3 = Inl ValueError"
    using relative_pose_of_scene [OF sample_objects, of 1 3] n by (cases "relative ?objs 1 3") simp_all
  ultimately show ?thesis ..
qed



section \<open>The exported files\<close>

text \<open>
  C38. What an export leaves behind. When it succeeds, the model file and the file of 142 reference
  poses read back, as JSON in UTF-8, as exactly the values the exporter computed from the scene's
  bytes, numbers included. When it fails, no file has changed unless the scene passed every check
  and the system refused a write; and the poses are touched only after the model was completely
  written. No other file is touched in either case. (The platform's \<open>sin\<close>, \<open>cos\<close> and \<open>atan2\<close> return
  floats, and the two paths differ.)
\<close>

theorem export_reads_back:
  assumes "run_export T W scene mp fp fs = (fs', r)" "trig_ok T" "mp \<noteq> fp"
  shows "(\<forall>p. p \<noteq> mp \<and> p \<noteq> fp \<longrightarrow> fs' p = fs p)
    \<and> (case r of
         Inr line \<Rightarrow> \<exists>content m cases body poses.
           fs scene = Some content \<and> export_scene T (bytes_of content) = Inr (m, cases)
           \<and> line = export_report (bytes_of content) cases \<and> map fst cases = case_angles \<and> length cases = 142
           \<and> fs' mp = Some body \<and> load_object body = Inr (model_value (bytes_of content) m)
           \<and> fs' fp = Some poses \<and> load_object poses = Inr (fixtures_value (bytes_of content) cases)
       | Inl e \<Rightarrow> fs' = fs \<or> (\<exists>content m cases.
           fs scene = Some content \<and> export_scene T (bytes_of content) = Inr (m, cases) \<and> e = OSError
           \<and> (fs' fp = fs fp \<or> (\<exists>body. fs' mp = Some body \<and> load_object body = Inr (model_value (bytes_of content) m)))))"
proof (cases r)
  case (Inr line)
  then show ?thesis using export_written [OF assms(1) [unfolded Inr] assms(2,3)] by simp
next
  case (Inl e)
  then show ?thesis using export_refused [OF assms(1) [unfolded Inl] assms(2,3)] by (cases "fs' = fs") simp_all
qed

definition still_trig :: trig where
  "still_trig = \<lparr>cosf = (\<lambda>_. Fin 0), sinf = (\<lambda>_. Fin 0), atan2f = (\<lambda>_ _. Fin 0)\<rparr>"

lemma arm_run_export:
  assumes "fs scene = Some arm_scene"
  shows "\<exists>fs' line. run_export still_trig (\<lambda>_. Complete) scene mp fp fs = (fs', Inr line)"
proof -
  obtain m cases where E: "export_scene still_trig (bytes_of arm_scene) = Inr (m, cases)" using arm_exported by blast
  have "trig_ok still_trig" by (simp add: trig_ok_def still_trig_def)
  note ok = export_scene_ok [OF E this]
  show ?thesis
    using write_json_ok [OF model_value_ok [OF ok(1)] texts_ok_values(1) [OF ok(1)]]
      write_json_ok [OF fixtures_value_ok [OF ok(2)] texts_ok_values(2)]
    by (simp add: run_export_def assms E write_files_def Let_def del: dumps_indent.simps)
qed

lemma export_reads_back_witness:
  "\<exists>fs' m cases body. run_export still_trig (\<lambda>_. Complete) ''s'' ''m'' ''f'' [''s'' \<mapsto> arm_scene] = (fs', Inr (export_report (bytes_of arm_scene) cases))
     \<and> fs' ''m'' = Some body \<and> load_object body = Inr (model_value (bytes_of arm_scene) m) \<and> length cases = 142"
proof -
  have "[''s'' \<mapsto> arm_scene] ''s'' = Some arm_scene" by simp
  from arm_run_export [of "[''s'' \<mapsto> arm_scene]" "''s''" "''m''" "''f''", OF this] obtain fs' line where
    r: "run_export still_trig (\<lambda>_. Complete) ''s'' ''m'' ''f'' [''s'' \<mapsto> arm_scene] = (fs', Inr line)" by blast
  have T: "trig_ok still_trig" by (simp add: trig_ok_def still_trig_def)
  obtain content m cases body where c: "[''s'' \<mapsto> arm_scene] ''s'' = Some content"
    "export_scene still_trig (bytes_of content) = Inr (m, cases)" "length cases = 142"
    "fs' ''m'' = Some body" "load_object body = Inr (model_value (bytes_of content) m)"
    using export_reads_back [OF r T] by auto
  have "line = export_report (bytes_of arm_scene) cases"
    using r c(1,2) by (auto simp: run_export_def Let_def split: prod.splits sum.splits)
  then show ?thesis using r c by auto
qed

text \<open>
  C39. The exporter and the gateway agree on the arm's limits: when the gateway reads its
  configuration from files in which the model file was written by the exporter and not touched
  since, the settings it accepts have exactly the limits the exporter took from the scene's joints.
\<close>

theorem exported_limits_configure:
  assumes "run_export T W scene mp fp fs = (fs1, Inr line)" "trig_ok T" "mp \<noteq> fp"
    and "fs2 mp = fs1 mp" "config_model_path fs2 environ repo_root config = Inr mp"
    and "from_config fs2 environ repo_root config = Inr S"
  shows "\<exists>content m cases. fs scene = Some content \<and> export_scene T (bytes_of content) = Inr (m, cases)
    \<and> joint_min S = map PFloat (m_joint_min m) \<and> joint_max S = map PFloat (m_joint_max m)"
proof -
  obtain content m cases fs0 where E: "fs scene = Some content" "export_scene T (bytes_of content) = Inr (m, cases)"
    "write_json (W mp) mp (model_value (bytes_of content) m) fs = (fs0, Inr ())"
    "write_json (W fp) fp (fixtures_value (bytes_of content) cases) fs0 = (fs1, Inr ())"
    using run_export_InrD [OF assms(1)] by metis
  obtain body where t: "fs0 mp = Some body" "load_object body = Inr (model_value (bytes_of content) m)"
    using load_written [OF E(3) model_value_ok [OF export_scene_ok(1) [OF E(2) assms(2)]]] by blast
  have "fs2 mp = Some body" using t(1) assms(4) write_json_other [OF E(4) assms(3)] by simp
  then have "dget (model_value (bytes_of content) m) ''joint_min'' = Some (PList (joint_min S))"
    "dget (model_value (bytes_of content) m) ''joint_max'' = Some (PList (joint_max S))"
    using from_config_model [OF assms(6,5)] t(2) by auto
  then have "joint_min S = map PFloat (m_joint_min m) \<and> joint_max S = map PFloat (m_joint_max m)"
    by (simp add: model_value_def floats_def)
  then show ?thesis using E(1,2) by blast
qed

lemma exported_limits_configure_witness:
  "\<exists>fs line S. run_export still_trig (\<lambda>_. Complete) ''/r/s'' ''/r/m/u'' ''/r/f''
       [''/r/m/base.json'' \<mapsto> dumps (PDict sample_motion), ''/r/s'' \<mapsto> arm_scene] = (fs, Inr line)
     \<and> from_config fs None ''/r'' sample_config = Inr S
     \<and> joint_min S = replicate 6 (PFloat (Fin 0)) \<and> joint_max S = replicate 6 (PFloat (Fin 1))"
proof -
  let ?fs0 = "[''/r/m/base.json'' \<mapsto> dumps (PDict sample_motion), ''/r/s'' \<mapsto> arm_scene]"
  have T: "trig_ok still_trig" by (simp add: trig_ok_def still_trig_def)
  have s0: "?fs0 ''/r/s'' = Some arm_scene" by simp
  obtain fs line where r: "run_export still_trig (\<lambda>_. Complete) ''/r/s'' ''/r/m/u'' ''/r/f'' ?fs0 = (fs, Inr line)"
    using arm_run_export [of ?fs0 "''/r/s''" "''/r/m/u''" "''/r/f''", OF s0] by blast
  obtain m cases fs1 where E: "export_scene still_trig (bytes_of arm_scene) = Inr (m, cases)"
    "write_json Complete ''/r/m/u'' (model_value (bytes_of arm_scene) m) ?fs0 = (fs1, Inr ())"
    "write_json Complete ''/r/f'' (fixtures_value (bytes_of arm_scene) cases) fs1 = (fs, Inr ())"
    using run_export_InrD [OF r] s0 by (metis option.inject)
  have lim: "m_joint_min m = replicate 6 (Fin 0)" "m_joint_max m = replicate 6 (Fin 1)"
    using arm_exported [of still_trig] E(1) by auto
  obtain body where b: "fs1 ''/r/m/u'' = Some body" "load_object body = Inr (model_value (bytes_of arm_scene) m)"
    using load_written [OF E(2) model_value_ok [OF export_scene_ok(1) [OF E(1) T]]] by blast
  have f: "fs ''/r/m/base.json'' = Some (dumps (PDict sample_motion))" "fs ''/r/m/sim.json'' = None" "fs ''/r/m/u'' = Some body"
    using write_json_other [OF E(3)] write_json_other [OF E(2)] b(1) by simp_all
  have d: "dget (model_value (bytes_of arm_scene) m) ''joint_min'' = Some (PList (replicate 6 (PFloat (Fin 0))))"
    "dget (model_value (bytes_of arm_scene) m) ''joint_max'' = Some (PList (replicate 6 (PFloat (Fin 1))))"
    by (simp_all add: model_value_def floats_def lim)
  have l: "replicate 6 x = [x, x, x, x, x, x]" for x :: pyval by (simp add: numeral_eq_Suc)
  have v: "check_vector (PList (replicate 6 (PFloat (Fin q)))) = Inr (replicate 6 (PFloat (Fin q)))" for q
    unfolding l by (simp add: check_vector_def not_finite_number_def num_isfinite_def)
  have b': "\<not> list_ex bad_limit (zip (replicate 6 (PInt 0)) (zip (replicate 6 (PFloat (Fin 0))) (replicate 6 (PFloat (Fin 1)))))"
    unfolding l by (simp add: bad_limit_def)
  note S = sample_from_config [OF f b(2) d v v b']
  obtain S where S1: "from_config fs None ''/r'' sample_config = Inr S" using S(1) by blast
  have "joint_min S = map PFloat (m_joint_min m) \<and> joint_max S = map PFloat (m_joint_max m)"
    using exported_limits_configure [OF r T _ refl S(2) S1] s0 E(1) by auto
  then show ?thesis using r S1 lim by (auto simp: map_replicate)
qed

text \<open>
  C40. The reference poses are computed for 142 vectors of six joint angles, every angle a finite
  number from \<open>-pi\<close> to \<open>pi\<close>, the ends included; the drawn ones are those of the Mersenne Twister with
  the seed of the source.
\<close>

theorem reference_angles:
  "length case_angles = 142
   \<and> (\<forall>v \<in> set case_angles. length v = 6 \<and> (\<forall>x \<in> set v. isfinite x \<and> - MATH_PI \<le> x \<and> x \<le> MATH_PI))"
  using case_angles_vectors unfolding list_all_iff angle_vector_def joint_angle_def by blast

lemma reference_angles_witness:
  "length (case_angles ! 7) = 6 \<and> isfinite (case_angles ! 7 ! 5) \<and> case_angles ! 7 ! 5 \<le> MATH_PI"
proof -
  have c: "case_angles ! 7 \<in> set case_angles" using reference_angles by (intro nth_mem) simp
  then have "length (case_angles ! 7) = 6" using reference_angles by blast
  moreover have "case_angles ! 7 ! 5 \<in> set (case_angles ! 7)" using calculation by (intro nth_mem) simp
  ultimately show ?thesis using reference_angles c by blast
qed

end
